(* ===== verification/Prelude.thy ===== *)
theory Prelude
  imports Complex_Main "HOL-Library.Word"
begin

unbundle bit_operations_syntax

text \<open>
  The vocabulary every component shares: the ways a C program can leave defined behaviour,
  the result type that carries them, characters as bytes, C strings and fixed buffers, and
  the generic lemmas and collections the component proofs are run with.

  The firmware is built with \<open>-funsigned-char\<close> (\<open>src/Makefile\<close>), so a C \<open>char\<close> is one
  unsigned byte.  A string is a list of HOL characters, which are bytes too.  A C string in
  memory is the list of its characters before the terminating NUL: a pointer into it is the
  suffix it points at, the empty suffix is the pointer at the NUL itself, and moving past
  that is the fault \<open>OutOfBounds\<close>.
\<close>

named_theorems res_simps \<open>equations of the result monad\<close>
named_theorems buf_simps \<open>facts on fixed-size buffers\<close>
named_theorems char_simps \<open>facts on characters and their codes\<close>

type_synonym u8 = "8 word"
type_synonym u16 = "16 word"
type_synonym u32 = "32 word"

section \<open>Faults and results\<close>

text \<open>
  Undefined behaviour of C as a value.  A function of the model that can meet it returns
  \<open>fault + 'a\<close>.
\<close>

datatype fault =
    OutOfBounds
  | BufferOverflow
  | NullDeref
  | FormatDirective
  | FloatRange
  | SignedOverflow
  | BadShift
  | DivByZero

type_synonym 'a res = "fault + 'a"

definition rbind :: "'a res \<Rightarrow> ('a \<Rightarrow> 'b res) \<Rightarrow> 'b res" where
  "rbind m f = (case m of Inl e \<Rightarrow> Inl e | Inr x \<Rightarrow> f x)"

lemma rbind_Inl [simp, res_simps]: "rbind (Inl e) f = Inl e"
  by (simp add: rbind_def)

lemma rbind_Inr [simp, res_simps]: "rbind (Inr x) f = f x"
  by (simp add: rbind_def)

lemma rbind_eq_Inr [res_simps]: "rbind m f = Inr y \<longleftrightarrow> (\<exists>x. m = Inr x \<and> f x = Inr y)"
  by (cases m) auto

lemma rbind_eq_Inl [res_simps]:
  "rbind m f = Inl e \<longleftrightarrow> m = Inl e \<or> (\<exists>x. m = Inr x \<and> f x = Inl e)"
  by (cases m) auto

lemma rbind_InrE [elim!]:
  assumes "rbind m f = Inr y"
  obtains x where "m = Inr x" and "f x = Inr y"
  using assms by (auto simp: rbind_eq_Inr)

lemma rbind_cong [fundef_cong]:
  "\<lbrakk>m = m'; \<And>x. m' = Inr x \<Longrightarrow> f x = f' x\<rbrakk> \<Longrightarrow> rbind m f = rbind m' f'"
  by (cases m') auto

lemma rbind_assoc: "rbind (rbind m f) g = rbind m (\<lambda>x. rbind (f x) g)"
  by (cases m) auto

definition rmap :: "('a \<Rightarrow> 'b) \<Rightarrow> 'a res \<Rightarrow> 'b res" where
  "rmap f m = rbind m (\<lambda>x. Inr (f x))"

lemma rmap_Inl [simp, res_simps]: "rmap f (Inl e) = Inl e"
  by (simp add: rmap_def)

lemma rmap_Inr [simp, res_simps]: "rmap f (Inr x) = Inr (f x)"
  by (simp add: rmap_def)

lemma rmap_eq_Inr [res_simps]: "rmap f m = Inr y \<longleftrightarrow> (\<exists>x. m = Inr x \<and> y = f x)"
  by (cases m) auto

lemma rmap_eq_Inl [res_simps]: "rmap f m = Inl e \<longleftrightarrow> m = Inl e"
  by (cases m) auto

text \<open>A dereference of a pointer that may be NULL.\<close>

definition deref :: "'a option \<Rightarrow> 'a res" where
  "deref p = (case p of None \<Rightarrow> Inl NullDeref | Some x \<Rightarrow> Inr x)"

lemma deref_simps [simp, res_simps]: "deref None = Inl NullDeref" "deref (Some x) = Inr x"
  by (simp_all add: deref_def)

text \<open>A loop over a list whose body can fault.\<close>

fun foldM :: "('a \<Rightarrow> 's \<Rightarrow> 's res) \<Rightarrow> 'a list \<Rightarrow> 's \<Rightarrow> 's res" where
  "foldM f [] s = Inr s"
| "foldM f (x # xs) s = rbind (f x s) (foldM f xs)"

lemma foldM_invariant:
  assumes "foldM f xs s = Inr t" "P s"
    and "\<And>x s t. x \<in> set xs \<Longrightarrow> P s \<Longrightarrow> f x s = Inr t \<Longrightarrow> P t"
  shows "P t"
  using assms
proof (induction xs arbitrary: s)
  case (Cons x xs)
  from Cons.prems(1) obtain u where u: "f x s = Inr u" "foldM f xs u = Inr t" by auto
  have "P u" using Cons.prems u by auto
  then show ?case using Cons.IH [OF u(2)] Cons.prems by auto
qed simp

section \<open>Characters as bytes\<close>

abbreviation NUL :: char where "NUL \<equiv> CHR 0x00"

abbreviation code :: "char \<Rightarrow> nat" where "code c \<equiv> of_char c"

lemma code_less [simp, char_simps]: "code c < 256"
  using of_char_mod_256 [of c, where ?'a = nat] by (metis mod_less_divisor zero_less_numeral)

lemma code_eq_iff [char_simps]: "code c = code d \<longleftrightarrow> c = d"
  by simp

lemma char_of_code [simp, char_simps]: "char_of (code c) = c"
  by simp

lemma code_char_of [simp, char_simps]: "n < 256 \<Longrightarrow> code (char_of n) = n"
  by simp

lemma code_NUL_iff [char_simps]: "code c = 0 \<longleftrightarrow> c = NUL"
proof -
  have "code NUL = 0" by simp
  then show ?thesis by (metis of_char_eq_iff)
qed

definition is_digit :: "char \<Rightarrow> bool" where
  "is_digit c \<longleftrightarrow> 48 \<le> code c \<and> code c \<le> 57"

definition digit_val :: "char \<Rightarrow> nat" where
  "digit_val c = code c - 48"

definition digit_char :: "nat \<Rightarrow> char" where
  "digit_char d = char_of (48 + d)"

lemma digit_char_props [simp, char_simps]:
  assumes "d < 10"
  shows "is_digit (digit_char d)" "digit_val (digit_char d) = d" "code (digit_char d) = 48 + d"
  using assms by (simp_all add: is_digit_def digit_val_def digit_char_def)

section \<open>C strings\<close>

text \<open>\<open>*p\<close> for a pointer into a C string.\<close>

definition peek :: "string \<Rightarrow> char" where
  "peek p = (case p of [] \<Rightarrow> NUL | c # _ \<Rightarrow> c)"

lemma peek_simps [simp]: "peek [] = NUL" "peek (c # p) = c"
  by (simp_all add: peek_def)

text \<open>\<open>strncmp(s, p, strlen(p)) == 0\<close>.\<close>

definition starts_with :: "string \<Rightarrow> string \<Rightarrow> bool" where
  "starts_with p s \<longleftrightarrow> take (length p) s = p"

lemma starts_with_append [simp]: "starts_with p (p @ s)"
  by (simp add: starts_with_def)

lemma starts_with_peek: "starts_with (c # p) s \<Longrightarrow> peek s = c"
  by (cases s) (auto simp: starts_with_def)

lemma starts_with_drop: "starts_with p s \<Longrightarrow> s = p @ drop (length p) s"
  by (metis append_take_drop_id starts_with_def)

text \<open>The C string a piece of memory starts with.\<close>

definition cstr :: "string \<Rightarrow> string" where
  "cstr m = takeWhile (\<lambda>c. c \<noteq> NUL) m"

lemma cstr_NUL_free [simp]: "NUL \<notin> set (cstr m)"
  by (auto simp: cstr_def dest: set_takeWhileD)

lemma cstr_id [simp]: "NUL \<notin> set s \<Longrightarrow> cstr s = s"
  by (auto simp: cstr_def takeWhile_eq_all_conv)

lemma cstr_append_NUL [simp]: "NUL \<notin> set s \<Longrightarrow> cstr (s @ NUL # m) = s"
  by (induction s) (auto simp: cstr_def)

lemma length_cstr_le: "length (cstr m) \<le> length m"
  by (simp add: cstr_def length_takeWhile_le)

section \<open>Fixed-size buffers\<close>

text \<open>
  A C array of characters is the list of all its bytes.  Copying a string into it writes the
  string and a NUL and keeps the rest; a string that does not fit is the fault
  \<open>BufferOverflow\<close>.  Reading a string from it needs a NUL inside it.
\<close>

definition strcpy_buf :: "string \<Rightarrow> string \<Rightarrow> string res" where
  "strcpy_buf buf s =
     (if length s + 1 \<le> length buf then Inr (s @ NUL # drop (length s + 1) buf)
      else Inl BufferOverflow)"

definition buf_str :: "string \<Rightarrow> string res" where
  "buf_str buf = (if NUL \<in> set buf then Inr (cstr buf) else Inl OutOfBounds)"

lemma strcpy_buf_fits [buf_simps]:
  "length s < length buf \<Longrightarrow> strcpy_buf buf s = Inr (s @ NUL # drop (length s + 1) buf)"
  by (simp add: strcpy_buf_def)

lemma strcpy_buf_overflow [buf_simps]:
  "length buf \<le> length s \<Longrightarrow> strcpy_buf buf s = Inl BufferOverflow"
  by (simp add: strcpy_buf_def)

lemma length_strcpy_buf: "strcpy_buf buf s = Inr buf' \<Longrightarrow> length buf' = length buf"
  by (auto simp: strcpy_buf_def split: if_splits)

lemma buf_str_strcpy:
  "strcpy_buf buf s = Inr buf' \<Longrightarrow> NUL \<notin> set s \<Longrightarrow> buf_str buf' = Inr s"
  by (auto simp: strcpy_buf_def buf_str_def split: if_splits)

lemma NUL_in_strcpy_buf: "strcpy_buf buf s = Inr buf' \<Longrightarrow> NUL \<in> set buf'"
  by (auto simp: strcpy_buf_def split: if_splits)

lemma buf_str_NUL_free: "buf_str buf = Inr s \<Longrightarrow> NUL \<notin> set s"
  by (auto simp: buf_str_def split: if_splits)

lemma buf_str_length: "buf_str buf = Inr s \<Longrightarrow> length s < length buf"
proof -
  have "NUL \<in> set buf \<Longrightarrow> length (cstr buf) < length buf"
    by (induction buf) (auto simp: cstr_def)
  then show "buf_str buf = Inr s \<Longrightarrow> length s < length buf"
    by (auto simp: buf_str_def split: if_splits)
qed

section \<open>Runs of a step function\<close>

text \<open>
  Every component with a state is a step function or relation.  A safety property is an
  invariant of it: true at the start and kept by every step.  The interface is stated once;
  each component interprets it on its own steps.
\<close>

locale step_invariant =
  fixes init :: "'s \<Rightarrow> bool"
    and step :: "'e \<Rightarrow> 's \<Rightarrow> 's \<Rightarrow> bool"
    and inv :: "'s \<Rightarrow> bool"
  assumes inv_init: "init s \<Longrightarrow> inv s"
    and inv_step: "inv s \<Longrightarrow> step e s t \<Longrightarrow> inv t"
begin

inductive reach :: "'s \<Rightarrow> bool" where
  reach_init: "init s \<Longrightarrow> reach s"
| reach_step: "reach s \<Longrightarrow> step e s t \<Longrightarrow> reach t"

lemma reach_inv: "reach s \<Longrightarrow> inv s"
  by (induction rule: reach.induct) (auto intro: inv_init inv_step)

end

end
