(* ===== verification/CLib.thy ===== *)
theory CLib
  imports Prelude
begin

text \<open>
  The parts of the C language and its library that the sources use: decimal and hexadecimal
  output of \<open>sprintf\<close>, the \<open>double\<close> arithmetic of the JSON numbers, and the conversions
  between \<open>int\<close>, \<open>char\<close> and \<open>double\<close>.

  A \<open>double\<close> is a rational that IEEE 754 binary64 can represent; every operation computes the
  exact result and rounds it to 53 bits (fewer below the normal range), ties to even
  (\<open>dbl_round\<close>).  Infinities and NaN are
  not values of the model: a computation that would produce one ends in the fault
  \<open>FloatRange\<close>, as does the cast of a value outside \<open>int\<close>, which C leaves undefined.
\<close>

section \<open>Printing numbers\<close>

fun dec_nat :: "nat \<Rightarrow> string" where
  "dec_nat n = (if n < 10 then [digit_char n] else dec_nat (n div 10) @ [digit_char (n mod 10)])"

declare dec_nat.simps [simp del]

text \<open>\<open>sprintf("%d", i)\<close>.\<close>

definition dec_int :: "int \<Rightarrow> string" where
  "dec_int i = (if i < 0 then CHR ''-'' # dec_nat (nat (- i)) else dec_nat (nat i))"

lemma dec_nat_small: "n < 10 \<Longrightarrow> dec_nat n = [digit_char n]"
  by (simp add: dec_nat.simps)

lemma dec_nat_nonempty [simp]: "dec_nat n \<noteq> []"
  by (subst dec_nat.simps) simp

lemma dec_nat_digits: "c \<in> set (dec_nat n) \<Longrightarrow> is_digit c"
proof (induction n rule: dec_nat.induct)
  case (1 n)
  then show ?case by (subst (asm) dec_nat.simps) (auto split: if_splits)
qed

lemma digit_not_NUL: "is_digit c \<Longrightarrow> c \<noteq> NUL"
  by (auto simp: is_digit_def)

lemma NUL_dec_nat [simp]: "NUL \<notin> set (dec_nat n)"
  using dec_nat_digits digit_not_NUL by blast

lemma NUL_dec_int [simp]: "NUL \<notin> set (dec_int i)"
  by (simp add: dec_int_def)

lemma length_dec_nat_le: "n < 10 ^ k \<Longrightarrow> 0 < k \<Longrightarrow> length (dec_nat n) \<le> k"
proof (induction n arbitrary: k rule: dec_nat.induct)
  case (1 n)
  show ?case
  proof (cases "n < 10")
    case True
    with "1.prems" show ?thesis by (simp add: dec_nat_small)
  next
    case False
    then obtain j where k: "k = Suc j" "0 < j"
      using "1.prems" by (cases k; cases "k = 1") auto
    then have "n div 10 < 10 ^ j" using "1.prems" by auto
    with False k "1.IH" show ?thesis by (subst dec_nat.simps) auto
  qed
qed

definition pad0 :: "nat \<Rightarrow> string \<Rightarrow> string" where
  "pad0 w s = replicate (w - length s) (CHR ''0'') @ s"

text \<open>One digit of \<open>%x\<close>, and \<open>sprintf("%04x", token)\<close> of an \<open>unsigned char\<close>.\<close>

definition hex_digit :: "nat \<Rightarrow> char" where
  "hex_digit d = (if d < 10 then digit_char d else char_of (87 + d))"

definition hex4 :: "nat \<Rightarrow> string" where
  "hex4 n = [hex_digit (n div 4096 mod 16), hex_digit (n div 256 mod 16),
             hex_digit (n div 16 mod 16), hex_digit (n mod 16)]"

section \<open>Binary64\<close>

fun bitlen :: "nat \<Rightarrow> nat" where
  "bitlen n = (if n = 0 then 0 else Suc (bitlen (n div 2)))"

declare bitlen.simps [simp del]

lemma bitlen_0 [simp]: "bitlen 0 = 0"
  by (simp add: bitlen.simps)

lemma bitlen_1 [simp]: "bitlen (Suc 0) = 1"
  by (simp add: bitlen.simps)

lemma bitlen_le: "n < 2 ^ k \<Longrightarrow> bitlen n \<le> k"
proof (induction n arbitrary: k rule: bitlen.induct)
  case (1 n)
  show ?case
  proof (cases k)
    case 0
    with 1 show ?thesis by simp
  next
    case (Suc j)
    with "1.prems" have "n div 2 < 2 ^ j" by auto
    with 1 Suc show ?thesis by (subst bitlen.simps) auto
  qed
qed

definition round_half_even :: "rat \<Rightarrow> int" where
  "round_half_even y =
     (let f = \<lfloor>y\<rfloor>; r = y - of_int f
      in if r < 1 / 2 \<or> (r = 1 / 2 \<and> even f) then f else f + 1)"

lemma round_half_even_int [simp]: "round_half_even (of_int k) = k"
  by (simp add: round_half_even_def)

definition dbl_exp :: "rat \<Rightarrow> int" where
  "dbl_exp x =
     (let (p, q) = quotient_of \<bar>x\<bar>;
          e = int (bitlen (nat p)) - int (bitlen (nat q)) - 53
      in max (if 2 ^ 53 \<le> \<bar>x\<bar> / 2 powi e then e + 1 else e) (- 1074))"

definition dbl_round :: "rat \<Rightarrow> rat" where
  "dbl_round x =
     (if x = 0 then 0
      else let e = dbl_exp x
           in sgn x * of_int (round_half_even (\<bar>x\<bar> / 2 powi e)) * 2 powi e)"

definition dbl_max :: rat where
  "dbl_max = 2 ^ 1024"

text \<open>The \<open>double\<close> operations the sources use.\<close>

definition dbl_mul :: "rat \<Rightarrow> rat \<Rightarrow> rat" where
  "dbl_mul a b = dbl_round (a * b)"

definition dbl_add :: "rat \<Rightarrow> rat \<Rightarrow> rat" where
  "dbl_add a b = dbl_round (a + b)"

definition dbl_pow10 :: "int \<Rightarrow> rat res" where
  "dbl_pow10 k = (if k > 308 then Inl FloatRange else Inr (dbl_round (10 powi k)))"

definition INT_MAX :: int where "INT_MAX = 2147483647"

definition INT_MIN :: int where "INT_MIN = -2147483648"

text \<open>\<open>(int)d\<close>: truncation towards zero, undefined outside the range of \<open>int\<close>.\<close>

definition dbl_to_int :: "rat \<Rightarrow> int res" where
  "dbl_to_int d =
     (let t = (if 0 \<le> d then \<lfloor>d\<rfloor> else \<lceil>d\<rceil>)
      in if INT_MIN \<le> t \<and> t \<le> INT_MAX then Inr t else Inl FloatRange)"

lemma dbl_exp_int_le:
  assumes "\<bar>k\<bar> < 2 ^ 53" shows "dbl_exp (of_int k) \<le> 0"
proof -
  have "nat \<bar>k\<bar> < 2 ^ 53" using assms by (simp add: nat_less_iff)
  then have "bitlen (nat \<bar>k\<bar>) \<le> 53" by (rule bitlen_le)
  moreover have "quotient_of \<bar>of_int k\<bar> = (\<bar>k\<bar>, 1)"
    using quotient_of_rat_of_int [of "\<bar>k\<bar>"] by (simp only: of_int_abs)
  ultimately show ?thesis by (simp add: dbl_exp_def Let_def)
qed

lemma powi_nonpos: "e \<le> 0 \<Longrightarrow> (2 :: rat) ^ nat (- e) * 2 powi e = 1"
proof -
  assume "e \<le> 0"
  then obtain n where "e = - int n" by (metis minus_minus nonneg_int_cases neg_0_le_iff_le)
  then show ?thesis by (simp add: power_int_minus)
qed

lemma scale_int:
  assumes "e \<le> 0" shows "(of_int k :: rat) / 2 powi e = of_int (k * 2 ^ nat (- e))"
proof -
  have "(of_int k :: rat) = of_int (k * 2 ^ nat (- e)) * 2 powi e"
    using powi_nonpos [OF assms] by (simp add: mult.assoc)
  then show ?thesis by (metis nonzero_eq_divide_eq power_int_not_zero zero_neq_numeral)
qed

lemma dbl_round_int [simp]:
  assumes "\<bar>k\<bar> < 2 ^ 53" shows "dbl_round (of_int k) = of_int k"
proof -
  let ?e = "dbl_exp (of_int k)"
  have e: "?e \<le> 0" by (rule dbl_exp_int_le [OF assms])
  have "\<bar>of_int k\<bar> / 2 powi ?e = (of_int (\<bar>k\<bar> * 2 ^ nat (- ?e)) :: rat)"
    using scale_int [OF e, of "\<bar>k\<bar>"] by (simp only: of_int_abs)
  then have "round_half_even (\<bar>of_int k\<bar> / 2 powi ?e) = \<bar>k\<bar> * 2 ^ nat (- ?e)"
    by (simp only: round_half_even_int)
  moreover have "(2 :: rat) ^ nat (- ?e) * 2 powi ?e = 1"
    by (rule powi_nonpos [OF e])
  ultimately have "dbl_round (of_int k) = sgn (of_int k) * of_int \<bar>k\<bar>"
    by (simp add: dbl_round_def Let_def mult.assoc)
  then show ?thesis by (simp add: sgn_mult_abs)
qed

lemma dbl_round_0 [simp]: "dbl_round 0 = 0"
  by (simp add: dbl_round_def)

lemma dbl_round_of_nat: "n < 2 ^ 53 \<Longrightarrow> dbl_round (of_nat n) = of_nat n"
  using dbl_round_int [of "int n"] by simp

lemma dbl_pow10_0 [simp]: "dbl_pow10 0 = Inr 1"
  using dbl_round_int [of 1] by (simp add: dbl_pow10_def)

lemma dbl_to_int_int [simp]:
  "INT_MIN \<le> i \<Longrightarrow> i \<le> INT_MAX \<Longrightarrow> dbl_to_int (of_int i) = Inr i"
  by (simp add: dbl_to_int_def)

section \<open>printf of a double\<close>

text \<open>\<open>%.0f\<close>, \<open>%f\<close> and \<open>%e\<close>: correctly rounded decimal output.\<close>

definition fmt_sign :: "rat \<Rightarrow> string" where
  "fmt_sign x = (if x < 0 then ''-'' else [])"

definition fmt_f0 :: "rat \<Rightarrow> string" where
  "fmt_f0 x = fmt_sign x @ dec_nat (nat (round_half_even \<bar>x\<bar>))"

definition six_places :: "nat \<Rightarrow> string" where
  "six_places n = dec_nat (n div 10 ^ 6) @ ''.'' @ pad0 6 (dec_nat (n mod 10 ^ 6))"

definition fmt_f :: "rat \<Rightarrow> string" where
  "fmt_f x = fmt_sign x @ six_places (nat (round_half_even (\<bar>x\<bar> * 10 ^ 6)))"

definition dec_exponent :: "rat \<Rightarrow> int" where
  "dec_exponent x =
     (if 1 \<le> \<bar>x\<bar> then int (length (dec_nat (nat \<lfloor>\<bar>x\<bar>\<rfloor>))) - 1
      else - int (length (dec_nat (nat (\<lceil>1 / \<bar>x\<bar>\<rceil> - 1)))))"

definition fmt_e :: "rat \<Rightarrow> string" where
  "fmt_e x =
     (let e0 = dec_exponent x;
          n0 = nat (round_half_even (\<bar>x\<bar> / 10 powi (e0 - 6)));
          (n, e) = (if n0 = 10 ^ 7 then (10 ^ 6, e0 + 1) else (n0, e0))
      in fmt_sign x @ six_places n @ ''e'' @ (if e < 0 then ''-'' else ''+'')
         @ pad0 2 (dec_nat (nat \<bar>e\<bar>)))"

section \<open>Bytes and ints\<close>

text \<open>An \<open>int\<close> stored into a \<open>char\<close> or \<open>uint8_t\<close>, and read back.\<close>

definition int_to_u8 :: "int \<Rightarrow> u8" where
  "int_to_u8 i = word_of_int i"

definition u8_to_int :: "u8 \<Rightarrow> int" where
  "u8_to_int w = uint w"

lemma u8_to_int_bounds [simp]: "0 \<le> u8_to_int w" "u8_to_int w < 256"
  using unsigned_less [of w, where ?'a = int] by (simp_all add: u8_to_int_def)

lemma int_to_u8_to_int [simp]: "int_to_u8 (u8_to_int w) = w"
  by (simp add: int_to_u8_def u8_to_int_def)

lemma u8_to_int_to_u8: "u8_to_int (int_to_u8 i) = i mod 256"
  by (simp add: int_to_u8_def u8_to_int_def uint_word_of_int)

lemma u8_to_int_eq_iff [simp]: "u8_to_int v = u8_to_int w \<longleftrightarrow> v = w"
  by (simp add: u8_to_int_def word_uint_eq_iff)

definition u8_char :: "u8 \<Rightarrow> char" where
  "u8_char w = char_of (unat w)"

definition char_u8 :: "char \<Rightarrow> u8" where
  "char_u8 c = of_nat (code c)"

lemma char_u8_char [simp]: "char_u8 (u8_char w) = w"
proof -
  have "unat w < 256" using unsigned_less [of w, where ?'a = nat] by simp
  then show ?thesis by (simp add: char_u8_def u8_char_def)
qed

lemma u8_char_u8 [simp]: "u8_char (char_u8 c) = c"
proof -
  have "unat (of_nat (code c) :: u8) = code c"
    by (simp add: unat_of_nat)
  then show ?thesis by (simp add: char_u8_def u8_char_def)
qed

text \<open>\<open>tolower\<close> of the C locale.\<close>

definition tolower :: "char \<Rightarrow> char" where
  "tolower c = (if 65 \<le> code c \<and> code c \<le> 90 then char_of (code c + 32) else c)"

lemma tolower_idem [simp]: "tolower (tolower c) = tolower c"
  by (auto simp: tolower_def)

lemma tolower_NUL_iff [simp]: "tolower c = NUL \<longleftrightarrow> c = NUL"
proof
  assume "tolower c = NUL"
  then have "code (tolower c) = 0" by simp
  moreover have "code (tolower c) = code c \<or> 97 \<le> code (tolower c)" by (simp add: tolower_def)
  ultimately have "code c = 0" by arith
  then show "c = NUL" by (simp only: code_NUL_iff)
qed (simp add: tolower_def)

text \<open>A format string that comes from data: with no argument, \<open>%%\<close> is the only directive.\<close>

fun format_noargs :: "string \<Rightarrow> string res" where
  "format_noargs [] = Inr []"
| "format_noargs (c # s) =
     (if c \<noteq> CHR ''%'' then rmap ((#) c) (format_noargs s)
      else (case s of
              d # s' \<Rightarrow> if d = CHR ''%'' then rmap ((#) d) (format_noargs s')
                        else Inl FormatDirective
            | [] \<Rightarrow> Inl FormatDirective))"

lemma format_noargs_plain: "CHR ''%'' \<notin> set s \<Longrightarrow> format_noargs s = Inr s"
  by (induction s) auto

lemma format_noargs_length: "format_noargs s = Inr t \<Longrightarrow> length t \<le> length s"
  by (induction s arbitrary: t rule: format_noargs.induct)
     (fastforce simp: rmap_eq_Inr split: if_splits list.splits)+

lemma format_noargs_set: "format_noargs s = Inr t \<Longrightarrow> set t \<subseteq> set s"
  by (induction s arbitrary: t rule: format_noargs.induct)
     (fastforce simp: rmap_eq_Inr split: if_splits list.splits)+

text \<open>\<open>sprintf(buf, s)\<close> with \<open>s\<close> as the format string.\<close>

definition sprintf_buf :: "string \<Rightarrow> string \<Rightarrow> string res" where
  "sprintf_buf buf s = rbind (format_noargs s) (strcpy_buf buf)"

lemma sprintf_buf_length: "sprintf_buf buf s = Inr buf' \<Longrightarrow> length buf' = length buf"
  by (auto simp: sprintf_buf_def intro: length_strcpy_buf)

lemma sprintf_buf_NUL: "sprintf_buf buf s = Inr buf' \<Longrightarrow> NUL \<in> set buf'"
  by (auto simp: sprintf_buf_def intro: NUL_in_strcpy_buf)

lemma sprintf_buf_plain:
  "CHR ''%'' \<notin> set s \<Longrightarrow> sprintf_buf buf s = strcpy_buf buf s"
  by (simp add: sprintf_buf_def format_noargs_plain)

end
