(* ===== verification/CJSON.thy ===== *)
theory CJSON
  imports CLib
begin

text \<open>
  The JSON tree of \<open>src/cJSON\<close>: the item type, its constructors, the type tests, and the
  operations on arrays and objects.

  A \<open>cJSON\<close> node owns its children through \<open>child\<close>, \<open>next\<close> and \<open>prev\<close>; here \<open>cchild\<close> is
  that chain as a list, so \<open>NULL\<close> is the empty list.  A string pointer is an \<open>option\<close>.
  \<open>malloc\<close> is modelled by how many more allocations will succeed (\<open>mem\<close>), so every
  out-of-memory return of the code is a value of the model.  The blocks themselves have no
  addresses: freeing is counted (\<open>cJSON_Delete\<close>), not tracked.
\<close>

section \<open>Allocation\<close>

datatype mem = Unlimited | Limited nat

fun alloc :: "mem \<Rightarrow> mem option" where
  "alloc Unlimited = Some Unlimited"
| "alloc (Limited 0) = None"
| "alloc (Limited (Suc n)) = Some (Limited n)"

text \<open>\<open>n\<close> allocations taken one after the other.\<close>

fun allocs :: "nat \<Rightarrow> mem \<Rightarrow> mem option" where
  "allocs 0 m = Some m"
| "allocs (Suc n) m = (case alloc m of None \<Rightarrow> None | Some m' \<Rightarrow> allocs n m')"

lemma allocs_Unlimited [simp]: "allocs n Unlimited = Some Unlimited"
  by (induction n) auto

lemma allocs_Limited: "allocs n (Limited k) = (if n \<le> k then Some (Limited (k - n)) else None)"
proof (induction n arbitrary: k)
  case (Suc n)
  then show ?case by (cases k) auto
qed simp

lemma allocs_add:
  "allocs (n + k) m = (case allocs n m of None \<Rightarrow> None | Some m' \<Rightarrow> allocs k m')"
  by (induction n arbitrary: m) (auto split: option.splits)

lemma alloc_allocs: "alloc m = allocs 1 m"
  by (simp split: option.splits)

section \<open>Items\<close>

definition cJSON_False :: nat where "cJSON_False = 0"
definition cJSON_True :: nat where "cJSON_True = 1"
definition cJSON_NULL :: nat where "cJSON_NULL = 2"
definition cJSON_Number :: nat where "cJSON_Number = 3"
definition cJSON_String :: nat where "cJSON_String = 4"
definition cJSON_Array :: nat where "cJSON_Array = 5"
definition cJSON_Object :: nat where "cJSON_Object = 6"
definition cJSON_IsReference :: nat where "cJSON_IsReference = 256"
definition cJSON_StringIsConst :: nat where "cJSON_StringIsConst = 512"

lemmas cJSON_types = cJSON_False_def cJSON_True_def cJSON_NULL_def cJSON_Number_def
  cJSON_String_def cJSON_Array_def cJSON_Object_def

lemmas cJSON_flags = cJSON_IsReference_def cJSON_StringIsConst_def

datatype cjson =
  CJ (ctype: nat) (cvaluestring: "string option") (cvalueint: int) (cvaluedouble: rat)
     (cstring: "string option") (cchild: "cjson list")

definition set_cstring :: "string option \<Rightarrow> cjson \<Rightarrow> cjson" where
  "set_cstring s c =
     CJ (ctype c) (cvaluestring c) (cvalueint c) (cvaluedouble c) s (cchild c)"

definition set_ctype :: "nat \<Rightarrow> cjson \<Rightarrow> cjson" where
  "set_ctype t c =
     CJ t (cvaluestring c) (cvalueint c) (cvaluedouble c) (cstring c) (cchild c)"

definition set_cchild :: "cjson list \<Rightarrow> cjson \<Rightarrow> cjson" where
  "set_cchild cs c =
     CJ (ctype c) (cvaluestring c) (cvalueint c) (cvaluedouble c) (cstring c) cs"

lemma cjson_update_simps [simp]:
  "ctype (set_cstring s c) = ctype c" "cvaluestring (set_cstring s c) = cvaluestring c"
  "cvalueint (set_cstring s c) = cvalueint c" "cvaluedouble (set_cstring s c) = cvaluedouble c"
  "cstring (set_cstring s c) = s" "cchild (set_cstring s c) = cchild c"
  "ctype (set_ctype t c) = t" "cvaluestring (set_ctype t c) = cvaluestring c"
  "cvalueint (set_ctype t c) = cvalueint c" "cvaluedouble (set_ctype t c) = cvaluedouble c"
  "cstring (set_ctype t c) = cstring c" "cchild (set_ctype t c) = cchild c"
  "ctype (set_cchild cs c) = ctype c" "cvaluestring (set_cchild cs c) = cvaluestring c"
  "cvalueint (set_cchild cs c) = cvalueint c" "cvaluedouble (set_cchild cs c) = cvaluedouble c"
  "cstring (set_cchild cs c) = cstring c" "cchild (set_cchild cs c) = cs"
  by (simp_all add: set_cstring_def set_ctype_def set_cchild_def)

text \<open>\<open>cJSON_New_Item\<close> after its \<open>memset\<close>.\<close>

definition new_item :: cjson where
  "new_item = CJ 0 None 0 0 None []"

definition cJSON_New_Item :: "mem \<Rightarrow> (cjson \<times> mem) option" where
  "cJSON_New_Item m = map_option (Pair new_item) (alloc m)"

text \<open>The kind of an item: its type without the flags.\<close>

definition ckind :: "cjson \<Rightarrow> nat" where
  "ckind c = ctype c AND 255"

subsection \<open>Constructors\<close>

text \<open>
  The firmware calls these with a heap that has room; the callers never test their result.
\<close>

definition cJSON_CreateNull :: cjson where
  "cJSON_CreateNull = set_ctype cJSON_NULL new_item"

definition cJSON_CreateTrue :: cjson where
  "cJSON_CreateTrue = set_ctype cJSON_True new_item"

definition cJSON_CreateFalse :: cjson where
  "cJSON_CreateFalse = set_ctype cJSON_False new_item"

definition cJSON_CreateBool :: "int \<Rightarrow> cjson" where
  "cJSON_CreateBool b = set_ctype (if b \<noteq> 0 then cJSON_True else cJSON_False) new_item"

definition cJSON_CreateNumber :: "rat \<Rightarrow> cjson res" where
  "cJSON_CreateNumber num =
     rbind (dbl_to_int num) (\<lambda>i. Inr (CJ cJSON_Number None i num None []))"

definition cJSON_CreateString :: "string option \<Rightarrow> cjson res" where
  "cJSON_CreateString s =
     rbind (deref s) (\<lambda>s'. Inr (CJ cJSON_String (Some s') 0 0 None []))"

definition cJSON_CreateArray :: cjson where
  "cJSON_CreateArray = set_ctype cJSON_Array new_item"

definition cJSON_CreateObject :: cjson where
  "cJSON_CreateObject = set_ctype cJSON_Object new_item"

lemma CreateNumber_int [simp]:
  "INT_MIN \<le> i \<Longrightarrow> i \<le> INT_MAX \<Longrightarrow>
   cJSON_CreateNumber (of_int i) = Inr (CJ cJSON_Number None i (of_int i) None [])"
  by (simp add: cJSON_CreateNumber_def)

lemma CreateString_Some [simp]:
  "cJSON_CreateString (Some s) = Inr (CJ cJSON_String (Some s) 0 0 None [])"
  by (simp add: cJSON_CreateString_def)

lemma CreateString_None [simp]: "cJSON_CreateString None = Inl NullDeref"
  by (simp add: cJSON_CreateString_def)

subsection \<open>Type tests\<close>

definition is_kind :: "nat \<Rightarrow> cjson option \<Rightarrow> bool" where
  "is_kind k item = (case item of None \<Rightarrow> False | Some c \<Rightarrow> ckind c = k)"

definition cJSON_IsFalse :: "cjson option \<Rightarrow> bool" where
  "cJSON_IsFalse = is_kind cJSON_False"

definition cJSON_IsTrue :: "cjson option \<Rightarrow> bool" where
  "cJSON_IsTrue = is_kind cJSON_True"

definition cJSON_IsBool :: "cjson option \<Rightarrow> bool" where
  "cJSON_IsBool item =
     (case item of None \<Rightarrow> False | Some c \<Rightarrow> ctype c AND (cJSON_True OR cJSON_False) \<noteq> 0)"

definition cJSON_IsNull :: "cjson option \<Rightarrow> bool" where
  "cJSON_IsNull = is_kind cJSON_NULL"

definition cJSON_IsNumber :: "cjson option \<Rightarrow> bool" where
  "cJSON_IsNumber = is_kind cJSON_Number"

definition cJSON_IsString :: "cjson option \<Rightarrow> bool" where
  "cJSON_IsString = is_kind cJSON_String"

definition cJSON_IsArray :: "cjson option \<Rightarrow> bool" where
  "cJSON_IsArray = is_kind cJSON_Array"

definition cJSON_IsObject :: "cjson option \<Rightarrow> bool" where
  "cJSON_IsObject = is_kind cJSON_Object"

lemmas cJSON_Is_defs = cJSON_IsFalse_def cJSON_IsTrue_def cJSON_IsNull_def cJSON_IsNumber_def
  cJSON_IsString_def cJSON_IsArray_def cJSON_IsObject_def is_kind_def

section \<open>Lookup\<close>

text \<open>The loop of \<open>cJSON_strcasecmp\<close>, on the suffixes \<open>s1\<close> and \<open>s2\<close> point at.\<close>

fun strcasecmp_loop :: "string \<Rightarrow> string \<Rightarrow> int" where
  "strcasecmp_loop [] s2 =
     (if tolower NUL = tolower (peek s2) then 0
      else int (code (tolower NUL)) - int (code (tolower (peek s2))))"
| "strcasecmp_loop (c # s1) s2 =
     (if tolower c = tolower (peek s2)
      then if c = NUL then 0 else strcasecmp_loop s1 (tl s2)
      else int (code (tolower c)) - int (code (tolower (peek s2))))"

definition cJSON_strcasecmp :: "string option \<Rightarrow> string option \<Rightarrow> int" where
  "cJSON_strcasecmp s1 s2 =
     (case s1 of
        None \<Rightarrow> (if s2 = None then 0 else 1)
      | Some t1 \<Rightarrow> (case s2 of None \<Rightarrow> 1 | Some t2 \<Rightarrow> strcasecmp_loop t1 t2))"

definition cJSON_GetArraySize :: "cjson \<Rightarrow> int" where
  "cJSON_GetArraySize array = int (length (cchild array))"

definition cJSON_GetArrayItem :: "cjson \<Rightarrow> int \<Rightarrow> cjson option" where
  "cJSON_GetArrayItem array item =
     (if nat item < length (cchild array) then Some (cchild array ! nat item) else None)"

definition key_matches :: "string \<Rightarrow> cjson \<Rightarrow> bool" where
  "key_matches s c \<longleftrightarrow> cJSON_strcasecmp (cstring c) (Some s) = 0"

definition cJSON_GetObjectItem :: "cjson \<Rightarrow> string \<Rightarrow> cjson option" where
  "cJSON_GetObjectItem object s = find (key_matches s) (cchild object)"

section \<open>Building and changing arrays and objects\<close>

definition suffix_object :: "cjson list \<Rightarrow> cjson \<Rightarrow> cjson list" where
  "suffix_object chain item = chain @ [item]"

definition create_reference :: "cjson \<Rightarrow> cjson" where
  "create_reference item =
     set_ctype (ctype item OR cJSON_IsReference) (set_cstring None item)"

definition cJSON_AddItemToArray :: "cjson \<Rightarrow> cjson option \<Rightarrow> cjson" where
  "cJSON_AddItemToArray array item =
     (case item of
        None \<Rightarrow> array
      | Some i \<Rightarrow> set_cchild (suffix_object (cchild array) i) array)"

definition cJSON_AddItemToObject :: "cjson \<Rightarrow> string \<Rightarrow> cjson option \<Rightarrow> cjson" where
  "cJSON_AddItemToObject object s item =
     cJSON_AddItemToArray object (map_option (set_cstring (Some s)) item)"

definition cJSON_AddItemToObjectCS :: "cjson \<Rightarrow> string \<Rightarrow> cjson option \<Rightarrow> cjson" where
  "cJSON_AddItemToObjectCS object s item =
     cJSON_AddItemToArray object
       (map_option (\<lambda>i. set_ctype (ctype i OR cJSON_StringIsConst) (set_cstring (Some s) i)) item)"

definition cJSON_AddItemReferenceToArray :: "cjson \<Rightarrow> cjson \<Rightarrow> cjson" where
  "cJSON_AddItemReferenceToArray array item =
     cJSON_AddItemToArray array (Some (create_reference item))"

definition cJSON_AddItemReferenceToObject :: "cjson \<Rightarrow> string \<Rightarrow> cjson \<Rightarrow> cjson" where
  "cJSON_AddItemReferenceToObject object s item =
     cJSON_AddItemToObject object s (Some (create_reference item))"

text \<open>The macros \<open>cJSON_AddStringToObject\<close> and \<open>cJSON_AddNumberToObject\<close>.\<close>

definition cJSON_AddStringToObject :: "cjson \<Rightarrow> string \<Rightarrow> string option \<Rightarrow> cjson res" where
  "cJSON_AddStringToObject object name s =
     rbind (cJSON_CreateString s) (\<lambda>i. Inr (cJSON_AddItemToObject object name (Some i)))"

definition cJSON_AddNumberToObject :: "cjson \<Rightarrow> string \<Rightarrow> int \<Rightarrow> cjson res" where
  "cJSON_AddNumberToObject object name n =
     rbind (cJSON_CreateNumber (of_int n)) (\<lambda>i. Inr (cJSON_AddItemToObject object name (Some i)))"

text \<open>The detached item and what is left of the array.\<close>

definition cJSON_DetachItemFromArray :: "cjson \<Rightarrow> int \<Rightarrow> cjson option \<times> cjson" where
  "cJSON_DetachItemFromArray array which =
     (let cs = cchild array; i = nat which
      in if length cs \<le> i then (None, array)
         else (Some (cs ! i), set_cchild (take i cs @ drop (Suc i) cs) array))"

definition cJSON_DeleteItemFromArray :: "cjson \<Rightarrow> int \<Rightarrow> cjson" where
  "cJSON_DeleteItemFromArray array which = snd (cJSON_DetachItemFromArray array which)"

text \<open>The index the search loops of the object operations stop at.\<close>

fun key_index :: "string \<Rightarrow> cjson list \<Rightarrow> nat option" where
  "key_index s [] = None"
| "key_index s (c # cs) = (if key_matches s c then Some 0 else map_option Suc (key_index s cs))"

definition cJSON_DetachItemFromObject :: "cjson \<Rightarrow> string \<Rightarrow> cjson option \<times> cjson" where
  "cJSON_DetachItemFromObject object s =
     (case key_index s (cchild object) of
        None \<Rightarrow> (None, object)
      | Some i \<Rightarrow> cJSON_DetachItemFromArray object (int i))"

definition cJSON_DeleteItemFromObject :: "cjson \<Rightarrow> string \<Rightarrow> cjson" where
  "cJSON_DeleteItemFromObject object s = snd (cJSON_DetachItemFromObject object s)"

definition cJSON_InsertItemInArray :: "cjson \<Rightarrow> int \<Rightarrow> cjson \<Rightarrow> cjson" where
  "cJSON_InsertItemInArray array which newitem =
     (let cs = cchild array; i = nat which
      in if length cs \<le> i then cJSON_AddItemToArray array (Some newitem)
         else set_cchild (take i cs @ newitem # drop i cs) array)"

definition cJSON_ReplaceItemInArray :: "cjson \<Rightarrow> int \<Rightarrow> cjson \<Rightarrow> cjson" where
  "cJSON_ReplaceItemInArray array which newitem =
     (let cs = cchild array; i = nat which
      in if length cs \<le> i then array else set_cchild (cs[i := newitem]) array)"

definition cJSON_ReplaceItemInObject :: "cjson \<Rightarrow> string \<Rightarrow> cjson \<Rightarrow> cjson" where
  "cJSON_ReplaceItemInObject object s newitem =
     (case key_index s (cchild object) of
        None \<Rightarrow> object
      | Some i \<Rightarrow> cJSON_ReplaceItemInArray object (int i) (set_cstring (Some s) newitem))"

text \<open>The array constructors: \<open>count\<close> elements read from a C array.\<close>

definition read_array :: "'a list \<Rightarrow> int \<Rightarrow> 'a list res" where
  "read_array xs count =
     (if nat count \<le> length xs then Inr (take (nat count) xs) else Inl OutOfBounds)"

fun map_res :: "('a \<Rightarrow> 'b res) \<Rightarrow> 'a list \<Rightarrow> 'b list res" where
  "map_res f [] = Inr []"
| "map_res f (x # xs) = rbind (f x) (\<lambda>y. rmap ((#) y) (map_res f xs))"

definition create_array :: "('a \<Rightarrow> cjson res) \<Rightarrow> 'a list \<Rightarrow> int \<Rightarrow> cjson res" where
  "create_array f xs count =
     rbind (read_array xs count) (\<lambda>ys. rbind (map_res f ys) (\<lambda>cs.
       Inr (set_cchild cs cJSON_CreateArray)))"

definition cJSON_CreateIntArray :: "int list \<Rightarrow> int \<Rightarrow> cjson res" where
  "cJSON_CreateIntArray = create_array (\<lambda>i. cJSON_CreateNumber (of_int i))"

definition cJSON_CreateDoubleArray :: "rat list \<Rightarrow> int \<Rightarrow> cjson res" where
  "cJSON_CreateDoubleArray = create_array cJSON_CreateNumber"

definition cJSON_CreateFloatArray :: "rat list \<Rightarrow> int \<Rightarrow> cjson res" where
  "cJSON_CreateFloatArray = create_array cJSON_CreateNumber"

definition cJSON_CreateStringArray :: "string option list \<Rightarrow> int \<Rightarrow> cjson res" where
  "cJSON_CreateStringArray = create_array cJSON_CreateString"

section \<open>Deleting and duplicating\<close>

text \<open>How many blocks \<open>cJSON_Delete\<close> frees for a chain of items.\<close>

fun cJSON_Delete :: "cjson list \<Rightarrow> nat" where
  "cJSON_Delete [] = 0"
| "cJSON_Delete (CJ ty vs vi vd nm cs # rest) =
     (if ty AND cJSON_IsReference = 0 then cJSON_Delete cs else 0)
     + (if ty AND cJSON_IsReference = 0 \<and> vs \<noteq> None then 1 else 0)
     + (if ty AND cJSON_StringIsConst = 0 \<and> nm \<noteq> None then 1 else 0)
     + 1 + cJSON_Delete rest"

definition strdup_opt :: "mem \<Rightarrow> string option \<Rightarrow> mem option" where
  "strdup_opt m s = (if s = None then Some m else alloc m)"

text \<open>\<open>type & ~cJSON_IsReference\<close>.\<close>

definition clear_reference :: "nat \<Rightarrow> nat" where
  "clear_reference t = (if t AND cJSON_IsReference = 0 then t else t - cJSON_IsReference)"

fun cJSON_Duplicate :: "mem \<Rightarrow> cjson \<Rightarrow> bool \<Rightarrow> (cjson \<times> mem) option"
  and duplicate_chain :: "mem \<Rightarrow> cjson list \<Rightarrow> (cjson list \<times> mem) option" where
  "cJSON_Duplicate m (CJ ty vs vi vd nm cs) recurse =
     (case alloc m of None \<Rightarrow> None | Some m1 \<Rightarrow>
      case strdup_opt m1 vs of None \<Rightarrow> None | Some m2 \<Rightarrow>
      case strdup_opt m2 nm of None \<Rightarrow> None | Some m3 \<Rightarrow>
        if \<not> recurse then Some (CJ (clear_reference ty) vs vi vd nm [], m3)
        else (case duplicate_chain m3 cs of
                None \<Rightarrow> None
              | Some (ds, m4) \<Rightarrow> Some (CJ (clear_reference ty) vs vi vd nm ds, m4)))"
| "duplicate_chain m [] = Some ([], m)"
| "duplicate_chain m (c # cs) =
     (case cJSON_Duplicate m c True of
        None \<Rightarrow> None
      | Some (d, m') \<Rightarrow> (case duplicate_chain m' cs of
                            None \<Rightarrow> None
                          | Some (ds, m'') \<Rightarrow> Some (d # ds, m'')))"

end
