(* ===== verification/CJSON_Parse.thy ===== *)
theory CJSON_Parse
  imports CJSON "HOL-Library.Sublist"
begin

text \<open>
  The parser of \<open>src/cJSON/cJSON.c\<close>.

  A pointer into the text is the suffix it points at, so the returned end pointer is the
  rest of the text.  A call ends in one of four ways: it returns an item and the end pointer
  (\<open>Done\<close>); it returns NULL (\<open>Failed\<close>, with the value of the error pointer \<open>ep\<close>, or \<open>None\<close>
  when an allocation failed); it runs into undefined behaviour (\<open>Fault\<close>); or the model runs
  out of fuel (\<open>NoFuel\<close>).  Every nested value and every turn of a loop takes one unit of
  fuel; \<open>cJSON_Parse\<close> takes one unit per character and one more, which is always enough, so
  \<open>NoFuel\<close> never leaves it.

  The out buffer of \<open>parse_string\<close> is as long as its first loop counted; writing past it is
  \<open>BufferOverflow\<close>, and a pointer moved past the terminating NUL is \<open>OutOfBounds\<close>.
\<close>

section \<open>Results of the parser\<close>

datatype 'a pr = Done 'a | Failed "string option" | Fault fault | NoFuel

definition pbind :: "'a pr \<Rightarrow> ('a \<Rightarrow> 'b pr) \<Rightarrow> 'b pr" where
  "pbind m f = (case m of Done x \<Rightarrow> f x | Failed e \<Rightarrow> Failed e | Fault e \<Rightarrow> Fault e
                        | NoFuel \<Rightarrow> NoFuel)"

lemma pbind_simps [simp]:
  "pbind (Done x) f = f x" "pbind (Failed e) f = Failed e" "pbind (Fault u) f = Fault u"
  "pbind NoFuel f = NoFuel"
  by (simp_all add: pbind_def)

lemma pbind_cong [fundef_cong]:
  "\<lbrakk>m = m'; \<And>x. m' = Done x \<Longrightarrow> f x = f' x\<rbrakk> \<Longrightarrow> pbind m f = pbind m' f'"
  by (cases m') auto

lemma pbind_eq_Done: "pbind m f = Done y \<longleftrightarrow> (\<exists>x. m = Done x \<and> f x = Done y)"
  by (cases m) auto

lemma pbind_eq_NoFuel: "pbind m f = NoFuel \<longleftrightarrow> m = NoFuel \<or> (\<exists>x. m = Done x \<and> f x = NoFuel)"
  by (cases m) auto

lemma pbind_DoneE [elim!]:
  assumes "pbind m f = Done y"
  obtains x where "m = Done x" and "f x = Done y"
  using assms by (auto simp: pbind_eq_Done)

definition of_res :: "'a res \<Rightarrow> 'a pr" where
  "of_res r = (case r of Inl u \<Rightarrow> Fault u | Inr x \<Rightarrow> Done x)"

lemma of_res_simps [simp]: "of_res (Inl u) = Fault u" "of_res (Inr x) = Done x"
  by (simp_all add: of_res_def)

lemma of_res_eq_Done [simp]: "of_res r = Done x \<longleftrightarrow> r = Inr x"
  by (cases r) auto

lemma of_res_not_NoFuel [simp]: "of_res r \<noteq> NoFuel" "of_res r \<noteq> Failed e"
  by (cases r; simp)+

definition of_alloc :: "mem \<Rightarrow> mem pr" where
  "of_alloc m = (case alloc m of None \<Rightarrow> Failed None | Some m' \<Rightarrow> Done m')"

lemma of_alloc_Unlimited [simp]: "of_alloc Unlimited = Done Unlimited"
  by (simp add: of_alloc_def)

lemma of_alloc_eq_Done [simp]: "of_alloc m = Done m' \<longleftrightarrow> alloc m = Some m'"
  by (simp add: of_alloc_def split: option.splits)

lemma of_alloc_not_NoFuel [simp]: "of_alloc m \<noteq> NoFuel" "of_alloc m \<noteq> Fault u"
  by (simp_all add: of_alloc_def split: option.splits)

section \<open>Scanning\<close>

fun skip :: "string \<Rightarrow> string" where
  "skip [] = []"
| "skip (c # s) = (if c \<noteq> NUL \<and> code c \<le> 32 then skip s else c # s)"

subsection \<open>Numbers\<close>

text \<open>The digit loops: the value, how many digits were read, and the rest.\<close>

fun num_digits :: "rat \<Rightarrow> string \<Rightarrow> rat \<times> nat \<times> string" where
  "num_digits n [] = (n, 0, [])"
| "num_digits n (c # s) =
     (if is_digit c
      then (case num_digits (dbl_add (dbl_mul n 10) (of_nat (digit_val c))) s of
              (n', k, r) \<Rightarrow> (n', Suc k, r))
      else (n, 0, c # s))"

fun exp_digits :: "int \<Rightarrow> string \<Rightarrow> (int \<times> string) res" where
  "exp_digits e [] = Inr (e, [])"
| "exp_digits e (c # s) =
     (if is_digit c
      then if e * 10 + int (digit_val c) \<le> INT_MAX
           then exp_digits (e * 10 + int (digit_val c)) s
           else Inl SignedOverflow
      else Inr (e, c # s))"

text \<open>The exponent with its sign, \<open>subscale * signsubscale\<close>.\<close>

definition parse_exponent :: "string \<Rightarrow> (int \<times> string) res" where
  "parse_exponent s =
     (if peek s = CHR ''e'' \<or> peek s = CHR ''E''
      then (let s1 = tl s in
            if peek s1 = CHR ''+'' then exp_digits 0 (tl s1)
            else if peek s1 = CHR ''-''
                 then rmap (\<lambda>(e, r). (- e, r)) (exp_digits 0 (tl s1))
                 else exp_digits 0 s1)
      else Inr (0, s))"

text \<open>The sign, the integer digits, and the fraction with the number of its digits (\<open>-scale\<close>).\<close>

definition num_sign :: "string \<Rightarrow> rat \<times> string" where
  "num_sign num = (if peek num = CHR ''-'' then (-1, tl num) else (1, num))"

definition num_int :: "string \<Rightarrow> rat \<times> string" where
  "num_int s0 =
     (let s1 = (if peek s0 = CHR ''0'' then tl s0 else s0)
      in if is_digit (peek s1) \<and> peek s1 \<noteq> CHR ''0''
         then (case num_digits 0 s1 of (n, _, r) \<Rightarrow> (n, r)) else (0, s1))"

definition num_frac :: "rat \<Rightarrow> string \<Rightarrow> rat \<times> nat \<times> string" where
  "num_frac n s =
     (if peek s = CHR ''.'' \<and> is_digit (peek (tl s)) then num_digits n (tl s) else (n, 0, s))"

definition parse_number :: "cjson \<Rightarrow> string \<Rightarrow> (cjson \<times> string) res" where
  "parse_number item num =
     (case num_sign num of (sign, s0) \<Rightarrow>
      case num_int s0 of (n1, s1) \<Rightarrow>
      case num_frac n1 s1 of (n2, k, s2) \<Rightarrow>
        rbind (parse_exponent s2) (\<lambda>(e, s3).
        if dbl_max \<le> n2 then Inl FloatRange
        else rbind (dbl_pow10 (e - int k)) (\<lambda>p.
             let n = dbl_mul (sign * n2) p
             in rbind (dbl_to_int n) (\<lambda>i.
                Inr (CJ cJSON_Number (cvaluestring item) i n (cstring item) (cchild item), s3)))))"

subsection \<open>Strings\<close>

definition hex_val :: "char \<Rightarrow> u32 option" where
  "hex_val c =
     (if 48 \<le> code c \<and> code c \<le> 57 then Some (of_nat (code c - 48))
      else if 65 \<le> code c \<and> code c \<le> 70 then Some (10 + of_nat (code c - 65))
      else if 97 \<le> code c \<and> code c \<le> 102 then Some (10 + of_nat (code c - 97))
      else None)"

definition parse_hex4 :: "string \<Rightarrow> u32" where
  "parse_hex4 str =
     (case hex_val (peek str) of None \<Rightarrow> 0 | Some a \<Rightarrow>
      case hex_val (peek (tl str)) of None \<Rightarrow> 0 | Some b \<Rightarrow>
      case hex_val (peek (tl (tl str))) of None \<Rightarrow> 0 | Some c \<Rightarrow>
      case hex_val (peek (tl (tl (tl str)))) of None \<Rightarrow> 0 | Some d \<Rightarrow>
        push_bit 4 (push_bit 4 (push_bit 4 a + b) + c) + d)"

text \<open>The bytes the \<open>switch (len)\<close> of \<open>parse_string\<close> stores, first to last.\<close>

definition store_char :: "u32 \<Rightarrow> char" where
  "store_char w = char_of (unat w)"

definition utf8_encode :: "u32 \<Rightarrow> string" where
  "utf8_encode uc =
     (let c = (\<lambda>w. store_char ((w OR 0x80) AND 0xBF))
      in if uc < 0x80 then [store_char (uc OR 0)]
         else if uc < 0x800 then [store_char (drop_bit 6 uc OR 0xC0), c uc]
         else if uc < 0x10000
              then [store_char (drop_bit 6 (drop_bit 6 uc) OR 0xE0), c (drop_bit 6 uc), c uc]
         else [store_char (drop_bit 6 (drop_bit 6 (drop_bit 6 uc)) OR 0xF0),
               c (drop_bit 6 (drop_bit 6 uc)), c (drop_bit 6 uc), c uc])"

text \<open>The first loop: how many characters the string needs, roughly.\<close>

fun scan_len :: "string \<Rightarrow> nat res" where
  "scan_len [] = Inr 0"
| "scan_len (c # s) =
     (if c = CHR 0x22 \<or> c = NUL then Inr 0
      else if c = CHR 0x5C
           then (case s of [] \<Rightarrow> Inl OutOfBounds | _ # s' \<Rightarrow> rmap Suc (scan_len s'))
           else rmap Suc (scan_len s))"

text \<open>
  The case \<open>'u'\<close>: what it writes, and the text after the closing \<open>ptr++\<close>.  The argument is the
  text after the \<open>u\<close>.
\<close>

definition skip_chars :: "nat \<Rightarrow> string \<Rightarrow> string res" where
  "skip_chars n s = (if n \<le> length s then Inr (drop n s) else Inl OutOfBounds)"

definition parse_unicode :: "string \<Rightarrow> (string \<times> string) res" where
  "parse_unicode s =
     (let uc = parse_hex4 s
      in if (0xDC00 \<le> uc \<and> uc \<le> 0xDFFF) \<or> uc = 0 then rmap (Pair []) (skip_chars 4 s)
         else if 0xD800 \<le> uc \<and> uc \<le> 0xDBFF
              then if peek (drop 4 s) \<noteq> CHR 0x5C \<or> peek (drop 5 s) \<noteq> CHR ''u''
                   then rmap (Pair []) (skip_chars 4 s)
                   else (let uc2 = parse_hex4 (drop 6 s)
                         in if uc2 < 0xDC00 \<or> 0xDFFF < uc2
                            then rmap (Pair []) (skip_chars 10 s)
                            else rmap (Pair (utf8_encode
                                   (0x10000 + (push_bit 10 (uc AND 0x3FF) OR (uc2 AND 0x3FF)))))
                                   (skip_chars 10 s))
              else rmap (Pair (utf8_encode uc)) (skip_chars 4 s))"

definition unescape :: "char \<Rightarrow> char" where
  "unescape c =
     (if c = CHR ''b'' then CHR 0x08 else if c = CHR ''f'' then CHR 0x0C
      else if c = CHR ''n'' then CHR 0x0A else if c = CHR ''r'' then CHR 0x0D
      else if c = CHR ''t'' then CHR 0x09 else c)"

lemma skip_chars_length: "skip_chars n s = Inr r \<Longrightarrow> length r \<le> length s"
  by (auto simp: skip_chars_def split: if_splits)

lemma parse_unicode_length: "parse_unicode s = Inr (out, r) \<Longrightarrow> length r \<le> length s"
  by (auto simp: parse_unicode_def Let_def rmap_eq_Inr split: if_splits dest: skip_chars_length)

text \<open>The second loop: what is written, and where it stops (a quote or the NUL).\<close>

function str_body :: "string \<Rightarrow> (string \<times> string) res" where
  "str_body [] = Inr ([], [])"
| "str_body (c # s) =
     (if c = CHR 0x22 \<or> c = NUL then Inr ([], c # s)
      else if c \<noteq> CHR 0x5C then rmap (\<lambda>(out, r). (c # out, r)) (str_body s)
      else (case s of
              [] \<Rightarrow> Inl OutOfBounds
            | e # s' \<Rightarrow>
                if e = CHR ''u''
                then rbind (parse_unicode s') (\<lambda>(u, s'').
                       rmap (\<lambda>(out, r). (u @ out, r)) (str_body s''))
                else rmap (\<lambda>(out, r). (unescape e # out, r)) (str_body s')))"
  by pat_completeness auto
termination
  by (relation "measure length") (auto dest: parse_unicode_length)

definition parse_string :: "mem \<Rightarrow> cjson \<Rightarrow> string \<Rightarrow> (cjson \<times> string \<times> mem) pr" where
  "parse_string m item str =
     (if peek str \<noteq> CHR 0x22 then Failed (Some str)
      else pbind (of_res (scan_len (tl str))) (\<lambda>len.
           pbind (of_alloc m) (\<lambda>m'.
           pbind (of_res (str_body (tl str))) (\<lambda>(out, r).
             if len < length out then Fault BufferOverflow
             else Done (CJ cJSON_String (Some out) (cvalueint item) (cvaluedouble item)
                          (cstring item) (cchild item),
                        if peek r = CHR 0x22 then tl r else r, m')))))"

section \<open>Values, arrays and objects\<close>

definition set_lit :: "nat \<Rightarrow> cjson \<Rightarrow> cjson" where
  "set_lit t item = set_ctype t item"

definition set_true :: "cjson \<Rightarrow> cjson" where
  "set_true item =
     CJ cJSON_True (cvaluestring item) 1 (cvaluedouble item) (cstring item) (cchild item)"

text \<open>
  The recursion is open: the routines for arrays and objects take the function that parses a
  value (\<open>pv\<close>), and \<open>parse_value\<close> with fuel \<open>Suc f\<close> passes them itself with fuel \<open>f\<close>.
  \<open>parse_elems\<close> and \<open>parse_members\<close> are the loops of \<open>parse_array\<close> and \<open>parse_object\<close> from the
  allocation of a child on, with fuel of their own; they return the chain and the text behind
  the last value.
\<close>

type_synonym value_parser = "mem \<Rightarrow> cjson \<Rightarrow> string \<Rightarrow> (cjson \<times> string \<times> mem) pr"

primrec parse_elems :: "value_parser \<Rightarrow> nat \<Rightarrow> mem \<Rightarrow> string \<Rightarrow> (cjson list \<times> string \<times> mem) pr" where
  "parse_elems pv 0 m value = NoFuel"
| "parse_elems pv (Suc f) m value =
     pbind (of_alloc m) (\<lambda>m1.
     pbind (pv m1 new_item (skip value)) (\<lambda>(c, r, m2).
       let v = skip r
       in if peek v = CHR '',''
          then pbind (parse_elems pv f m2 (tl v)) (\<lambda>(cs, v', m3). Done (c # cs, v', m3))
          else Done ([c], v, m2)))"

definition parse_array ::
  "value_parser \<Rightarrow> nat \<Rightarrow> mem \<Rightarrow> cjson \<Rightarrow> string \<Rightarrow> (cjson \<times> string \<times> mem) pr" where
  "parse_array pv f m item value =
     (if peek value \<noteq> CHR ''['' then Failed (Some value)
      else let item1 = set_ctype cJSON_Array item; v1 = skip (tl value)
      in if peek v1 = CHR '']'' then Done (item1, tl v1, m)
         else pbind (parse_elems pv f m v1) (\<lambda>(cs, v2, m').
              if peek v2 = CHR '']'' then Done (set_cchild cs item1, tl v2, m')
              else Failed (Some v2)))"

text \<open>\<open>child->string=child->valuestring;child->valuestring=0\<close>.\<close>

definition name_child :: "cjson \<Rightarrow> cjson" where
  "name_child k =
     CJ (ctype k) None (cvalueint k) (cvaluedouble k) (cvaluestring k) (cchild k)"

primrec parse_members ::
  "value_parser \<Rightarrow> nat \<Rightarrow> mem \<Rightarrow> string \<Rightarrow> (cjson list \<times> string \<times> mem) pr" where
  "parse_members pv 0 m value = NoFuel"
| "parse_members pv (Suc f) m value =
     pbind (of_alloc m) (\<lambda>m1.
     pbind (parse_string m1 new_item (skip value)) (\<lambda>(k, r, m2).
       let v = skip r
       in if peek v \<noteq> CHR '':'' then Failed (Some v)
          else pbind (pv m2 (name_child k) (skip (tl v))) (\<lambda>(c, r', m3).
               let v' = skip r'
               in if peek v' = CHR '',''
                  then pbind (parse_members pv f m3 (tl v')) (\<lambda>(cs, v'', m4).
                         Done (c # cs, v'', m4))
                  else Done ([c], v', m3))))"

definition parse_object ::
  "value_parser \<Rightarrow> nat \<Rightarrow> mem \<Rightarrow> cjson \<Rightarrow> string \<Rightarrow> (cjson \<times> string \<times> mem) pr" where
  "parse_object pv f m item value =
     (if peek value \<noteq> CHR ''{'' then Failed (Some value)
      else let item1 = set_ctype cJSON_Object item; v1 = skip (tl value)
      in if peek v1 = CHR ''}'' then Done (item1, tl v1, m)
         else pbind (parse_members pv f m v1) (\<lambda>(cs, v2, m').
              if peek v2 = CHR ''}'' then Done (set_cchild cs item1, tl v2, m')
              else Failed (Some v2)))"

primrec parse_value :: "nat \<Rightarrow> value_parser" where
  "parse_value 0 m item value = NoFuel"
| "parse_value (Suc f) m item value =
     (if starts_with ''null'' value then Done (set_lit cJSON_NULL item, drop 4 value, m)
      else if starts_with ''false'' value then Done (set_lit cJSON_False item, drop 5 value, m)
      else if starts_with ''true'' value then Done (set_true item, drop 4 value, m)
      else if peek value = CHR 0x22 then parse_string m item value
      else if peek value = CHR ''-'' \<or> is_digit (peek value)
           then pbind (of_res (parse_number item value)) (\<lambda>(c, r). Done (c, r, m))
      else if peek value = CHR ''['' then parse_array (parse_value f) f m item value
      else if peek value = CHR ''{'' then parse_object (parse_value f) f m item value
      else Failed (Some value))"

definition parse_fuel :: "string \<Rightarrow> nat" where
  "parse_fuel s = length s + 1"

text \<open>
  \<open>cJSON_ParseWithOpts\<close>: the item, the end pointer and the heap, or the error pointer.
\<close>

definition cJSON_ParseWithOpts :: "mem \<Rightarrow> string \<Rightarrow> bool \<Rightarrow> (cjson \<times> string \<times> mem) pr" where
  "cJSON_ParseWithOpts m value require_null_terminated =
     pbind (of_alloc m) (\<lambda>m1.
     pbind (parse_value (parse_fuel value) m1 new_item (skip value)) (\<lambda>(c, end, m2).
       if require_null_terminated
       then let end' = skip end
            in if peek end' \<noteq> NUL then Failed (Some end') else Done (c, end', m2)
       else Done (c, end, m2)))"

text \<open>What \<open>cJSON_Parse\<close> returns: an item, or NULL.\<close>

definition cJSON_Parse :: "mem \<Rightarrow> string \<Rightarrow> cjson option res" where
  "cJSON_Parse m value =
     (case cJSON_ParseWithOpts m value False of
        Done (c, _, _) \<Rightarrow> Inr (Some c)
      | Failed _ \<Rightarrow> Inr None
      | Fault u \<Rightarrow> Inl u
      | NoFuel \<Rightarrow> Inr None)"

section \<open>What is consumed\<close>

text \<open>Every routine returns a pointer into the text it was given.\<close>

named_theorems suffixes \<open>returned pointers are suffixes\<close>

lemma suffix_skip [suffixes]: "suffix (skip s) s"
  by (induction s) (auto intro: suffix_ConsI)

lemma skip_id: "peek s \<noteq> NUL \<Longrightarrow> \<not> code (peek s) \<le> 32 \<Longrightarrow> skip s = s"
  by (cases s) auto

lemma skip_skip [simp]: "skip (skip s) = skip s"
  by (induction s) auto

lemma suffix_num_digits [suffixes]: "num_digits n s = (n', k, r) \<Longrightarrow> suffix r s"
  by (induction n s arbitrary: n' k r rule: num_digits.induct)
     (auto split: if_splits prod.splits intro: suffix_ConsI)

lemma strict_suffix_tl: "peek s \<noteq> NUL \<Longrightarrow> suffix r (tl s) \<Longrightarrow> strict_suffix r s"
  by (cases s) (auto simp: strict_suffix_def suffix_def)

lemma suffix_tl_trans: "suffix r (tl s) \<Longrightarrow> suffix r s"
  using suffix_order.trans suffix_tl by blast

lemma suffix_tl_skip: "suffix r (tl (skip s)) \<Longrightarrow> suffix r s"
  using suffix_skip suffix_tl by (meson suffix_order.trans)

lemma suffix_skip_tl: "suffix r (skip (tl s)) \<Longrightarrow> suffix (tl r) (tl s)"
  using suffix_skip suffix_tl by (meson suffix_order.trans)

lemma num_digits_progress:
  assumes "num_digits n s = (n', k, r)" and "is_digit (peek s)"
  shows "strict_suffix r s"
  using assms by (cases s) (auto split: if_splits prod.splits simp: is_digit_def
      dest!: suffix_num_digits intro!: strict_suffix_tl)

lemma suffix_exp_digits [suffixes]: "exp_digits e s = Inr (e', r) \<Longrightarrow> suffix r s"
  by (induction e s arbitrary: e' r rule: exp_digits.induct)
     (auto split: if_splits intro: suffix_ConsI)

lemma suffix_parse_exponent [suffixes]:
  assumes "parse_exponent s = Inr (e, r)" shows "suffix r s"
proof -
  from assms have "r = s \<or> suffix r (tl s) \<or> suffix r (tl (tl s))"
    by (auto simp: parse_exponent_def Let_def rmap_eq_Inr split: if_splits
        dest: suffix_exp_digits)
  then show ?thesis by (auto intro: suffix_tl_trans)
qed

lemma suffix_num_sign [suffixes]: "num_sign s = (g, r) \<Longrightarrow> suffix r s"
  by (auto simp: num_sign_def suffix_tl split: if_splits)

lemma suffix_num_int [suffixes]: "num_int s = (n, r) \<Longrightarrow> suffix r s"
  by (auto simp: num_int_def Let_def suffix_tl split: if_splits prod.splits
      dest!: suffix_num_digits intro: suffix_tl_trans)

lemma suffix_num_frac [suffixes]: "num_frac n s = (n', k, r) \<Longrightarrow> suffix r s"
  by (auto simp: num_frac_def split: if_splits dest!: suffix_num_digits intro: suffix_tl_trans)

lemma num_int_progress:
  assumes "num_int s = (n, r)" and "is_digit (peek s)"
  shows "strict_suffix r s"
proof (cases "peek s = CHR ''0''")
  case True
  with assms have "suffix r (tl s)"
    by (auto simp: num_int_def Let_def split: if_splits prod.splits dest: suffix_num_digits)
  with True show ?thesis by (auto intro: strict_suffix_tl)
next
  case False
  with assms show ?thesis
    by (auto simp: num_int_def split: prod.splits dest: num_digits_progress)
qed

lemma suffix_skip_chars [suffixes]: "skip_chars n s = Inr r \<Longrightarrow> suffix r s"
  by (auto simp: skip_chars_def suffix_drop split: if_splits)

lemma suffix_parse_unicode [suffixes]: "parse_unicode s = Inr (out, r) \<Longrightarrow> suffix r s"
  by (auto simp: parse_unicode_def Let_def rmap_eq_Inr split: if_splits dest: suffix_skip_chars)

lemma suffix_str_body [suffixes]: "str_body s = Inr (out, r) \<Longrightarrow> suffix r s"
proof (induction s arbitrary: out r rule: str_body.induct)
  case (2 c s)
  consider "c = CHR 0x22 \<or> c = NUL" | "c \<noteq> CHR 0x22" "c \<noteq> NUL" "c \<noteq> CHR 0x5C"
    | e s' where "c = CHR 0x5C" "s = e # s'"
    using "2.prems" by (cases s) (auto split: if_splits)
  then show ?case
  proof cases
    case 3
    show ?thesis
    proof (cases "e = CHR ''u''")
      case True
      with 3 "2.prems" obtain u s'' o' where u: "parse_unicode s' = Inr (u, s'')"
        and b: "str_body s'' = Inr (o', r)"
        by (auto simp: rmap_eq_Inr)
      have "suffix r s''" using "2.IH"(2) [OF _ _ 3(2) True u refl b] 3(1) by simp
      with suffix_parse_unicode [OF u] 3 show ?thesis
        by (auto intro!: suffix_ConsI intro: suffix_order.trans)
    next
      case False
      with 3 "2.prems" obtain o' where "str_body s' = Inr (o', r)" by (auto simp: rmap_eq_Inr)
      with 3 "2.IH"(3) False show ?thesis by (auto intro!: suffix_ConsI)
    qed
  qed (use "2.prems" "2.IH"(1) in \<open>auto simp: rmap_eq_Inr intro!: suffix_ConsI\<close>)
qed simp

lemma parse_string_consumes:
  assumes "parse_string m item s = Done (c, r, m')" shows "strict_suffix r s"
proof -
  from assms obtain out r0 where q: "peek s = CHR 0x22" and b: "str_body (tl s) = Inr (out, r0)"
    and r: "r = (if peek r0 = CHR 0x22 then tl r0 else r0)"
    by (auto simp: parse_string_def split: if_splits)
  from suffix_str_body [OF b] r have "suffix r (tl s)"
    by (auto intro: suffix_order.trans suffix_tl)
  with q show ?thesis by (auto intro: strict_suffix_tl)
qed

lemma parse_number_consumes:
  assumes "parse_number item s = Inr (c, r)" and "peek s = CHR ''-'' \<or> is_digit (peek s)"
  shows "strict_suffix r s"
proof -
  obtain g s0 where 0: "num_sign s = (g, s0)" by fastforce
  obtain n1 s1 where 1: "num_int s0 = (n1, s1)" by fastforce
  obtain n2 k s2 where 2: "num_frac n1 s1 = (n2, k, s2)" by (metis prod.exhaust)
  from assms(1) have "suffix r s2"
    by (auto simp: parse_number_def 0 1 2 Let_def split: if_splits dest: suffix_parse_exponent)
  with 2 have r: "suffix r s1" by (meson suffix_num_frac suffix_order.trans)
  show ?thesis
  proof (cases "peek s = CHR ''-''")
    case True
    with 0 have "s0 = tl s" by (auto simp: num_sign_def)
    with r 1 have "suffix r (tl s)" by (meson suffix_num_int suffix_order.trans)
    with True show ?thesis by (auto intro: strict_suffix_tl)
  next
    case False
    with 0 1 assms(2) have "strict_suffix s1 s" by (auto simp: num_sign_def dest: num_int_progress)
    with r show ?thesis by (rule suffix_order.le_less_trans)
  qed
qed

text \<open>One turn of each loop.\<close>

lemma elems_step:
  assumes "parse_elems pv (Suc f) m s = Done (cs, r, m')"
  obtains m1 c r1 m2 cs' where "alloc m = Some m1" "pv m1 new_item (skip s) = Done (c, r1, m2)"
    "cs = c # cs'"
    "(cs' = [] \<and> r = skip r1 \<and> m' = m2) \<or>
     (peek (skip r1) = CHR '','' \<and> parse_elems pv f m2 (tl (skip r1)) = Done (cs', r, m'))"
  using assms by (auto simp: Let_def split: if_splits)

lemma members_step:
  assumes "parse_members pv (Suc f) m s = Done (cs, r, m')"
  obtains m1 k r1 m2 c r2 m3 cs' where "alloc m = Some m1"
    "parse_string m1 new_item (skip s) = Done (k, r1, m2)"
    "pv m2 (name_child k) (skip (tl (skip r1))) = Done (c, r2, m3)" "cs = c # cs'"
    "(cs' = [] \<and> r = skip r2 \<and> m' = m3) \<or>
     (peek (skip r2) = CHR '','' \<and> parse_members pv f m3 (tl (skip r2)) = Done (cs', r, m'))"
  using assms by (auto simp: Let_def split: if_splits)

lemma array_step:
  assumes "parse_array pv f m item s = Done (c, r, m')"
  obtains (empty) "peek s = CHR ''[''" "peek (skip (tl s)) = CHR '']''"
      "c = set_ctype cJSON_Array item" "r = tl (skip (tl s))" "m' = m"
    | (loop) cs v where "peek s = CHR ''[''" "peek (skip (tl s)) \<noteq> CHR '']''"
      "parse_elems pv f m (skip (tl s)) = Done (cs, v, m')" "peek v = CHR '']''"
      "c = set_cchild cs (set_ctype cJSON_Array item)" "r = tl v"
  using assms by (auto simp: parse_array_def Let_def split: if_splits)

lemma object_step:
  assumes "parse_object pv f m item s = Done (c, r, m')"
  obtains (empty) "peek s = CHR ''{''" "peek (skip (tl s)) = CHR ''}''"
      "c = set_ctype cJSON_Object item" "r = tl (skip (tl s))" "m' = m"
    | (loop) cs v where "peek s = CHR ''{''" "peek (skip (tl s)) \<noteq> CHR ''}''"
      "parse_members pv f m (skip (tl s)) = Done (cs, v, m')" "peek v = CHR ''}''"
      "c = set_cchild cs (set_ctype cJSON_Object item)" "r = tl v"
  using assms by (auto simp: parse_object_def Let_def split: if_splits)

text \<open>
  The contract between \<open>parse_value\<close> and the loops over elements and members: a value that is
  parsed leaves a proper suffix of its text.  The loops then do too, and so does the next
  level of \<open>parse_value\<close>.
\<close>

locale consuming_parser =
  fixes pv :: value_parser
  assumes consumes: "pv m item s = Done (c, r, m') \<Longrightarrow> strict_suffix r s"
begin

lemma elems_suffix: "parse_elems pv f m s = Done (cs, r, m') \<Longrightarrow> suffix r s"
proof (induction f arbitrary: m s cs r m')
  case (Suc f)
  show ?case
  proof (rule elems_step [OF Suc.prems])
    fix m1 c r1 m2 cs'
    assume pv: "pv m1 new_item (skip s) = Done (c, r1, m2)"
      and rest: "(cs' = [] \<and> r = skip r1 \<and> m' = m2) \<or>
        (peek (skip r1) = CHR '','' \<and> parse_elems pv f m2 (tl (skip r1)) = Done (cs', r, m'))"
    have "suffix r1 s"
      using consumes [OF pv] suffix_skip by (meson suffix_order.order_trans suffix_order.less_imp_le)
    moreover have "suffix r r1"
      using rest Suc.IH suffix_skip by (auto intro: suffix_tl_skip)
    ultimately show ?thesis by (meson suffix_order.trans)
  qed
qed simp

lemma members_suffix: "parse_members pv f m s = Done (cs, r, m') \<Longrightarrow> suffix r s"
proof (induction f arbitrary: m s cs r m')
  case (Suc f)
  show ?case
  proof (rule members_step [OF Suc.prems])
    fix m1 k r1 m2 c r2 m3 cs'
    assume k: "parse_string m1 new_item (skip s) = Done (k, r1, m2)"
      and pv: "pv m2 (name_child k) (skip (tl (skip r1))) = Done (c, r2, m3)"
      and rest: "(cs' = [] \<and> r = skip r2 \<and> m' = m3) \<or>
        (peek (skip r2) = CHR '','' \<and> parse_members pv f m3 (tl (skip r2)) = Done (cs', r, m'))"
    have "suffix r1 s"
      using parse_string_consumes [OF k] suffix_skip
      by (meson suffix_order.order_trans suffix_order.less_imp_le)
    moreover have "suffix r2 r1"
      using consumes [OF pv] suffix_skip suffix_tl
      by (meson suffix_order.order_trans suffix_order.less_imp_le)
    moreover have "suffix r r2"
      using rest Suc.IH suffix_skip by (auto intro: suffix_tl_skip)
    ultimately show ?thesis by (meson suffix_order.trans)
  qed
qed simp

lemma array_consumes:
  "parse_array pv f m item s = Done (c, r, m') \<Longrightarrow> strict_suffix r s"
  by (auto simp: parse_array_def Let_def split: if_splits intro!: strict_suffix_tl
      intro: suffix_tl suffix_skip_tl dest!: elems_suffix)

lemma object_consumes:
  "parse_object pv f m item s = Done (c, r, m') \<Longrightarrow> strict_suffix r s"
  by (auto simp: parse_object_def Let_def split: if_splits intro!: strict_suffix_tl
      intro: suffix_tl suffix_skip_tl dest!: members_suffix)

end

lemma starts_with_consumes:
  "starts_with p s \<Longrightarrow> length p = n \<Longrightarrow> p \<noteq> [] \<Longrightarrow> strict_suffix (drop n s) s"
  by (metis starts_with_drop strict_suffix_def suffixI append_self_conv2)

lemma parse_value_consumes: "parse_value f m item s = Done (c, r, m') \<Longrightarrow> strict_suffix r s"
proof (induction f arbitrary: m item s c r m')
  case (Suc f)
  then have contract: "consuming_parser (parse_value f)" by unfold_locales
  show ?case
    using Suc.prems starts_with_consumes [of "''null''" s 4] starts_with_consumes [of "''false''" s 5]
      starts_with_consumes [of "''true''" s 4]
    by (auto split: if_splits dest: parse_string_consumes parse_number_consumes
        consuming_parser.array_consumes [OF contract]
        consuming_parser.object_consumes [OF contract])
qed simp

interpretation vp: consuming_parser "parse_value f" for f
  by unfold_locales (rule parse_value_consumes)

end
