(* ===== verification/CJSON_ParseProps.thy ===== *)
theory CJSON_ParseProps
  imports CJSON_Parse
begin

text \<open>
  What the parser promises: it always comes back with the fuel it is given, it leaves a
  proper suffix of its text, running out of memory changes nothing but the moment it gives
  up, the blocks it allocates are the blocks \<open>cJSON_Delete\<close> frees, and a string literal whose
  escapes are complete stays inside its buffers.
\<close>

section \<open>Termination\<close>

locale fuelled_parser = consuming_parser +
  fixes N :: nat
  assumes enough: "length s < N \<Longrightarrow> pv m item s \<noteq> NoFuel"
begin

lemma length_skip: "length (skip s) \<le> length s"
  by (rule suffix_length_le [OF suffix_skip])

lemma elems_enough: "length s < f \<Longrightarrow> length s < N \<Longrightarrow> parse_elems pv f m s \<noteq> NoFuel"
proof (induction f arbitrary: m s)
  case (Suc f)
  have step: "length (tl (skip r)) < f \<and> length (tl (skip r)) < N"
    if "pv m1 new_item (skip s) = Done (c, r, m2)" "peek (skip r) = CHR '',''" for m1 c r m2
  proof -
    have "length r < length s"
      using suffix_length_less [OF consumes [OF that(1)]] length_skip [of s] by simp
    moreover have "length (tl (skip r)) < length r"
      using that(2) length_skip [of r] by (cases "skip r") auto
    ultimately show ?thesis using Suc.prems by simp
  qed
  show ?case
    using enough [of "skip s"] length_skip [of s] Suc.prems Suc.IH step
    by (auto simp: pbind_eq_NoFuel Let_def split: if_splits)
qed simp

lemma members_enough: "length s < f \<Longrightarrow> length s < N \<Longrightarrow> parse_members pv f m s \<noteq> NoFuel"
proof (induction f arbitrary: m s)
  case (Suc f)
  have step1: "length (skip (tl (skip r))) < length s"
    if "parse_string m1 new_item (skip s) = Done (k, r, m2)" for m1 k r m2
    using suffix_length_less [OF parse_string_consumes [OF that]] length_skip [of s]
      length_skip [of r] length_skip [of "tl (skip r)"] by simp
  have step2: "length (tl (skip r')) < f \<and> length (tl (skip r')) < N"
    if "parse_string m1 new_item (skip s) = Done (k, r, m2)"
      "pv m2 it (skip (tl (skip r))) = Done (c, r', m3)" for m1 k r m2 it c r' m3
    using step1 [OF that(1)] suffix_length_less [OF consumes [OF that(2)]] length_skip [of r']
      Suc.prems by (auto intro: le_less_trans [OF diff_le_self])
  have no: "parse_string m1 new_item t \<noteq> NoFuel" for m1 t
    by (auto simp: parse_string_def pbind_eq_NoFuel split: if_splits)
  show ?case
    using Suc.prems Suc.IH enough step1 step2 no
    by (auto simp: pbind_eq_NoFuel Let_def split: if_splits) (meson less_trans)+
qed simp

lemma array_enough:
  "length s < Suc f \<Longrightarrow> length s < Suc N \<Longrightarrow> parse_array pv f m item s \<noteq> NoFuel"
proof -
  assume l: "length s < Suc f" "length s < Suc N"
  have "peek s = CHR ''['' \<Longrightarrow> length (skip (tl s)) < length s"
    using length_skip [of "tl s"] by (cases s) auto
  with l show ?thesis
    using elems_enough [of "skip (tl s)" f] by (auto simp: parse_array_def Let_def pbind_eq_NoFuel)
qed

lemma object_enough:
  "length s < Suc f \<Longrightarrow> length s < Suc N \<Longrightarrow> parse_object pv f m item s \<noteq> NoFuel"
proof -
  assume l: "length s < Suc f" "length s < Suc N"
  have "peek s = CHR ''{'' \<Longrightarrow> length (skip (tl s)) < length s"
    using length_skip [of "tl s"] by (cases s) auto
  with l show ?thesis
    using members_enough [of "skip (tl s)" f]
    by (auto simp: parse_object_def Let_def pbind_eq_NoFuel)
qed

end

lemma parse_string_not_NoFuel [simp]: "parse_string m item s \<noteq> NoFuel"
  by (auto simp: parse_string_def pbind_eq_NoFuel split: if_splits)

lemma parse_value_enough: "length s < f \<Longrightarrow> parse_value f m item s \<noteq> NoFuel"
proof (induction f arbitrary: m item s)
  case (Suc f)
  then have contract: "fuelled_parser (parse_value f) f"
    by unfold_locales
  show ?case
    using Suc.prems fuelled_parser.array_enough [OF contract, of s f]
      fuelled_parser.object_enough [OF contract, of s f]
    by (auto simp: pbind_eq_NoFuel)
qed simp

interpretation vf: fuelled_parser "parse_value f" f for f
  by unfold_locales (rule parse_value_enough)

lemma ParseWithOpts_not_NoFuel: "cJSON_ParseWithOpts m s b \<noteq> NoFuel"
proof -
  have "length (skip s) < parse_fuel s"
    using vf.length_skip [of s] by (simp add: parse_fuel_def)
  then show ?thesis
    using parse_value_enough by (auto simp: cJSON_ParseWithOpts_def Let_def pbind_eq_NoFuel)
qed

section \<open>Memory\<close>

subsection \<open>Blocks\<close>

text \<open>The blocks an item owns besides its node and its name.\<close>

definition content_blocks :: "cjson \<Rightarrow> nat" where
  "content_blocks c = (if cvaluestring c = None then 0 else 1) + cJSON_Delete (cchild c)"

lemma Delete_Cons:
  assumes "ctype c < 7"
  shows "cJSON_Delete (c # cs) =
    1 + (if cstring c = None then 0 else 1) + content_blocks c + cJSON_Delete cs"
proof -
  have "ctype c = 0 \<or> ctype c = 1 \<or> ctype c = 2 \<or> ctype c = 3 \<or> ctype c = 4 \<or> ctype c = 5
      \<or> ctype c = 6"
    using assms by arith
  then show ?thesis
    by (cases c) (auto simp: content_blocks_def cJSON_flags)
qed

lemma allocs_trans: "allocs a m = Some m1 \<Longrightarrow> allocs b m1 = Some m2 \<Longrightarrow> allocs (a + b) m = Some m2"
  by (simp add: allocs_add)

lemma parse_string_blocks:
  assumes "parse_string m item s = Done (c, r, m')"
  shows "alloc m = Some m' \<and> ctype c = cJSON_String \<and> cvaluestring c \<noteq> None
    \<and> cstring c = cstring item \<and> cchild c = cchild item"
  using assms by (auto simp: parse_string_def split: if_splits)

lemma parse_number_blocks:
  "parse_number item s = Inr (c, r) \<Longrightarrow>
   ctype c = cJSON_Number \<and> cvaluestring c = cvaluestring item \<and> cstring c = cstring item
   \<and> cchild c = cchild item"
  by (auto simp: parse_number_def Let_def split: prod.splits if_splits)

definition fresh :: "cjson \<Rightarrow> bool" where
  "fresh item \<longleftrightarrow> cvaluestring item = None \<and> cchild item = []"

lemma fresh_new_item [simp]: "fresh new_item"
  by (simp add: fresh_def new_item_def)

lemma cstring_new_item [simp]: "cstring new_item = None"
  by (simp add: new_item_def)

locale accounted_parser =
  fixes pv :: value_parser
  assumes accounts: "pv m item s = Done (c, r, m') \<Longrightarrow> fresh item \<Longrightarrow>
    allocs (content_blocks c) m = Some m' \<and> ctype c < 7 \<and> cstring c = cstring item"
begin

lemma elems_blocks:
  "parse_elems pv f m s = Done (cs, r, m') \<Longrightarrow> allocs (cJSON_Delete cs) m = Some m'"
proof (induction f arbitrary: m s cs r m')
  case (Suc f)
  show ?case
  proof (rule elems_step [OF Suc.prems])
    fix m1 c r1 m2 cs'
    assume a: "alloc m = Some m1" and pv: "pv m1 new_item (skip s) = Done (c, r1, m2)"
      and cs: "cs = c # cs'"
      and "(cs' = [] \<and> r = skip r1 \<and> m' = m2) \<or>
        (peek (skip r1) = CHR '','' \<and> parse_elems pv f m2 (tl (skip r1)) = Done (cs', r, m'))"
    then have rest: "allocs (cJSON_Delete cs') m2 = Some m'" using Suc.IH by auto
    from accounts [OF pv] have "allocs (content_blocks c) m1 = Some m2" "ctype c < 7"
      "cstring c = None" by auto
    then show ?thesis
      using allocs_trans [OF _ rest, of "content_blocks c" m1] a cs by (simp add: Delete_Cons)
  qed
qed simp

lemma members_blocks:
  "parse_members pv f m s = Done (cs, r, m') \<Longrightarrow> allocs (cJSON_Delete cs) m = Some m'"
proof (induction f arbitrary: m s cs r m')
  case (Suc f)
  show ?case
  proof (rule members_step [OF Suc.prems])
    fix m1 k r1 m2 c r2 m3 cs'
    assume a: "alloc m = Some m1" and k: "parse_string m1 new_item (skip s) = Done (k, r1, m2)"
      and pv: "pv m2 (name_child k) (skip (tl (skip r1))) = Done (c, r2, m3)" and cs: "cs = c # cs'"
      and "(cs' = [] \<and> r = skip r2 \<and> m' = m3) \<or>
        (peek (skip r2) = CHR '','' \<and> parse_members pv f m3 (tl (skip r2)) = Done (cs', r, m'))"
    then have rest: "allocs (cJSON_Delete cs') m3 = Some m'" using Suc.IH by auto
    from parse_string_blocks [OF k] have k': "alloc m1 = Some m2" "fresh (name_child k)"
      "cstring (name_child k) \<noteq> None"
      by (auto simp: name_child_def fresh_def new_item_def)
    from accounts [OF pv k'(2)] k'(3) have c: "allocs (content_blocks c) m2 = Some m3"
      "ctype c < 7" "cstring c \<noteq> None" by auto
    show ?thesis
      using allocs_trans [OF c(1) rest] cs c(2,3) a k'(1) by (auto simp: Delete_Cons)
  qed
qed simp

lemma array_blocks:
  assumes "parse_array pv f m item s = Done (c, r, m')" and "fresh item"
  shows "allocs (content_blocks c) m = Some m' \<and> ctype c < 7 \<and> cstring c = cstring item"
  using assms(1)
proof (cases rule: array_step)
  case (loop cs v)
  with elems_blocks [OF loop(3)] assms(2) show ?thesis
    by (simp add: content_blocks_def fresh_def cJSON_types)
qed (use assms(2) in \<open>simp add: content_blocks_def fresh_def cJSON_types\<close>)

lemma object_blocks:
  assumes "parse_object pv f m item s = Done (c, r, m')" and "fresh item"
  shows "allocs (content_blocks c) m = Some m' \<and> ctype c < 7 \<and> cstring c = cstring item"
  using assms(1)
proof (cases rule: object_step)
  case (loop cs v)
  with members_blocks [OF loop(3)] assms(2) show ?thesis
    by (simp add: content_blocks_def fresh_def cJSON_types)
qed (use assms(2) in \<open>simp add: content_blocks_def fresh_def cJSON_types\<close>)

end

lemma literal_blocks:
  "fresh item \<Longrightarrow> content_blocks (set_lit t item) = 0" "ctype (set_lit t item) = t"
  "cstring (set_lit t item) = cstring item"
  "fresh item \<Longrightarrow> content_blocks (set_true item) = 0" "ctype (set_true item) = cJSON_True"
  "cstring (set_true item) = cstring item" "cJSON_True < 7" "cJSON_False < 7" "cJSON_NULL < 7"
  by (simp_all add: set_lit_def set_true_def content_blocks_def fresh_def cJSON_types)

lemma string_blocks:
  "parse_string m item s = Done (c, r, m') \<Longrightarrow> fresh item \<Longrightarrow>
   allocs (content_blocks c) m = Some m' \<and> ctype c < 7 \<and> cstring c = cstring item"
  using parse_string_blocks [of m item s c r m']
  by (auto simp: content_blocks_def fresh_def cJSON_types)

lemma number_blocks:
  "parse_number item s = Inr (c, r) \<Longrightarrow> fresh item \<Longrightarrow>
   content_blocks c = 0 \<and> ctype c < 7 \<and> cstring c = cstring item"
  using parse_number_blocks [of item s c r]
  by (auto simp: content_blocks_def fresh_def cJSON_types)

lemma parse_value_accounts:
  "parse_value f m item s = Done (c, r, m') \<Longrightarrow> fresh item \<Longrightarrow>
   allocs (content_blocks c) m = Some m' \<and> ctype c < 7 \<and> cstring c = cstring item"
proof (induction f arbitrary: m item s c r m')
  case (Suc f)
  then have contract: "accounted_parser (parse_value f)"
    by unfold_locales
  show ?case
    using Suc.prems accounted_parser.array_blocks [OF contract, of f m item s c r m']
      accounted_parser.object_blocks [OF contract, of f m item s c r m']
    by (auto simp: literal_blocks string_blocks number_blocks split: if_splits)
qed simp

interpretation va: accounted_parser "parse_value f" for f
  by unfold_locales (rule parse_value_accounts)

subsection \<open>Strings\<close>

text \<open>The parser makes no string item without a text.\<close>

definition has_text :: "cjson \<Rightarrow> bool" where
  "has_text c \<longleftrightarrow> (cJSON_IsString (Some c) \<longrightarrow> cvaluestring c \<noteq> None)"

lemma has_text_other: "ctype c \<noteq> cJSON_String \<Longrightarrow> ctype c < 7 \<Longrightarrow> has_text c"
proof -
  assume c: "ctype c \<noteq> cJSON_String" "ctype c < 7"
  have "ctype c AND 255 = take_bit 8 (ctype c)" by (simp add: take_bit_eq_mask mask_eq_exp_minus_1)
  then have "ckind c = ctype c" using c(2) by (simp add: ckind_def take_bit_nat_eq_self)
  then show ?thesis using c(1) by (simp add: has_text_def cJSON_IsString_def is_kind_def)
qed

locale text_parser =
  fixes pv :: value_parser
  assumes makes_text: "pv m item s = Done (c, r, m') \<Longrightarrow> has_text c"
begin

lemma elems_text: "parse_elems pv f m s = Done (cs, r, m') \<Longrightarrow> \<forall>c \<in> set cs. has_text c"
proof (induction f arbitrary: m s cs r m')
  case (Suc f)
  show ?case by (rule elems_step [OF Suc.prems]) (auto dest: makes_text Suc.IH)
qed simp

lemma members_text: "parse_members pv f m s = Done (cs, r, m') \<Longrightarrow> \<forall>c \<in> set cs. has_text c"
proof (induction f arbitrary: m s cs r m')
  case (Suc f)
  show ?case by (rule members_step [OF Suc.prems]) (auto dest: makes_text Suc.IH)
qed simp

lemma array_text:
  assumes "parse_array pv f m item s = Done (c, r, m')" "cchild item = []"
  shows "has_text c \<and> (\<forall>x \<in> set (cchild c). has_text x)"
  using assms(1)
  by (cases rule: array_step) (use assms(2) in \<open>auto simp: cJSON_types has_text_other dest: elems_text\<close>)

lemma object_text:
  assumes "parse_object pv f m item s = Done (c, r, m')" "cchild item = []"
  shows "has_text c \<and> (\<forall>x \<in> set (cchild c). has_text x)"
  using assms(1)
  by (cases rule: object_step) (use assms(2) in \<open>auto simp: cJSON_types has_text_other dest: members_text\<close>)

end
lemma literal_text: "has_text (set_lit cJSON_NULL item)" "has_text (set_lit cJSON_False item)"
  "has_text (set_true item)"
  by (rule has_text_other; simp add: set_lit_def set_true_def cJSON_types)+

text \<open>A value that is an array or an object is no string, whatever its elements are.\<close>

lemma value_text: "parse_value f m item s = Done (c, r, m') \<Longrightarrow> has_text c"
proof (cases f)
  case (Suc g)
  assume v: "parse_value f m item s = Done (c, r, m')"
  have "has_text c" if "parse_array pv g m item s = Done (c, r, m')" for pv
    using that by (cases rule: array_step) (simp_all add: has_text_other cJSON_types)
  moreover have "has_text c" if "parse_object pv g m item s = Done (c, r, m')" for pv
    using that by (cases rule: object_step) (simp_all add: has_text_other cJSON_types)
  moreover have "has_text c" if "parse_string m item s = Done (c, r, m')"
    using parse_string_blocks [OF that] by (simp add: has_text_def)
  moreover have "has_text c" if "parse_number item s = Inr (c, r)"
    using parse_number_blocks [OF that] by (simp add: has_text_other cJSON_types)
  ultimately show ?thesis using v Suc by (auto simp: literal_text split: if_splits)
qed simp

interpretation vt: text_parser "parse_value f" for f
  by unfold_locales (rule value_text)

lemma parse_value_text:
  assumes "parse_value f m item s = Done (c, r, m')" "cchild item = []"
  shows "\<forall>x \<in> set (cchild c). has_text x"
proof (cases f)
  case (Suc f)
  show ?thesis
    using assms [unfolded Suc] vt.array_text [of f f m item s c r m'] vt.object_text [of f f m item s c r m']
      parse_string_blocks [of m item s c r m'] parse_number_blocks [of item s c r]
    by (auto simp: set_lit_def set_true_def split: if_splits)
qed (use assms in simp)

lemma parsed_text:
  assumes "cJSON_Parse m s = Inr (Some c)" "x \<in> set (cchild c)" "cJSON_IsString (Some x)"
  obtains v where "cvaluestring x = Some v"
proof -
  from assms(1) obtain f m1 r m2 where "parse_value f m1 new_item (skip s) = Done (c, r, m2)"
    by (auto simp: cJSON_Parse_def cJSON_ParseWithOpts_def Let_def split: pr.splits option.splits if_splits)
  from parse_value_text [OF this] assms(2,3) that show thesis by (auto simp: new_item_def has_text_def)
qed

subsection \<open>Out of memory\<close>

text \<open>
  A parser on a heap with room for \<open>n\<close> more blocks gives the result it gives on an
  unlimited heap, or gives up with NULL and no error pointer.
\<close>

definition agrees :: "('a \<times> 'b \<times> mem) pr \<Rightarrow> ('a \<times> 'b \<times> mem) pr \<Rightarrow> bool" where
  "agrees l u \<longleftrightarrow>
     (case u of
        Done (a, b, m) \<Rightarrow> m = Unlimited \<and> (l = Failed None \<or> (\<exists>k. l = Done (a, b, Limited k)))
      | _ \<Rightarrow> l = Failed None \<or> l = u)"

lemma agrees_Failed [simp, intro!]: "agrees (Failed None) (Failed e)" "agrees (Failed e) (Failed e)"
    "agrees (Fault w) (Fault w)" "agrees NoFuel NoFuel"
    "agrees (Done (a, b, Limited k)) (Done (a, b, Unlimited))"
  by (simp_all add: agrees_def)

lemma agrees_cases:
  assumes "agrees l u"
  obtains "l = Failed None" "\<And>a b m. u = Done (a, b, m) \<Longrightarrow> m = Unlimited"
    | a b k where "l = Done (a, b, Limited k)" "u = Done (a, b, Unlimited)"
    | "l = u" "\<And>x. u \<noteq> Done x"
  using assms by (auto simp: agrees_def split: pr.splits prod.splits)

lemma agrees_oom: "(\<And>a b m. u = Done (a, b, m) \<Longrightarrow> m = Unlimited) \<Longrightarrow> agrees (Failed None) u"
  by (auto simp: agrees_def split: pr.splits prod.splits)

lemma agrees_unlimited: "agrees l u \<Longrightarrow> u = Done (a, b, m) \<Longrightarrow> m = Unlimited"
  by (auto simp: agrees_def)

lemma agrees_pbind:
  assumes l: "agrees l u" and f: "\<And>a b k. agrees (f (a, b, Limited k)) (f (a, b, Unlimited))"
  shows "agrees (pbind l f) (pbind u f)"
  using l
proof (cases rule: agrees_cases)
  case 1
  show ?thesis
  proof (cases u)
    case (Done x)
    then obtain a b where "u = Done (a, b, Unlimited)" using 1 by (metis prod.exhaust)
    moreover have "agrees (Failed None) (f (a, b, Unlimited))"
      by (rule agrees_oom) (rule agrees_unlimited [OF f])
    ultimately show ?thesis using 1 by simp
  qed (use 1 in \<open>auto intro: agrees_oom\<close>)
next
  case (2 a b k)
  with f show ?thesis by simp
next
  case 3
  then show ?thesis by (cases u) auto
qed

lemma agrees_pbind_alloc:
  assumes f: "\<And>k. agrees (f (Limited k)) (f Unlimited)"
  shows "agrees (pbind (of_alloc (Limited n)) f) (pbind (of_alloc Unlimited) f)"
proof (cases n)
  case 0
  then show ?thesis using agrees_unlimited [OF f] by (auto simp: of_alloc_def intro: agrees_oom)
next
  case (Suc k)
  then show ?thesis using f by (simp add: of_alloc_def)
qed

lemma agrees_pbind_res:
  assumes "\<And>x. r = Inr x \<Longrightarrow> agrees (f x) (g x)"
  shows "agrees (pbind (of_res r) f) (pbind (of_res r) g)"
  using assms by (cases r) auto

lemma parse_string_agrees:
  "agrees (parse_string (Limited n) item s) (parse_string Unlimited item s)"
  unfolding parse_string_def
  by (auto intro!: agrees_pbind_res agrees_pbind_alloc simp del: of_alloc_Unlimited)

locale oom_parser =
  fixes pv :: value_parser
  assumes oom: "agrees (pv (Limited n) item s) (pv Unlimited item s)"
begin

lemma elems_agrees: "agrees (parse_elems pv f (Limited n) s) (parse_elems pv f Unlimited s)"
proof (induction f arbitrary: n s)
  case (Suc f)
  show ?case
    unfolding parse_elems.simps
    by (intro agrees_pbind_alloc)
       (auto simp: Let_def intro!: agrees_pbind [OF oom] agrees_pbind [OF Suc.IH])
qed simp

lemma members_agrees: "agrees (parse_members pv f (Limited n) s) (parse_members pv f Unlimited s)"
proof (induction f arbitrary: n s)
  case (Suc f)
  show ?case
    unfolding parse_members.simps
    by (intro agrees_pbind_alloc)
       (auto simp: Let_def intro!: agrees_pbind [OF parse_string_agrees] agrees_pbind [OF oom]
         agrees_pbind [OF Suc.IH])
qed simp

lemma array_agrees:
  "agrees (parse_array pv f (Limited n) item s) (parse_array pv f Unlimited item s)"
  by (auto simp: parse_array_def Let_def intro!: agrees_pbind [OF elems_agrees])

lemma object_agrees:
  "agrees (parse_object pv f (Limited n) item s) (parse_object pv f Unlimited item s)"
  by (auto simp: parse_object_def Let_def intro!: agrees_pbind [OF members_agrees])

end

lemma parse_value_agrees:
  "agrees (parse_value f (Limited n) item s) (parse_value f Unlimited item s)"
proof (induction f arbitrary: n item s)
  case (Suc f)
  then have contract: "oom_parser (parse_value f)"
    by unfold_locales
  show ?case
    using parse_string_agrees oom_parser.array_agrees [OF contract]
      oom_parser.object_agrees [OF contract]
    by (auto intro!: agrees_pbind_res)
qed simp

interpretation vo: oom_parser "parse_value f" for f
  by unfold_locales (rule parse_value_agrees)

lemma ParseWithOpts_agrees:
  "agrees (cJSON_ParseWithOpts (Limited n) s b) (cJSON_ParseWithOpts Unlimited s b)"
  unfolding cJSON_ParseWithOpts_def
  by (intro agrees_pbind_alloc) (auto simp: Let_def intro!: agrees_pbind [OF parse_value_agrees])

section \<open>String literals\<close>

subsection \<open>UTF-8\<close>

text \<open>The encoding of the Unicode standard, by division.\<close>

definition utf8_spec :: "nat \<Rightarrow> nat list" where
  "utf8_spec n =
     (if n < 0x80 then [n]
      else if n < 0x800 then [0xC0 + n div 64, 0x80 + n mod 64]
      else if n < 0x10000 then [0xE0 + n div 4096, 0x80 + n div 64 mod 64, 0x80 + n mod 64]
      else [0xF0 + n div 262144, 0x80 + n div 4096 mod 64, 0x80 + n div 64 mod 64,
            0x80 + n mod 64])"

lemma or_shifted_nat:
  assumes "x < 2 ^ k" shows "x OR (2 ^ k * y) = x + 2 ^ k * (y :: nat)"
proof -
  have "x OR push_bit k y = x + push_bit k y"
  proof (rule disjunctive_add [symmetric])
    fix n
    have "take_bit k x = x" using assms by (simp add: take_bit_eq_mod)
    then show "\<not> bit x n \<or> \<not> bit (push_bit k y) n"
      by (metis bit_push_bit_iff_nat bit_take_bit_iff linorder_not_less)
  qed
  then show ?thesis by (simp add: push_bit_eq_mult mult.commute)
qed

lemma lead_byte:
  assumes "unat (w :: u32) < 2 ^ k" and "unat v = 2 ^ k * y"
  shows "unat (w OR v) = unat w + unat v"
  using or_shifted_nat [OF assms(1), of y] assms(2) by (simp add: unsigned_or_eq)

lemma cont_bits: "bit (0xBF :: nat) i = (i < 6 \<or> i = 7)" "bit (0x80 :: nat) i = (i = 7)"
proof -
  have "(0xBF :: nat) = mask 6 OR push_bit 7 1" and "(0x80 :: nat) = push_bit 7 1"
    by (simp_all add: mask_eq_exp_minus_1)
  then show "bit (0xBF :: nat) i = (i < 6 \<or> i = 7)" and "bit (0x80 :: nat) i = (i = 7)"
    by (auto simp only: bit_or_iff bit_mask_iff bit_push_bit_iff_nat bit_1_iff possible_bit_nat)
qed

lemma cont_nat: "(n OR 0x80) AND 0xBF = 0x80 + n mod (64 :: nat)"
proof -
  have "(n OR 0x80) AND 0xBF = (n AND mask 6) OR (0x80 :: nat)"
    by (rule bit_eqI) (auto simp: cont_bits bit_simps)
  also have "n AND mask 6 = n mod 64" by (simp add: take_bit_eq_mask [symmetric] take_bit_eq_mod)
  also have "(n mod 64) OR 0x80 = n mod 64 + (0x80 :: nat)"
    using or_shifted_nat [of "n mod 64" 6 2] by simp
  finally show ?thesis by simp
qed

lemma cont_byte: "unat (((w :: u32) OR 0x80) AND 0xBF) = 0x80 + unat w mod 64"
  by (simp add: unsigned_and_eq unsigned_or_eq cont_nat)

lemma unat_drop_u32: "unat (drop_bit n (w :: u32)) = unat w div 2 ^ n"
  by (rule trans [OF unat_drop_bit_eq]) (simp only: drop_bit_eq_div)

text \<open>A \<open>\u\<close> escape becomes the UTF-8 encoding of its code point.\<close>

theorem utf8_encode_spec:
  assumes "unat uc < 0x110000"
  shows "map code (utf8_encode uc) = utf8_spec (unat uc)"
proof -
  let ?n = "unat uc"
  have c: "code (store_char ((drop_bit k uc OR 0x80) AND 0xBF)) = 0x80 + ?n div 2 ^ k mod 64" for k
  proof -
    have "?n div 2 ^ k mod 64 < 64" by simp
    then show ?thesis
      by (simp only: store_char_def cont_byte unat_drop_u32 code_char_of)
  qed
  have l: "code (store_char (drop_bit k uc OR v)) = ?n div 2 ^ k + unat v"
    if "?n div 2 ^ k < 2 ^ j" "unat v = 2 ^ j * y" "2 ^ j * (y + 1) \<le> 256" for k j y and v :: u32
    using lead_byte [of "drop_bit k uc" j v y] that
    by (simp add: store_char_def unat_drop_u32)
  have d: "drop_bit 6 (drop_bit 6 uc) = drop_bit 12 uc"
    "drop_bit 6 (drop_bit 12 uc) = drop_bit 18 uc" by simp_all
  consider "?n < 0x80" | "0x80 \<le> ?n" "?n < 0x800" | "0x800 \<le> ?n" "?n < 0x10000" | "0x10000 \<le> ?n"
    by linarith
  then show ?thesis
  proof cases
    case 1
    then show ?thesis using l [of 0 7 0 0]
      by (simp add: utf8_encode_def utf8_spec_def word_less_nat_alt Let_def store_char_def)
  next
    case 2
    then show ?thesis using l [of 6 5 "0xC0" 6] c [of 0]
      by (simp add: utf8_encode_def utf8_spec_def word_less_nat_alt Let_def)
  next
    case 3
    then show ?thesis using l [of 12 4 "0xE0" 14] c [of 6] c [of 0]
      by (simp add: utf8_encode_def utf8_spec_def word_less_nat_alt Let_def d)
  next
    case 4
    then show ?thesis using l [of 18 3 "0xF0" 30] c [of 12] c [of 6] c [of 0] assms
      by (simp add: utf8_encode_def utf8_spec_def word_less_nat_alt Let_def d)
  qed
qed

theorem utf8_encode_spec_witness:
  "map code (utf8_encode 0x20AC) = utf8_spec (unat (0x20AC :: u32))"
  by (rule utf8_encode_spec) simp

subsection \<open>Staying inside the buffers\<close>

text \<open>
  A literal whose escapes are complete: a character after every backslash and four hex
  digits after every \<open>\u\<close>.
\<close>

definition hex4_ok :: "string \<Rightarrow> bool" where
  "hex4_ok s \<longleftrightarrow> 4 \<le> length s \<and> (\<forall>c \<in> set (take 4 s). hex_val c \<noteq> None)"

function well_escaped :: "string \<Rightarrow> bool" where
  "well_escaped [] = True"
| "well_escaped (c # s) =
     (if c = CHR 0x22 \<or> c = NUL then True
      else if c \<noteq> CHR 0x5C then well_escaped s
      else (case s of
              [] \<Rightarrow> False
            | e # s' \<Rightarrow> if e = CHR ''u'' then hex4_ok s' \<and> well_escaped (drop 4 s')
                        else well_escaped s'))"
  by pat_completeness auto
termination
  by (relation "measure length") auto

lemma hex4_okE:
  assumes "hex4_ok s"
  obtains a b c d r where "s = a # b # c # d # r" "hex_val a \<noteq> None" "hex_val b \<noteq> None"
    "hex_val c \<noteq> None" "hex_val d \<noteq> None"
proof -
  from assms obtain a s1 where 1: "s = a # s1" by (cases s) (auto simp: hex4_ok_def)
  with assms obtain b s2 where 2: "s1 = b # s2" by (cases s1) (auto simp: hex4_ok_def)
  with assms 1 obtain c s3 where 3: "s2 = c # s3" by (cases s2) (auto simp: hex4_ok_def)
  with assms 1 2 obtain d r where 4: "s3 = d # r" by (cases s3) (auto simp: hex4_ok_def)
  with assms 1 2 3 that show thesis by (simp add: hex4_ok_def)
qed

lemma hex_val_plain:
  assumes "hex_val c \<noteq> None"
  shows "c \<noteq> CHR 0x22" "c \<noteq> NUL" "c \<noteq> CHR 0x5C"
  using assms by (auto simp: hex_val_def)

lemma scan_len_hex: "hex_val c \<noteq> None \<Longrightarrow> scan_len (c # s) = rmap Suc (scan_len s)"
  using hex_val_plain [of c] by simp

lemma scan_len_hex4:
  assumes "hex4_ok s" shows "scan_len s = rmap (\<lambda>n. n + 4) (scan_len (drop 4 s))"
proof -
  from assms obtain a b c d r where s: "s = a # b # c # d # r" and
    "hex_val a \<noteq> None" "hex_val b \<noteq> None" "hex_val c \<noteq> None" "hex_val d \<noteq> None"
    by (rule hex4_okE)
  then have "scan_len s = rmap Suc (rmap Suc (rmap Suc (rmap Suc (scan_len r))))"
    by (simp add: scan_len_hex del: scan_len.simps not_None_eq)
  then show ?thesis using s by (cases "scan_len r") simp_all
qed

lemma length_utf8_encode: "length (utf8_encode uc) \<le> 4"
  by (simp add: utf8_encode_def Let_def)

lemma parse_unicode_ok:
  assumes "hex4_ok s" and "well_escaped (drop 4 s)"
  shows "\<exists>u k. parse_unicode s = Inr (u, drop k s) \<and> well_escaped (drop k s)
    \<and> (\<forall>n. scan_len (drop k s) = Inr n \<longrightarrow>
         (\<exists>m. scan_len s = Inr m \<and> length u + n \<le> Suc m))"
proof -
  have l4: "4 \<le> length s" using assms(1) by (simp add: hex4_ok_def)
  have one: "\<exists>u k. rmap (Pair v) (skip_chars 4 s) = Inr (u, drop k s) \<and> well_escaped (drop k s)
    \<and> (\<forall>n. scan_len (drop k s) = Inr n \<longrightarrow> (\<exists>m. scan_len s = Inr m \<and> length u + n \<le> Suc m))"
    if "length v \<le> 4" for v
    by (rule exI [of _ v], rule exI [of _ 4])
       (use l4 assms that in \<open>auto simp: skip_chars_def scan_len_hex4\<close>)
  have two: "\<exists>u k. rmap (Pair v) (skip_chars 10 s) = Inr (u, drop k s) \<and> well_escaped (drop k s)
    \<and> (\<forall>n. scan_len (drop k s) = Inr n \<longrightarrow> (\<exists>m. scan_len s = Inr m \<and> length u + n \<le> Suc m))"
    if v: "length v \<le> 4" and p: "peek (drop 4 s) = CHR 0x5C" "peek (drop 5 s) = CHR ''u''" for v
  proof -
    obtain t where t: "drop 4 s = CHR 0x5C # CHR ''u'' # t"
    proof -
      have "drop 5 s = tl (drop 4 s)" by (simp add: tl_drop drop_Suc [symmetric] numeral_eq_Suc)
      then show thesis using p that
        by (cases "drop 4 s"; cases "drop 5 s") (auto simp: peek_def)
    qed
    have h: "hex4_ok t" "well_escaped (drop 4 t)" using assms(2) t by auto
    have d: "drop 10 s = drop 4 t"
    proof -
      have "drop 10 s = drop 6 (drop 4 s)" by simp
      then show ?thesis using t by simp
    qed
    have "4 \<le> length t" using h(1) by (simp add: hex4_ok_def)
    then have "10 \<le> length s" using arg_cong [OF t, of length] by simp
    with v h t show ?thesis
      by (intro exI [of _ v] exI [of _ 10])
         (auto simp: skip_chars_def scan_len_hex4 [OF assms(1)] scan_len_hex4 [OF h(1)] d)
  qed
  show ?thesis
    unfolding parse_unicode_def Let_def
    using one [of "[]"] one [OF length_utf8_encode] two [of "[]"] two [OF length_utf8_encode]
    by auto
qed

lemma str_body_fits:
  "well_escaped s \<Longrightarrow>
   \<exists>len out r. scan_len s = Inr len \<and> str_body s = Inr (out, r) \<and> length out \<le> len"
proof (induction s rule: length_induct)
  case (1 s)
  show ?case
  proof (cases s)
    case (Cons c t)
    consider "c = CHR 0x22 \<or> c = NUL" | "c \<noteq> CHR 0x22" "c \<noteq> NUL" "c \<noteq> CHR 0x5C"
      | e t' where "c = CHR 0x5C" "t = e # t'"
      using "1.prems" Cons by (cases t) (auto split: if_splits)
    then show ?thesis
    proof cases
      case 2
      with Cons "1.prems" "1.IH" have "\<exists>len out r. scan_len t = Inr len \<and> str_body t = Inr (out, r)
          \<and> length out \<le> len" by auto
      with 2 Cons show ?thesis by auto
    next
      case 3
      show ?thesis
      proof (cases "e = CHR ''u''")
        case True
        with 3 Cons "1.prems" have h: "hex4_ok t'" "well_escaped (drop 4 t')" by auto
        from parse_unicode_ok [OF h] obtain u k where u: "parse_unicode t' = Inr (u, drop k t')"
          and w: "well_escaped (drop k t')" and n: "\<And>n. scan_len (drop k t') = Inr n \<Longrightarrow>
            \<exists>m. scan_len t' = Inr m \<and> length u + n \<le> Suc m" by blast
        have "length (drop k t') < length s" using Cons 3 by simp
        with w "1.IH" obtain len out r where i: "scan_len (drop k t') = Inr len"
          "str_body (drop k t') = Inr (out, r)" "length out \<le> len" by blast
        from n [OF i(1)] i u True 3 Cons show ?thesis by auto
      next
        case False
        with 3 Cons "1.prems" "1.IH" have "\<exists>len out r. scan_len t' = Inr len
            \<and> str_body t' = Inr (out, r) \<and> length out \<le> len" by auto
        with 3 Cons False show ?thesis by auto
      qed
    qed (use Cons in auto)
  qed simp
qed

text \<open>
  C25. A string literal whose escapes are complete is parsed without touching memory outside
  the text or the out buffer, whatever follows.
\<close>

theorem parse_string_safe:
  assumes "peek s = CHR 0x22" and "well_escaped (tl s)"
  shows "\<exists>out r. parse_string Unlimited item s =
    Done (CJ cJSON_String (Some out) (cvalueint item) (cvaluedouble item) (cstring item)
            (cchild item), r, Unlimited)"
proof -
  obtain len out r where "scan_len (tl s) = Inr len" "str_body (tl s) = Inr (out, r)"
    "length out \<le> len"
    using str_body_fits [OF assms(2)] by blast
  with assms(1) show ?thesis by (simp add: parse_string_def)
qed

theorem parse_string_safe_witness:
  "\<exists>out r. parse_string Unlimited new_item (CHR 0x22 # ''on'' @ [CHR 0x22]) =
    Done (CJ cJSON_String (Some out) (cvalueint new_item) (cvaluedouble new_item)
            (cstring new_item) (cchild new_item), r, Unlimited)"
  by (rule parse_string_safe) simp_all

lemma scan_len_run: "scan_len (replicate n (CHR ''A'')) = Inr n"
  by (induction n) auto

lemma str_body_run: "str_body (replicate n (CHR ''A'')) = Inr (replicate n (CHR ''A''), [])"
  by (induction n) auto

text \<open>
  An incomplete escape overflows the buffer of a string literal: for the literal \<open>"\u"\<close> followed by any run of
  more than four \<open>A\<close>, the first loop stops at the second quote and allocates two bytes, the
  second loop jumps over that quote and writes everything behind it.  The sender of a packet
  chooses how much.
\<close>

theorem parse_string_overflow:
  "parse_string Unlimited item
     ([CHR 0x22, CHR 0x5C, CHR ''u'', CHR 0x22] @ replicate (n + 5) (CHR ''A'')) =
   Fault BufferOverflow"
proof -
  have "parse_unicode (CHR 0x22 # replicate (n + 5) (CHR ''A'')) =
      Inr ([], replicate (n + 2) (CHR ''A''))"
    by (simp add: parse_unicode_def parse_hex4_def hex_val_def skip_chars_def)
  moreover have "str_body (replicate (n + 2) (CHR ''A'')) = Inr (replicate (n + 2) (CHR ''A''), [])"
    by (rule str_body_run)
  ultimately show ?thesis by (simp add: parse_string_def)
qed

text \<open>A lone backslash at the end of the text moves the scan past the terminating NUL.\<close>

theorem parse_string_overread:
  assumes "NUL \<notin> set s" "CHR 0x22 \<notin> set s" "CHR 0x5C \<notin> set s"
  shows "parse_string m item (CHR 0x22 # s @ [CHR 0x5C]) = Fault OutOfBounds"
proof -
  have "scan_len (s @ [CHR 0x5C]) = Inl OutOfBounds"
    using assms by (induction s) auto
  then show ?thesis by (simp add: parse_string_def)
qed

theorem parse_string_overread_witness:
  "parse_string Unlimited new_item (CHR 0x22 # ''ab'' @ [CHR 0x5C]) = Fault OutOfBounds"
  by (rule parse_string_overread) simp_all

section \<open>The parser as a whole\<close>

text \<open>
  C26. The parser always returns: with the fuel \<open>cJSON_ParseWithOpts\<close> takes, the model's fuel
  is never what stops it, on any text and any heap.
\<close>

theorem parse_terminates: "cJSON_ParseWithOpts m s b \<noteq> NoFuel"
  by (rule ParseWithOpts_not_NoFuel)

text \<open>
  C27. Nothing leaks: \<open>cJSON_Delete\<close> on a parsed tree frees exactly as many blocks as
  parsing it allocated.
\<close>

theorem parse_no_leak:
  assumes "cJSON_ParseWithOpts m s b = Done (c, r, m')"
  shows "allocs (cJSON_Delete [c]) m = Some m'"
proof -
  from assms obtain m1 r' where a: "alloc m = Some m1"
    and v: "parse_value (parse_fuel s) m1 new_item (skip s) = Done (c, r', m')"
    by (auto simp: cJSON_ParseWithOpts_def Let_def split: if_splits)
  from parse_value_accounts [OF v] a show ?thesis by (simp add: Delete_Cons)
qed

theorem parse_no_leak_witness:
  "allocs (cJSON_Delete [set_ctype cJSON_NULL new_item]) (Limited 3) = Some (Limited 2)"
proof -
  have "cJSON_ParseWithOpts (Limited 3) ''null'' False =
      Done (set_ctype cJSON_NULL new_item, [], Limited 2)"
    by (simp add: cJSON_ParseWithOpts_def of_alloc_def parse_fuel_def starts_with_def set_lit_def
        numeral_eq_Suc)
  from parse_no_leak [OF this] show ?thesis .
qed

text \<open>
  C36. Running out of memory is clean: with room for \<open>n\<close> blocks only, the parser gives what it
  would give on an unlimited heap, or returns NULL with the error pointer still 0.
\<close>

theorem parse_out_of_memory:
  "cJSON_ParseWithOpts (Limited n) s b = Failed None \<or>
   (case cJSON_ParseWithOpts Unlimited s b of
      Done (c, r, _) \<Rightarrow> \<exists>k. cJSON_ParseWithOpts (Limited n) s b = Done (c, r, Limited k)
    | other \<Rightarrow> cJSON_ParseWithOpts (Limited n) s b = other)"
  using ParseWithOpts_agrees [of n s b] by (auto simp: agrees_def split: pr.splits prod.splits)

text \<open>The end pointer points into the text, past what was consumed.\<close>

theorem parse_end_pointer:
  assumes "cJSON_ParseWithOpts m s b = Done (c, r, m')"
  shows "strict_suffix r s"
proof -
  from assms obtain m1 r' where
    v: "parse_value (parse_fuel s) m1 new_item (skip s) = Done (c, r', m')"
    and r: "r = r' \<or> r = skip r'"
    by (auto simp: cJSON_ParseWithOpts_def Let_def split: if_splits)
  have "suffix r r'" using r suffix_skip [of r'] by auto
  then show ?thesis
    using parse_value_consumes [OF v] suffix_skip [of s]
    by (meson suffix_order.le_less_trans suffix_order.less_le_trans)
qed

theorem parse_end_pointer_witness: "strict_suffix '',1'' ''null,1''"
proof -
  have "cJSON_ParseWithOpts Unlimited ''null,1'' False =
      Done (set_ctype cJSON_NULL new_item, '',1'', Unlimited)"
    by (simp add: cJSON_ParseWithOpts_def parse_fuel_def starts_with_def set_lit_def
        numeral_eq_Suc)
  from parse_end_pointer [OF this] show ?thesis .
qed

end
