(* ===== verification/CJSON_Print.thy ===== *)
theory CJSON_Print
  imports CJSON
begin

text \<open>
  The printer of \<open>src/cJSON/cJSON.c\<close> without a \<open>printbuffer\<close>, the one \<open>cJSON_Print\<close> and
  \<open>cJSON_PrintUnformatted\<close> use, and the arithmetic of the buffered one.

  A call returns a string or NULL and the heap that is left, or meets a fault.  Every string
  is written into a block whose size the code computed beforehand; \<open>fill\<close> is that block, and
  a text that does not fit it with its NUL is the fault \<open>BufferOverflow\<close>.
\<close>

type_synonym pout = "(string option \<times> mem) res"

definition fill :: "nat \<Rightarrow> string \<Rightarrow> mem \<Rightarrow> pout" where
  "fill cap s m =
     (case alloc m of
        None \<Rightarrow> Inr (None, m)
      | Some m' \<Rightarrow> if length s < cap then Inr (Some s, m') else Inl BufferOverflow)"

text \<open>\<open>cJSON_strdup\<close> of a string that is not NULL.\<close>

definition cJSON_strdup :: "string \<Rightarrow> mem \<Rightarrow> pout" where
  "cJSON_strdup s m = fill (length s + 1) s m"

section \<open>Numbers\<close>

definition DBL_EPSILON :: rat where "DBL_EPSILON = 1 / 2 ^ 52"

text \<open>The constants \<open>1.0e-6\<close> and \<open>1.0e60\<close> are the doubles next to these numbers; both are a little smaller.\<close>

definition DBL_1e_6 :: rat where "DBL_1e_6 = 4722366482869645 / 2 ^ 72"
definition DBL_1e60 :: rat where "DBL_1e60 = 5605193857299268 * 2 ^ 147"

definition number_text :: "rat \<Rightarrow> string" where
  "number_text d =
     (if \<bar>dbl_add (of_int \<lfloor>d\<rfloor>) (- d)\<bar> \<le> DBL_EPSILON \<and> \<bar>d\<bar> < DBL_1e60 then fmt_f0 d
      else if \<bar>d\<bar> < DBL_1e_6 \<or> \<bar>d\<bar> > 10 ^ 9 then fmt_e d
      else fmt_f d)"

definition print_number :: "cjson \<Rightarrow> mem \<Rightarrow> pout" where
  "print_number item m =
     (let d = cvaluedouble item
      in if d = 0 then fill 2 ''0'' m
         else if \<bar>dbl_add (of_int (cvalueint item)) (- d)\<bar> \<le> DBL_EPSILON
                 \<and> d \<le> of_int INT_MAX \<and> of_int INT_MIN \<le> d
              then fill 21 (dec_int (cvalueint item)) m
         else fill 64 (number_text d) m)"

section \<open>Strings\<close>

definition needs_escape :: "char \<Rightarrow> bool" where
  "needs_escape c \<longleftrightarrow> (0 < code c \<and> code c < 32) \<or> c = CHR 0x22 \<or> c = CHR 0x5C"

text \<open>What the counting loop adds for a character, and what the writing loop writes for it.\<close>

definition escaped_len :: "char \<Rightarrow> nat" where
  "escaped_len c =
     (if c \<in> {CHR 0x22, CHR 0x5C, CHR 0x08, CHR 0x0C, CHR 0x0A, CHR 0x0D, CHR 0x09} then 2
      else if code c < 32 then 6 else 1)"

definition escape_char :: "char \<Rightarrow> string" where
  "escape_char c =
     (if 31 < code c \<and> c \<noteq> CHR 0x22 \<and> c \<noteq> CHR 0x5C then [c]
      else CHR 0x5C #
        (if c = CHR 0x5C then [CHR 0x5C] else if c = CHR 0x22 then [CHR 0x22]
         else if c = CHR 0x08 then ''b'' else if c = CHR 0x0C then ''f''
         else if c = CHR 0x0A then ''n'' else if c = CHR 0x0D then ''r''
         else if c = CHR 0x09 then ''t'' else CHR ''u'' # hex4 (code c)))"

definition quoted :: "string \<Rightarrow> string" where
  "quoted s = CHR 0x22 # s @ [CHR 0x22]"

definition print_string_ptr :: "string option \<Rightarrow> mem \<Rightarrow> pout" where
  "print_string_ptr str m =
     rbind (deref str) (\<lambda>s.
       if \<not> list_ex needs_escape s then fill (length s + 3) (quoted s) m
       else fill (sum_list (map escaped_len s) + 3) (quoted (concat (map escape_char s))) m)"

definition print_string :: "cjson \<Rightarrow> mem \<Rightarrow> pout" where
  "print_string item m = print_string_ptr (cvaluestring item) m"

section \<open>Arrays, objects and values\<close>

definition tabs :: "nat \<Rightarrow> string" where
  "tabs n = replicate n (CHR 0x09)"

text \<open>The array text: the entries with \<open>,\<close> or \<open>, \<close> between them.\<close>

fun join_entries :: "bool \<Rightarrow> string list \<Rightarrow> string" where
  "join_entries fmt [] = []"
| "join_entries fmt [e] = e"
| "join_entries fmt (e # es) = e @ '','' @ (if fmt then '' '' else []) @ join_entries fmt es"

definition array_len :: "bool \<Rightarrow> string list \<Rightarrow> nat" where
  "array_len fmt es = 5 + sum_list (map (\<lambda>e. length e + 2 + (if fmt then 1 else 0)) es)"

definition array_text :: "bool \<Rightarrow> string list \<Rightarrow> string" where
  "array_text fmt es = ''['' @ join_entries fmt es @ '']''"

text \<open>The member lines of an object at the inner depth.\<close>

fun join_members :: "nat \<Rightarrow> bool \<Rightarrow> (string \<times> string) list \<Rightarrow> string" where
  "join_members depth fmt [] = []"
| "join_members depth fmt ((n, e) # ms) =
     (if fmt then tabs depth else []) @ n @ '':'' @ (if fmt then [CHR 0x09] else []) @ e
     @ (if ms = [] then [] else '','') @ (if fmt then [CHR 0x0A] else [])
     @ join_members depth fmt ms"

definition object_len :: "nat \<Rightarrow> bool \<Rightarrow> (string \<times> string) list \<Rightarrow> nat" where
  "object_len depth fmt ms =
     7 + (if fmt then depth else 0)
     + sum_list (map (\<lambda>(n, e). length e + length n + 2 + (if fmt then 2 + depth else 0)) ms)"

definition object_text :: "nat \<Rightarrow> bool \<Rightarrow> (string \<times> string) list \<Rightarrow> string" where
  "object_text depth fmt ms =
     ''{'' @ (if fmt then [CHR 0x0A] else []) @ join_members depth fmt ms
     @ (if fmt then tabs (depth - 1) else []) @ ''}''"

definition empty_object_text :: "nat \<Rightarrow> bool \<Rightarrow> string" where
  "empty_object_text depth fmt =
     ''{'' @ (if fmt then CHR 0x0A # tabs (depth - 1) else []) @ ''}''"

text \<open>All names and entries, if no one is NULL.\<close>

fun all_some :: "(string option \<times> string option) list \<Rightarrow> (string \<times> string) list option" where
  "all_some [] = Some []"
| "all_some ((Some n, Some e) # ms) = map_option ((#) (n, e)) (all_some ms)"
| "all_some (_ # ms) = None"

text \<open>
  The routines for arrays and objects, given the loop that collects the entries of the
  children.  The loop of an array stops at a NULL entry, the loop of an object goes on.
\<close>

definition print_array ::
  "bool \<Rightarrow> cjson list \<Rightarrow> (mem \<Rightarrow> (string list option \<times> mem) res) \<Rightarrow> mem \<Rightarrow> pout" where
  "print_array fmt cs entries m =
     (if cs = [] then fill 3 ''[]'' m
      else (case alloc m of
              None \<Rightarrow> Inr (None, m)
            | Some m1 \<Rightarrow>
                rbind (entries m1) (\<lambda>(es, m2).
                  (case es of
                     None \<Rightarrow> Inr (None, m2)
                   | Some es' \<Rightarrow> fill (array_len fmt es') (array_text fmt es') m2))))"

definition print_object ::
  "nat \<Rightarrow> bool \<Rightarrow> cjson list \<Rightarrow> (mem \<Rightarrow> ((string option \<times> string option) list \<times> mem) res)
   \<Rightarrow> mem \<Rightarrow> pout" where
  "print_object depth fmt cs members m =
     (if cs = [] then fill (if fmt then depth + 4 else 3) (empty_object_text depth fmt) m
      else (case alloc m of
              None \<Rightarrow> Inr (None, m)
            | Some m0 \<Rightarrow>
                (case alloc m0 of
                   None \<Rightarrow> Inr (None, m0)
                 | Some m1 \<Rightarrow>
                     rbind (members m1) (\<lambda>(ms, m2).
                       (case all_some ms of
                          None \<Rightarrow> Inr (None, m2)
                        | Some ms' \<Rightarrow>
                            fill (object_len (Suc depth) fmt ms')
                                 (object_text (Suc depth) fmt ms') m2)))))"

text \<open>One turn of each loop, given what it does with the child and with the other children.\<close>

definition elem_turn ::
  "(mem \<Rightarrow> pout) \<Rightarrow> (mem \<Rightarrow> (string list option \<times> mem) res) \<Rightarrow> mem
   \<Rightarrow> (string list option \<times> mem) res" where
  "elem_turn pv rest m =
     rbind (pv m) (\<lambda>(e, m1).
       (case e of
          None \<Rightarrow> Inr (None, m1)
        | Some e' \<Rightarrow> rmap (\<lambda>(es, m2). (map_option ((#) e') es, m2)) (rest m1)))"

definition member_turn ::
  "string option \<Rightarrow> (mem \<Rightarrow> pout)
   \<Rightarrow> (mem \<Rightarrow> ((string option \<times> string option) list \<times> mem) res) \<Rightarrow> mem
   \<Rightarrow> ((string option \<times> string option) list \<times> mem) res" where
  "member_turn nm pv rest m =
     rbind (print_string_ptr nm m) (\<lambda>(n, m1).
     rbind (pv m1) (\<lambda>(e, m2). rmap (\<lambda>(ms, m3). ((n, e) # ms, m3)) (rest m2)))"

fun print_value :: "cjson \<Rightarrow> nat \<Rightarrow> bool \<Rightarrow> mem \<Rightarrow> pout"
  and print_elems :: "cjson list \<Rightarrow> nat \<Rightarrow> bool \<Rightarrow> mem \<Rightarrow> (string list option \<times> mem) res"
  and print_members ::
    "cjson list \<Rightarrow> nat \<Rightarrow> bool \<Rightarrow> mem \<Rightarrow> ((string option \<times> string option) list \<times> mem) res" where
  "print_value (CJ ty vs vi vd nm cs) depth fmt m =
     (let k = ty AND 255
      in if k = cJSON_NULL then cJSON_strdup ''null'' m
         else if k = cJSON_False then cJSON_strdup ''false'' m
         else if k = cJSON_True then cJSON_strdup ''true'' m
         else if k = cJSON_Number then print_number (CJ ty vs vi vd nm cs) m
         else if k = cJSON_String then print_string (CJ ty vs vi vd nm cs) m
         else if k = cJSON_Array
         then print_array fmt cs (\<lambda>m'. print_elems cs (Suc depth) fmt m') m
         else if k = cJSON_Object
         then print_object depth fmt cs (\<lambda>m'. print_members cs (Suc depth) fmt m') m
         else Inr (None, m))"
| "print_elems [] depth fmt m = Inr (Some [], m)"
| "print_elems (c # cs) depth fmt m =
     elem_turn (\<lambda>m'. print_value c depth fmt m') (\<lambda>m'. print_elems cs depth fmt m') m"
| "print_members [] depth fmt m = Inr ([], m)"
| "print_members (c # cs) depth fmt m =
     member_turn (cstring c) (\<lambda>m'. print_value c depth fmt m')
       (\<lambda>m'. print_members cs depth fmt m') m"

definition cJSON_Print :: "cjson option \<Rightarrow> mem \<Rightarrow> pout" where
  "cJSON_Print item m =
     (case item of None \<Rightarrow> Inr (None, m) | Some c \<Rightarrow> print_value c 0 True m)"

definition cJSON_PrintUnformatted :: "cjson option \<Rightarrow> mem \<Rightarrow> pout" where
  "cJSON_PrintUnformatted item m =
     (case item of None \<Rightarrow> Inr (None, m) | Some c \<Rightarrow> print_value c 0 False m)"

end
