(* ===== verification/CJSON_PrintProps.thy ===== *)
theory CJSON_PrintProps
  imports CJSON_Print
begin

text \<open>
  What the printer promises: every block it computes a size for is large enough, so printing
  a tree never writes outside one, and the text is the one a direct rendering of the tree
  gives.
\<close>

section \<open>Sizes\<close>

subsection \<open>Numbers\<close>

lemma length_dec_nat_bounds: "0 < n \<Longrightarrow> 10 ^ (length (dec_nat n) - 1) \<le> n"
proof (induction n rule: dec_nat.induct)
  case (1 n)
  show ?case
  proof (cases "n < 10")
    case True
    with "1.prems" show ?thesis by (simp add: dec_nat_small)
  next
    case False
    then have ih: "10 ^ (length (dec_nat (n div 10)) - 1) \<le> n div 10" using "1.IH" by simp
    have "0 < length (dec_nat (n div 10))" by simp
    then have "10 ^ length (dec_nat (n div 10)) = 10 * 10 ^ (length (dec_nat (n div 10)) - 1)"
      by (metis Suc_diff_1 power_Suc)
    also have "\<dots> \<le> n" using ih by linarith
    finally show ?thesis using False by (subst dec_nat.simps) simp
  qed
qed

lemma length_dec_nat_upper: "n < 10 ^ length (dec_nat n)"
proof (induction n rule: dec_nat.induct)
  case (1 n)
  show ?case
  proof (cases "n < 10")
    case True
    then show ?thesis by (simp add: dec_nat_small)
  next
    case False
    with 1 have "n div 10 < 10 ^ length (dec_nat (n div 10))" by simp
    then have "n < 10 * 10 ^ length (dec_nat (n div 10))" by linarith
    with False show ?thesis by (subst dec_nat.simps) simp
  qed
qed

lemma length_dec_int:
  assumes "INT_MIN \<le> i" and "i \<le> INT_MAX" shows "length (dec_int i) < 21"
proof -
  have "nat i < 10 ^ 10" and "nat (- i) < 10 ^ 10"
    using assms by (auto simp: INT_MIN_def INT_MAX_def nat_less_iff)
  then have "length (dec_nat (nat i)) \<le> 10" and "length (dec_nat (nat (- i))) \<le> 10"
    using length_dec_nat_le by force+
  then show ?thesis by (simp add: dec_int_def)
qed

lemma round_half_even_le: "y \<le> of_int k \<Longrightarrow> round_half_even y \<le> k"
proof -
  assume y: "y \<le> of_int k"
  show ?thesis
  proof (cases "y = of_int k")
    case False
    with y have "\<lfloor>y\<rfloor> < k" by (simp add: floor_less_iff)
    then show ?thesis by (auto simp: round_half_even_def Let_def)
  qed simp
qed

lemma length_fmt_sign: "length (fmt_sign x) \<le> 1"
  by (simp add: fmt_sign_def)

lemma length_pad0: "length (pad0 w s) = max w (length s)"
  by (auto simp: pad0_def)

lemma length_six_places: "n < 10 ^ (6 + k) \<Longrightarrow> 0 < k \<Longrightarrow> length (six_places n) \<le> k + 7"
proof -
  assume n: "n < 10 ^ (6 + k)" and k: "0 < k"
  have "n div 10 ^ 6 < 10 ^ k"
    using n by (simp add: less_mult_imp_div_less power_add mult.commute)
  then have "length (dec_nat (n div 10 ^ 6)) \<le> k" using k by (rule length_dec_nat_le)
  moreover have "length (dec_nat (n mod 10 ^ 6)) \<le> 6" by (rule length_dec_nat_le) simp_all
  ultimately show ?thesis by (simp add: six_places_def length_pad0)
qed

lemma length_fmt_f0:
  assumes "\<bar>d\<bar> < 10 ^ 60" shows "length (fmt_f0 d) < 64"
proof -
  have "round_half_even \<bar>d\<bar> \<le> 10 ^ 60" using assms by (intro round_half_even_le) simp
  then have "nat (round_half_even \<bar>d\<bar>) < 10 ^ 61" by (simp add: nat_less_iff)
  then have "length (dec_nat (nat (round_half_even \<bar>d\<bar>))) \<le> 61" by (rule length_dec_nat_le) simp
  then show ?thesis using length_fmt_sign [of d] by (simp add: fmt_f0_def)
qed

lemma length_fmt_f:
  assumes "\<bar>d\<bar> \<le> 10 ^ 9" shows "length (fmt_f d) < 64"
proof -
  have "round_half_even (\<bar>d\<bar> * 10 ^ 6) \<le> 10 ^ 15" using assms by (intro round_half_even_le) simp
  then have "nat (round_half_even (\<bar>d\<bar> * 10 ^ 6)) < 10 ^ (6 + 10)" by (simp add: nat_less_iff)
  then have "length (six_places (nat (round_half_even (\<bar>d\<bar> * 10 ^ 6)))) \<le> 17"
    using length_six_places [of _ 10] by simp
  then show ?thesis using length_fmt_sign [of d] by (simp add: fmt_f_def)
qed

text \<open>The decimal exponent is right: the number is below the next power of ten.\<close>

lemma dec_exponent_less:
  assumes "x \<noteq> 0" shows "\<bar>x\<bar> < 10 powi (dec_exponent x + 1)"
proof (cases "1 \<le> \<bar>x\<bar>")
  case True
  let ?n = "nat \<lfloor>\<bar>x\<bar>\<rfloor>"
  have "?n < 10 ^ length (dec_nat ?n)" by (rule length_dec_nat_upper)
  then have "\<lfloor>\<bar>x\<bar>\<rfloor> < 10 ^ length (dec_nat ?n)" by (simp add: nat_less_iff)
  then have "\<bar>x\<bar> < of_int (10 ^ length (dec_nat ?n))" by (simp add: floor_less_iff)
  with True show ?thesis by (simp add: dec_exponent_def)
next
  case False
  let ?c = "\<lceil>1 / \<bar>x\<bar>\<rceil>" and ?L = "length (dec_nat (nat (\<lceil>1 / \<bar>x\<bar>\<rceil> - 1)))"
  have x: "0 < \<bar>x\<bar>" "\<bar>x\<bar> < 1" using False assms by auto
  then have "1 < 1 / \<bar>x\<bar>" by simp
  then have c: "2 \<le> ?c" by linarith
  have "10 ^ (?L - 1) \<le> nat (?c - 1)" by (rule length_dec_nat_bounds) (use c in simp)
  then have "10 ^ (?L - 1) \<le> ?c - 1" using c by (simp add: le_nat_iff)
  then have "10 ^ (?L - 1) < ?c" by simp
  then have "of_int (10 ^ (?L - 1)) < 1 / \<bar>x\<bar>" by (simp only: less_ceiling_iff)
  then have "\<bar>x\<bar> < inverse (10 ^ (?L - 1))" using x by (simp add: field_simps)
  moreover have "(10 :: rat) powi (- int ?L + 1) = inverse (10 ^ (?L - 1))"
  proof -
    have "0 < ?L" by simp
    then have "- int ?L + 1 = - int (?L - 1)" by linarith
    then show ?thesis by (simp only: power_int_minus power_int_of_nat)
  qed
  moreover have "dec_exponent x + 1 = - int ?L + 1" using False by (simp add: dec_exponent_def)
  ultimately show ?thesis by (simp only:)
qed

definition is_double :: "rat \<Rightarrow> bool" where
  "is_double d \<longleftrightarrow> d = 0 \<or> (1 / 2 ^ 1074 \<le> \<bar>d\<bar> \<and> \<bar>d\<bar> < 2 ^ 1024)"

lemma ceiling_bound_nat: "\<lceil>y\<rceil> \<le> int k \<Longrightarrow> 0 < k \<Longrightarrow> nat (\<lceil>y\<rceil> - 1) < k"
  by linarith

lemma dec_exponent_bound:
  assumes "is_double d" "d \<noteq> 0" shows "\<bar>dec_exponent d\<bar> \<le> 400"
proof (cases "1 \<le> \<bar>d\<bar>")
  case True
  have "\<lfloor>\<bar>d\<bar>\<rfloor> < 2 ^ 1024" using assms by (simp add: is_double_def floor_less_iff)
  then have "nat \<lfloor>\<bar>d\<bar>\<rfloor> < 2 ^ 1024" by (simp add: nat_less_iff)
  also have "(2 :: nat) ^ 1024 \<le> 10 ^ 400" by simp
  finally have "length (dec_nat (nat \<lfloor>\<bar>d\<bar>\<rfloor>)) \<le> 400" by (rule length_dec_nat_le) simp
  moreover have "0 < length (dec_nat (nat \<lfloor>\<bar>d\<bar>\<rfloor>))" by simp
  ultimately show ?thesis using True by (simp add: dec_exponent_def)
next
  case False
  have "1 / \<bar>d\<bar> \<le> 2 ^ 1074" using assms by (auto simp: is_double_def field_simps)
  then have "\<lceil>1 / \<bar>d\<bar>\<rceil> \<le> 2 ^ 1074" by (simp add: ceiling_le_iff)
  then have "nat (\<lceil>1 / \<bar>d\<bar>\<rceil> - 1) < 2 ^ 1074" using ceiling_bound_nat [of _ "2 ^ 1074"] by simp
  also have "(2 :: nat) ^ 1074 \<le> 10 ^ 400" by simp
  finally have "length (dec_nat (nat (\<lceil>1 / \<bar>d\<bar>\<rceil> - 1))) \<le> 400" by (rule length_dec_nat_le) simp
  with False show ?thesis by (simp add: dec_exponent_def)
qed

lemma length_fmt_e:
  assumes "is_double d" "d \<noteq> 0" shows "length (fmt_e d) < 64"
proof -
  let ?e = "dec_exponent d"
  define n where "n = nat (round_half_even (\<bar>d\<bar> / 10 powi (?e - 6)))"
  have "\<bar>d\<bar> / 10 powi (?e - 6) \<le> 10 powi (?e + 1) / 10 powi (?e - 6)"
    using dec_exponent_less [OF assms(2)] by (intro divide_right_mono) auto
  also have "\<dots> = (10 :: rat) powi (?e + 1 - (?e - 6))"
    by (subst power_int_diff) simp_all
  finally have "\<bar>d\<bar> / 10 powi (?e - 6) \<le> of_int (10 ^ 7)" by simp
  then have "n \<le> 10 ^ 7" using round_half_even_le [of _ "10 ^ 7"] by (simp add: n_def nat_le_iff)
  moreover define n' where "n' = (if n = 10 ^ 7 then 10 ^ 6 else n)"
  ultimately have "n' < 10 ^ (6 + 1)" by simp
  then have six: "length (six_places n') \<le> 8" using length_six_places [of n' 1] by simp
  define e' where "e' = (if n = 10 ^ 7 then ?e + 1 else ?e)"
  have "\<bar>e'\<bar> \<le> 401" using dec_exponent_bound [OF assms] by (auto simp: e'_def)
  then have "nat \<bar>e'\<bar> < 10 ^ 3" by (simp add: nat_less_iff)
  then have ex: "length (dec_nat (nat \<bar>e'\<bar>)) \<le> 3" by (rule length_dec_nat_le) simp
  define sg where "sg = (if e' < 0 then ''-'' else ''+'')"
  have "length sg = 1" and "length (pad0 2 (dec_nat (nat \<bar>e'\<bar>))) \<le> 3"
    using ex by (auto simp: sg_def length_pad0)
  moreover have "fmt_e d = fmt_sign d @ six_places n' @ ''e'' @ sg @ pad0 2 (dec_nat (nat \<bar>e'\<bar>))"
    by (simp add: fmt_e_def Let_def n'_def e'_def sg_def flip: n_def)
  ultimately show ?thesis using six length_fmt_sign [of d] by simp
qed

text \<open>The constants are the values the compiler rounds the literals to.\<close>

lemma bitlen_literals: "bitlen 1000000 = 20"
  "bitlen 1000000000000000000000000000000000000000000000000000000000000 = 200"
  by (simp add: bitlen.simps)+

lemma dbl_literals: "dbl_round (1 / 10 ^ 6) = DBL_1e_6" "dbl_round (10 ^ 60) = DBL_1e60"
proof -
  have q: "quotient_of (1 / 10 ^ 6 :: rat) = (1, 1000000)" by code_simp
  have "dbl_exp (1 / 10 ^ 6) = - 72"
    using q bitlen_literals(1) by (simp add: dbl_exp_def Let_def power_int_def power_one_over)
  moreover have "\<lfloor>73786976294838206464 / 15625 :: rat\<rfloor> = 4722366482869645"
    by (rule floor_unique) simp_all
  ultimately show "dbl_round (1 / 10 ^ 6) = DBL_1e_6"
    by (simp add: dbl_round_def DBL_1e_6_def round_half_even_def Let_def power_int_def power_one_over)
  have "quotient_of (10 ^ 60 :: rat) = (10 ^ 60, 1)" using quotient_of_rat_of_int [of "10 ^ 60"] by simp
  then have "dbl_exp (10 ^ 60) = 147"
    using bitlen_literals(2) by (simp add: dbl_exp_def Let_def power_int_def)
  moreover have "\<lfloor>867361737988403547205962240695953369140625 / 154742504910672534362390528 :: rat\<rfloor> = 5605193857299268"
    by (rule floor_unique) simp_all
  ultimately show "dbl_round (10 ^ 60) = DBL_1e60"
    by (simp add: dbl_round_def DBL_1e60_def round_half_even_def Let_def power_int_def)
qed
lemma DBL_1e60_less: "DBL_1e60 < 10 ^ 60"
  by (simp add: DBL_1e60_def)

lemma length_number_text:
  assumes "is_double d" "d \<noteq> 0" shows "length (number_text d) < 64"
  using length_fmt_f0 [of d] length_fmt_f [of d] length_fmt_e [OF assms] DBL_1e60_less
  by (simp add: number_text_def)

subsection \<open>Strings\<close>

lemma length_escape_char: "length (escape_char c) = escaped_len c"
  by (auto simp: escape_char_def escaped_len_def hex4_def)

lemma length_escaped: "length (concat (map escape_char s)) = sum_list (map escaped_len s)"
  by (induction s) (simp_all add: length_escape_char)

lemma escape_char_plain: "\<not> needs_escape c \<Longrightarrow> c \<noteq> NUL \<Longrightarrow> escape_char c = [c]"
proof -
  assume "\<not> needs_escape c" "c \<noteq> NUL"
  moreover from this have "0 < code c" by (metis code_NUL_iff gr0I)
  ultimately show ?thesis by (auto simp: needs_escape_def escape_char_def)
qed

lemma escaped_plain:
  "\<not> list_ex needs_escape s \<Longrightarrow> NUL \<notin> set s \<Longrightarrow> concat (map escape_char s) = s"
  by (induction s) (auto simp: escape_char_plain)

subsection \<open>Arrays and objects\<close>

lemma length_join_entries:
  "length (join_entries fmt es) \<le> sum_list (map (\<lambda>e. length e + 2 + (if fmt then 1 else 0)) es)"
  by (induction fmt es rule: join_entries.induct) auto

lemma length_array_text: "length (array_text fmt es) < array_len fmt es"
  using length_join_entries [of fmt es] by (simp add: array_text_def array_len_def)

lemma length_tabs [simp]: "length (tabs n) = n"
  by (simp add: tabs_def)

lemma length_join_members:
  "length (join_members depth fmt ms) \<le>
   sum_list (map (\<lambda>(n, e). length e + length n + 2 + (if fmt then 2 + depth else 0)) ms)"
  by (induction depth fmt ms rule: join_members.induct) auto

lemma length_object_text: "length (object_text depth fmt ms) < object_len depth fmt ms"
  using length_join_members [of depth fmt ms] by (cases fmt) (simp_all add: object_text_def object_len_def)

lemma length_empty_object_text:
  "length (empty_object_text depth fmt) < (if fmt then depth + 4 else 3)"
  by (cases fmt) (simp_all add: empty_object_text_def)

section \<open>The text of a tree\<close>

text \<open>What a tree should look like, without blocks, sizes or NULL.\<close>

definition string_text :: "string \<Rightarrow> string" where
  "string_text s = quoted (concat (map escape_char s))"

definition render_number :: "int \<Rightarrow> rat \<Rightarrow> string" where
  "render_number i d =
     (if d = 0 then ''0''
      else if \<bar>dbl_add (of_int i) (- d)\<bar> \<le> DBL_EPSILON \<and> d \<le> of_int INT_MAX \<and> of_int INT_MIN \<le> d
           then dec_int i
      else number_text d)"

fun render :: "nat \<Rightarrow> bool \<Rightarrow> cjson \<Rightarrow> string" where
  "render depth fmt (CJ ty vs vi vd nm cs) =
     (let k = ty AND 255
      in if k = cJSON_NULL then ''null'' else if k = cJSON_False then ''false''
         else if k = cJSON_True then ''true'' else if k = cJSON_Number then render_number vi vd
         else if k = cJSON_String then string_text (the vs)
         else if k = cJSON_Array
              then if cs = [] then ''[]'' else array_text fmt (map (render (Suc depth) fmt) cs)
         else if cs = [] then empty_object_text depth fmt
         else object_text (Suc depth) fmt
                (map (\<lambda>c. (string_text (the (cstring c)), render (Suc depth) fmt c)) cs))"

text \<open>
  A tree that can be printed: known kinds, numbers that an \<open>int\<close> and a \<open>double\<close> can hold,
  and strings and names that are there and contain no NUL.
\<close>

definition name_ok :: "cjson \<Rightarrow> bool" where
  "name_ok c \<longleftrightarrow> (case cstring c of None \<Rightarrow> False | Some s \<Rightarrow> NUL \<notin> set s)"

fun printable :: "cjson \<Rightarrow> bool" where
  "printable (CJ ty vs vi vd nm cs) \<longleftrightarrow>
     (let k = ty AND 255
      in k \<in> {cJSON_NULL, cJSON_False, cJSON_True}
         \<or> (k = cJSON_Number \<and> INT_MIN \<le> vi \<and> vi \<le> INT_MAX \<and> is_double vd)
         \<or> (k = cJSON_String \<and> (case vs of None \<Rightarrow> False | Some s \<Rightarrow> NUL \<notin> set s))
         \<or> (k = cJSON_Array \<and> (\<forall>c \<in> set cs. printable c))
         \<or> (k = cJSON_Object \<and> (\<forall>c \<in> set cs. printable c \<and> name_ok c)))"

lemma fill_Unlimited: "length s < cap \<Longrightarrow> fill cap s Unlimited = Inr (Some s, Unlimited)"
  by (simp add: fill_def)

lemma strdup_Unlimited [simp]: "cJSON_strdup s Unlimited = Inr (Some s, Unlimited)"
  by (simp add: cJSON_strdup_def fill_Unlimited)

lemma print_string_ptr_text:
  assumes "NUL \<notin> set s"
  shows "print_string_ptr (Some s) Unlimited = Inr (Some (string_text s), Unlimited)"
  using assms
  by (simp add: print_string_ptr_def fill_Unlimited quoted_def string_text_def length_escaped
      escaped_plain flip: length_escaped)

lemma print_number_text:
  assumes "INT_MIN \<le> vi" "vi \<le> INT_MAX" "is_double vd"
  shows "print_number (CJ ty vs vi vd nm cs) Unlimited = Inr (Some (render_number vi vd), Unlimited)"
  using length_dec_int [OF assms(1,2)] length_number_text [OF assms(3)]
  by (simp add: print_number_def Let_def fill_Unlimited render_number_def)

lemma print_elems_text:
  assumes "\<And>c. c \<in> set cs \<Longrightarrow> print_value c depth fmt Unlimited = Inr (Some (render depth fmt c), Unlimited)"
  shows "print_elems cs depth fmt Unlimited = Inr (Some (map (render depth fmt) cs), Unlimited)"
  using assms by (induction cs) (auto simp: elem_turn_def)

lemma print_members_text:
  assumes "\<And>c. c \<in> set cs \<Longrightarrow> print_value c depth fmt Unlimited = Inr (Some (render depth fmt c), Unlimited)"
    and "\<And>c. c \<in> set cs \<Longrightarrow> name_ok c"
  shows "print_members cs depth fmt Unlimited =
    Inr (map (\<lambda>c. (Some (string_text (the (cstring c))), Some (render depth fmt c))) cs, Unlimited)"
  using assms
proof (induction cs)
  case (Cons c cs)
  obtain s where s: "cstring c = Some s" "NUL \<notin> set s"
    using Cons.prems(2) [of c] by (auto simp: name_ok_def split: option.splits)
  with Cons show ?case by (simp add: member_turn_def print_string_ptr_text)
qed simp

lemma all_some_map: "all_some (map (\<lambda>c. (Some (f c), Some (g c))) cs) = Some (map (\<lambda>c. (f c, g c)) cs)"
  by (induction cs) auto

lemma print_value_text:
  "printable c \<Longrightarrow> print_value c depth fmt Unlimited = Inr (Some (render depth fmt c), Unlimited)"
proof (induction c arbitrary: depth)
  case (CJ ty vs vi vd nm cs)
  define k where "k = ty AND 255"
  consider "k \<in> {cJSON_NULL, cJSON_False, cJSON_True}"
    | "k = cJSON_Number" "INT_MIN \<le> vi" "vi \<le> INT_MAX" "is_double vd"
    | s where "k = cJSON_String" "vs = Some s" "NUL \<notin> set s"
    | "k = cJSON_Array" "\<forall>c \<in> set cs. printable c"
    | "k = cJSON_Object" "\<forall>c \<in> set cs. printable c \<and> name_ok c"
    using CJ.prems by (auto simp: Let_def k_def split: option.splits)
  then show ?case
  proof cases
    case 4
    then have "print_elems cs (Suc depth) fmt Unlimited =
        Inr (Some (map (render (Suc depth) fmt) cs), Unlimited)"
      by (intro print_elems_text CJ.IH) auto
    with 4(1) show ?thesis
      by (simp add: print_array_def fill_Unlimited length_array_text cJSON_types flip: k_def)
  next
    case 5
    then have "print_members cs (Suc depth) fmt Unlimited =
        Inr (map (\<lambda>c. (Some (string_text (the (cstring c))), Some (render (Suc depth) fmt c))) cs, Unlimited)"
      by (intro print_members_text CJ.IH) auto
    moreover have "fill (if fmt then depth + 4 else 3) (empty_object_text depth fmt) Unlimited =
        Inr (Some (empty_object_text depth fmt), Unlimited)"
      by (rule fill_Unlimited [OF length_empty_object_text])
    ultimately show ?thesis using 5(1)
      by (cases "cs = []")
         (simp_all add: print_object_def fill_Unlimited length_object_text all_some_map cJSON_types
            flip: k_def)
  qed (auto simp: print_number_text print_string_def print_string_ptr_text cJSON_types simp flip: k_def)
qed

text \<open>
  C28. The printer never overruns a block: every size it computes, for numbers, escaped strings,
  arrays and objects at any depth, leaves room for the text and its NUL, and the text is the
  one the tree should have.
\<close>

theorem print_is_render:
  assumes "printable c"
  shows "cJSON_Print (Some c) Unlimited = Inr (Some (render 0 True c), Unlimited)
    \<and> cJSON_PrintUnformatted (Some c) Unlimited = Inr (Some (render 0 False c), Unlimited)"
  using assms by (simp add: cJSON_Print_def cJSON_PrintUnformatted_def print_value_text)

theorem print_is_render_witness:
  "cJSON_PrintUnformatted (Some (CJ cJSON_Array None 0 0 None
     [CJ cJSON_Number None 7 7 None [], CJ cJSON_String (Some [CHR 0x01]) 0 0 None []])) Unlimited
   = Inr (Some (''[7,'' @ [CHR 0x22, CHR 0x5C] @ ''u0001'' @ [CHR 0x22] @ '']''), Unlimited)"
proof -
  let ?c = "CJ cJSON_Array None 0 0 None
     [CJ cJSON_Number None 7 7 None [], CJ cJSON_String (Some [CHR 0x01]) 0 0 None []]"
  have "printable ?c" by (simp add: cJSON_types is_double_def INT_MIN_def INT_MAX_def)
  moreover have "render 0 False ?c = ''[7,'' @ [CHR 0x22, CHR 0x5C] @ ''u0001'' @ [CHR 0x22] @ '']''"
    by code_simp
  ultimately show ?thesis using print_is_render by metis
qed

end
