(* ===== verification/CJSON_Roundtrip.thy ===== *)
theory CJSON_Roundtrip
  imports CJSON_ParseProps CJSON_PrintProps
begin

text \<open>
  Printing and parsing are inverse.  A tree in canonical form, which is what the parser builds
  from texts without fractions and what the firmware builds for its answers, is parsed back
  from its own text, formatted or not, whatever follows the text.
\<close>

section \<open>Canonical trees\<close>

text \<open>Every field that the kind of the item does not use has the value of a new item.\<close>

fun canonical :: "cjson \<Rightarrow> bool" where
  "canonical (CJ ty vs vi vd nm cs) \<longleftrightarrow>
     (ty \<in> {cJSON_NULL, cJSON_False} \<and> vs = None \<and> vi = 0 \<and> vd = 0 \<and> cs = [])
     \<or> (ty = cJSON_True \<and> vs = None \<and> vi = 1 \<and> vd = 0 \<and> cs = [])
     \<or> (ty = cJSON_Number \<and> vs = None \<and> INT_MIN \<le> vi \<and> vi \<le> INT_MAX \<and> vd = of_int vi \<and> cs = [])
     \<or> (ty = cJSON_String \<and> (case vs of None \<Rightarrow> False | Some s \<Rightarrow> NUL \<notin> set s)
        \<and> vi = 0 \<and> vd = 0 \<and> cs = [])
     \<or> (ty = cJSON_Array \<and> vs = None \<and> vi = 0 \<and> vd = 0
        \<and> (\<forall>c \<in> set cs. canonical c \<and> cstring c = None))
     \<or> (ty = cJSON_Object \<and> vs = None \<and> vi = 0 \<and> vd = 0
        \<and> (\<forall>c \<in> set cs. canonical c \<and> name_ok c))"

lemma is_double_int:
  assumes "INT_MIN \<le> i" "i \<le> INT_MAX" shows "is_double (of_int i)"
proof (cases "i = 0")
  case False
  then have "1 \<le> \<bar>i\<bar>" by linarith
  then have "(1 :: rat) \<le> of_int \<bar>i\<bar>" by (simp only: of_int_1_le_iff)
  moreover have "(1 :: rat) / 2 ^ 1074 \<le> 1" by simp
  moreover have "\<bar>i\<bar> < 2 ^ 1024"
  proof -
    have "\<bar>i\<bar> \<le> 2 ^ 31" using assms by (simp add: INT_MIN_def INT_MAX_def)
    also have "(2 :: int) ^ 31 < 2 ^ 1024" by (rule power_strict_increasing) simp_all
    finally show ?thesis .
  qed
  then have "(of_int \<bar>i\<bar> :: rat) < of_int (2 ^ 1024)" by (simp only: of_int_less_iff)
  ultimately show ?thesis by (simp add: is_double_def)
qed (simp add: is_double_def)

lemma canonical_printable: "canonical c \<Longrightarrow> printable c"
proof (induction c)
  case (CJ ty vs vi vd nm cs)
  then show ?case
    by (auto simp: cJSON_types is_double_int split: option.splits)
qed

section \<open>Numbers\<close>

definition number_end :: "string \<Rightarrow> bool" where
  "number_end r \<longleftrightarrow> \<not> is_digit (peek r) \<and> peek r \<noteq> CHR ''.'' \<and> peek r \<noteq> CHR ''e'' \<and> peek r \<noteq> CHR ''E''"

lemma num_digits_app:
  assumes "\<forall>c \<in> set ds. is_digit c" "\<not> is_digit (peek r)"
  shows "num_digits n (ds @ r) =
    (foldl (\<lambda>a c. dbl_add (dbl_mul a 10) (of_nat (digit_val c))) n ds, length ds, r)"
  using assms
proof (induction ds arbitrary: n)
  case Nil
  then show ?case by (cases r) auto
qed (simp split: prod.splits)

lemma dbl_step:
  assumes "10 * m + k < 2 ^ 53"
  shows "dbl_add (dbl_mul (of_nat m) 10) (of_nat k) = of_nat (10 * m + k)"
proof -
  have "dbl_round (of_int (int (10 * m))) = of_int (int (10 * m))"
    by (rule dbl_round_int) (use assms in simp)
  then have m: "dbl_mul (of_nat m) 10 = of_nat (10 * m)" by (simp add: dbl_mul_def mult.commute)
  have "dbl_round (of_int (int (10 * m + k))) = of_int (int (10 * m + k))"
    by (rule dbl_round_int) (use assms in simp)
  then show ?thesis by (simp add: m dbl_add_def)
qed

lemma dec_nat_value:
  "n < 2 ^ 53 \<Longrightarrow>
   foldl (\<lambda>a c. dbl_add (dbl_mul a 10) (of_nat (digit_val c))) 0 (dec_nat n) = of_nat n"
proof (induction n rule: dec_nat.induct)
  case (1 n)
  show ?case
  proof (cases "n < 10")
    case True
    then show ?thesis using dbl_step [of 0 n] by (simp add: dec_nat_small)
  next
    case False
    have "10 * (n div 10) + n mod 10 < 2 ^ 53" using "1.prems" by simp
    from dbl_step [OF this] False 1 show ?thesis by (subst dec_nat.simps) simp
  qed
qed

lemma digit_char_0_iff: "n < 10 \<Longrightarrow> digit_char n = CHR ''0'' \<longleftrightarrow> n = 0"
  using code_eq_iff [of "digit_char n" "CHR ''0''"] by simp

lemma dec_nat_head:
  "\<exists>c ds. dec_nat n = c # ds \<and> is_digit c \<and> (c = CHR ''0'' \<longleftrightarrow> n = 0) \<and> (n = 0 \<longrightarrow> ds = [])"
proof (induction n rule: dec_nat.induct)
  case (1 n)
  show ?case
  proof (cases "n < 10")
    case True
    then show ?thesis by (simp add: dec_nat_small digit_char_0_iff)
  next
    case False
    with 1 obtain c ds where "dec_nat (n div 10) = c # ds" "is_digit c" "c \<noteq> CHR ''0''" by auto
    with False show ?thesis by (subst dec_nat.simps) auto
  qed
qed

lemma parse_number_dec:
  assumes "INT_MIN \<le> i" "i \<le> INT_MAX" "number_end r"
  shows "parse_number item (dec_int i @ r) =
    Inr (CJ cJSON_Number (cvaluestring item) i (of_int i) (cstring item) (cchild item), r)"
proof -
  let ?n = "nat \<bar>i\<bar>"
  obtain c ds where d: "dec_nat ?n = c # ds" "is_digit c" "c = CHR ''0'' \<longleftrightarrow> ?n = 0" "?n = 0 \<longrightarrow> ds = []"
    using dec_nat_head [of ?n] by (elim exE conjE)
  have n: "?n \<le> 2 ^ 31" using assms by (simp add: INT_MIN_def INT_MAX_def)
  have "c \<noteq> CHR ''-''" using d(2) by (auto simp: is_digit_def)
  then have sign: "num_sign (dec_int i @ r) = (if i < 0 then -1 else 1, dec_nat ?n @ r)"
    using d(1) by (cases "i < 0") (simp_all add: num_sign_def dec_int_def)
  have dig: "\<forall>c \<in> set (dec_nat ?n). is_digit c" using dec_nat_digits by blast
  have end_d: "\<not> is_digit (peek r)" using assms(3) by (simp add: number_end_def)
  have int: "num_int (dec_nat ?n @ r) = (of_nat ?n, r)"
  proof (cases "?n = 0")
    case True
    then have "dec_nat ?n = [CHR ''0'']" using d by simp
    then have "dec_nat ?n @ r = CHR ''0'' # r" by simp
    then show ?thesis using end_d True by (simp only: num_int_def Let_def) simp
  next
    case False
    have "num_digits 0 (dec_nat ?n @ r) = (of_nat ?n, length (dec_nat ?n), r)"
      using num_digits_app [OF dig end_d, of 0] dec_nat_value [of ?n] n by simp
    with d False show ?thesis by (simp add: num_int_def Let_def)
  qed
  have frac: "num_frac k r = (k, 0, r)" for k using assms(3) by (simp add: num_frac_def number_end_def)
  have ex: "parse_exponent r = Inr (0, r)" using assms(3) by (simp add: parse_exponent_def number_end_def)
  have one: "dbl_pow10 0 = Inr 1" using dbl_round_int [of 1] by (simp add: dbl_pow10_def)
  have "(of_nat ?n :: rat) < dbl_max"
  proof -
    have "of_nat ?n < (of_nat (2 ^ 1024) :: rat)"
    proof (simp only: of_nat_less_iff)
      have "(2 :: nat) ^ 31 < 2 ^ 1024" by (rule power_strict_increasing) simp_all
      with n show "?n < 2 ^ 1024" by linarith
    qed
    then show ?thesis by (simp add: dbl_max_def)
  qed
  moreover have "dbl_mul ((if i < 0 then -1 else 1) * of_nat ?n) 1 = of_int i"
  proof -
    have "(if i < 0 then -1 else 1) * of_nat ?n = (of_int i :: rat)" by simp
    moreover have "dbl_round (of_int i) = of_int i"
      by (rule dbl_round_int) (use assms in \<open>simp add: INT_MIN_def INT_MAX_def\<close>)
    ultimately show ?thesis by (simp only: dbl_mul_def mult_1_right)
  qed
  ultimately show ?thesis
    using assms(1,2) by (simp add: parse_number_def sign int frac ex one Let_def)
qed

lemma char_of_0: "char_of (48 :: nat) = CHR ''0''"
  by code_simp

lemma render_number_int:
  assumes "INT_MIN \<le> i" "i \<le> INT_MAX" shows "render_number i (of_int i) = dec_int i"
  using assms by (simp add: render_number_def dbl_add_def dbl_round_def DBL_EPSILON_def dec_int_def
      dec_nat_small digit_char_def char_of_0)

section \<open>Strings\<close>

lemma hex_val_digit: "d < 16 \<Longrightarrow> hex_val (hex_digit d) = Some (of_nat d)"
proof -
  assume "d < 16"
  then have "d < 10 \<or> (10 \<le> d \<and> d < 16)" by linarith
  then show ?thesis
  proof
    assume "d < 10"
    then show ?thesis by (simp add: hex_val_def hex_digit_def)
  next
    assume d: "10 \<le> d \<and> d < 16"
    then have "code (hex_digit d) = 87 + d" by (simp add: hex_digit_def)
    moreover have "(10 :: u32) + of_nat (87 + d - 97) = of_nat d"
    proof -
      have "(10 :: u32) + of_nat (87 + d - 97) = of_nat (10 + (87 + d - 97))" by simp
      with d show ?thesis by simp
    qed
    ultimately show ?thesis using d by (simp add: hex_val_def)
  qed
qed

lemma parse_hex4_digits:
  assumes "hex_val a = Some w" "hex_val b = Some x" "hex_val c = Some y" "hex_val d = Some z"
  shows "parse_hex4 (a # b # c # d # t) = ((w * 16 + x) * 16 + y) * 16 + z"
  using assms by (simp add: parse_hex4_def push_bit_eq_mult)

lemma sixteens:
  "n = q * 16 + a \<Longrightarrow> q = r * 16 + b \<Longrightarrow> r = s * 16 + c \<Longrightarrow> ((s * 16 + c) * 16 + b) * 16 + a = n"
  for n :: nat by simp

lemma hex4_value:
  "n < 65536 \<Longrightarrow> ((n div 4096 mod 16 * 16 + n div 256 mod 16) * 16 + n div 16 mod 16) * 16 + n mod 16 = n"
  for n :: nat
proof -
  assume "n < 65536"
  then have "n div 4096 < 16" by (simp add: less_mult_imp_div_less)
  then have m: "n div 4096 mod 16 = n div 4096" by simp
  have "n = n div 16 * 16 + n mod 16" by simp
  moreover have "n div 16 = n div 256 * 16 + n div 16 mod 16"
    using div_mult_mod_eq [of "n div 16" 16] by (simp add: div_mult2_eq [symmetric])
  moreover have "n div 256 = n div 4096 * 16 + n div 256 mod 16"
    using div_mult_mod_eq [of "n div 256" 16] by (simp add: div_mult2_eq [symmetric])
  ultimately show ?thesis unfolding m by (rule sixteens)
qed

lemma parse_hex4_hex4:
  assumes "n < 65536" shows "parse_hex4 (hex4 n @ t) = of_nat n"
proof -
  have h: "hex_val (hex_digit (n div k mod 16)) = Some (of_nat (n div k mod 16))" for k
    by (rule hex_val_digit) simp
  have h1: "hex_val (hex_digit (n mod 16)) = Some (of_nat (n mod 16))" by (rule hex_val_digit) simp
  have "parse_hex4 (hex4 n @ t) = ((of_nat (n div 4096 mod 16) * 16 + of_nat (n div 256 mod 16)) * 16
      + of_nat (n div 16 mod 16)) * 16 + of_nat (n mod 16)"
    unfolding hex4_def append_Cons append_Nil by (rule parse_hex4_digits) (rule h h1)+
  also have "\<dots> = of_nat (((n div 4096 mod 16 * 16 + n div 256 mod 16) * 16 + n div 16 mod 16) * 16 + n mod 16)"
    by (simp only: of_nat_add of_nat_mult of_nat_numeral)
  also have "\<dots> = of_nat n" by (simp only: hex4_value [OF assms])
  finally show ?thesis .
qed

lemma utf8_encode_small: "n < 128 \<Longrightarrow> utf8_encode (of_nat n) = [char_of n]"
  by (simp add: utf8_encode_def store_char_def word_less_nat_alt unat_of_nat)

lemma parse_unicode_hex4:
  assumes "0 < n" "n < 128" shows "parse_unicode (hex4 n @ t) = Inr ([char_of n], t)"
proof -
  have w: "unat (of_nat n :: u32) = n" using assms by (simp add: unat_of_nat)
  then have "(of_nat n :: u32) \<noteq> 0" "\<not> 0xDC00 \<le> (of_nat n :: u32)" "\<not> 0xD800 \<le> (of_nat n :: u32)"
    using assms by (auto simp: word_le_nat_alt unat_eq_0 [symmetric] simp del: unat_eq_0)
  moreover have "skip_chars 4 (hex4 n @ t) = Inr t" by (simp add: skip_chars_def hex4_def)
  ultimately show ?thesis
    using assms by (simp add: parse_unicode_def parse_hex4_hex4 utf8_encode_small Let_def)
qed

lemma escape_char_cases:
  assumes "c \<noteq> NUL"
  obtains "escape_char c = [c]" "c \<noteq> CHR 0x22" "c \<noteq> CHR 0x5C"
    | e where "escape_char c = [CHR 0x5C, e]" "e \<noteq> CHR ''u''" "unescape e = c"
    | "escape_char c = CHR 0x5C # CHR ''u'' # hex4 (code c)" "0 < code c" "code c < 32"
proof -
  have pos: "0 < code c" using assms by (metis code_NUL_iff gr0I)
  consider (plain) "31 < code c" "c \<noteq> CHR 0x22" "c \<noteq> CHR 0x5C"
    | (short) "c \<in> {CHR 0x5C, CHR 0x22, CHR 0x08, CHR 0x0C, CHR 0x0A, CHR 0x0D, CHR 0x09}"
    | (hex) "code c < 32" "c \<notin> {CHR 0x5C, CHR 0x22, CHR 0x08, CHR 0x0C, CHR 0x0A, CHR 0x0D, CHR 0x09}"
    by fastforce
  then show thesis
  proof cases
    case plain
    then show ?thesis using that(1) by (simp add: escape_char_def)
  next
    case short
    then have "\<exists>e. escape_char c = [CHR 0x5C, e] \<and> e \<noteq> CHR ''u'' \<and> unescape e = c"
      by (auto simp: escape_char_def unescape_def)
    then show ?thesis using that(2) by blast
  next
    case hex
    then show ?thesis using that(3) pos by (simp add: escape_char_def)
  qed
qed

lemma hex4_plain: "n < 65536 \<Longrightarrow> c \<in> set (hex4 n) \<Longrightarrow> c \<noteq> CHR 0x22 \<and> c \<noteq> NUL \<and> c \<noteq> CHR 0x5C"
proof -
  assume "c \<in> set (hex4 n)"
  then have "c \<in> {hex_digit (n div 4096 mod 16), hex_digit (n div 256 mod 16),
      hex_digit (n div 16 mod 16), hex_digit (n mod 16)}" by (simp add: hex4_def)
  then have "hex_val c \<noteq> None" by (auto simp: hex_val_digit)
  then show ?thesis using hex_val_plain by auto
qed

lemma scan_len_plain:
  "\<forall>c \<in> set s. c \<noteq> CHR 0x22 \<and> c \<noteq> NUL \<and> c \<noteq> CHR 0x5C \<Longrightarrow>
   scan_len (s @ t) = rmap (\<lambda>n. n + length s) (scan_len t)"
proof (induction s)
  case Nil
  show ?case by (cases "scan_len t") simp_all
next
  case (Cons c s)
  then show ?case by (cases "scan_len t") auto
qed

lemma str_body_escape:
  assumes "c \<noteq> NUL"
  shows "str_body (escape_char c @ t) = rmap (\<lambda>(out, r). (c # out, r)) (str_body t)"
proof (rule escape_char_cases [OF assms])
  assume e: "escape_char c = CHR 0x5C # CHR ''u'' # hex4 (code c)" "0 < code c" "code c < 32"
  then have "parse_unicode (hex4 (code c) @ t) = Inr ([c], t)"
    using parse_unicode_hex4 [of "code c" t] by simp
  with e(1) show ?thesis by simp
qed (use assms in auto)

lemma scan_len_escape:
  assumes "c \<noteq> NUL" "scan_len t = Inr n"
  shows "\<exists>m. scan_len (escape_char c @ t) = Inr m \<and> n < m"
proof (rule escape_char_cases [OF assms(1)])
  assume e: "escape_char c = CHR 0x5C # CHR ''u'' # hex4 (code c)" "0 < code c" "code c < 32"
  have "scan_len (hex4 (code c) @ t) = rmap (\<lambda>n. n + length (hex4 (code c))) (scan_len t)"
    by (rule scan_len_plain) (use e hex4_plain [of "code c"] in auto)
  with e(1) assms(2) show ?thesis by simp
qed (use assms in auto)

lemma string_body:
  assumes "NUL \<notin> set s"
  shows "str_body (concat (map escape_char s) @ CHR 0x22 # t) = Inr (s, CHR 0x22 # t)
    \<and> (\<exists>n. scan_len (concat (map escape_char s) @ CHR 0x22 # t) = Inr n \<and> length s \<le> n)"
  using assms
proof (induction s)
  case (Cons c s)
  then obtain n where n: "scan_len (concat (map escape_char s) @ CHR 0x22 # t) = Inr n" "length s \<le> n"
    and b: "str_body (concat (map escape_char s) @ CHR 0x22 # t) = Inr (s, CHR 0x22 # t)" by auto
  have c: "c \<noteq> NUL" using Cons.prems by auto
  obtain m where "scan_len (escape_char c @ concat (map escape_char s) @ CHR 0x22 # t) = Inr m" "n < m"
    using scan_len_escape [OF c n(1)] by blast
  with n(2) b show ?case by (simp add: str_body_escape [OF c])
qed simp

lemma parse_string_text:
  assumes "NUL \<notin> set s"
  shows "parse_string Unlimited item (string_text s @ t) =
    Done (CJ cJSON_String (Some s) (cvalueint item) (cvaluedouble item) (cstring item) (cchild item),
          t, Unlimited)"
proof -
  let ?e = "concat (map escape_char s)"
  have "string_text s @ t = CHR 0x22 # (?e @ CHR 0x22 # t)" by (simp add: string_text_def quoted_def)
  moreover obtain n where "scan_len (?e @ CHR 0x22 # t) = Inr n" "length s \<le> n"
    and "str_body (?e @ CHR 0x22 # t) = Inr (s, CHR 0x22 # t)"
    using string_body [OF assms] by blast
  ultimately show ?thesis by (simp add: parse_string_def)
qed

section \<open>The first character of a text\<close>

definition starts_token :: "string \<Rightarrow> bool" where
  "starts_token s \<longleftrightarrow> s \<noteq> [] \<and> 32 < code (peek s) \<and> peek s \<notin> {CHR '']'', CHR ''}'', CHR '',''}"

lemma skip_token [simp]: "starts_token s \<Longrightarrow> skip (s @ t) = s @ t"
  by (cases s) (auto simp: starts_token_def)

lemma skip_tabs [simp]: "skip (tabs n @ s) = skip s"
  by (induction n) (simp_all add: tabs_def)

lemma tabs_0 [simp]: "tabs 0 = []"
  by (simp add: tabs_def)

lemma token_dec_int: "starts_token (dec_int i)"
proof -
  obtain c ds where "dec_nat (nat \<bar>i\<bar>) = c # ds" "is_digit c"
    using dec_nat_head [of "nat \<bar>i\<bar>"] by (elim exE conjE)
  moreover have "32 < code c" "c \<notin> {CHR '']'', CHR ''}'', CHR '',''}" if "is_digit c" for c
    using that by (auto simp: is_digit_def)
  ultimately show ?thesis by (cases "i < 0") (simp_all add: starts_token_def dec_int_def)
qed

lemma token_string: "starts_token (string_text s)"
  by (simp add: starts_token_def string_text_def quoted_def)

lemma token_render: "canonical c \<Longrightarrow> starts_token (render depth fmt c)"
proof (cases c)
  case (CJ ty vs vi vd nm cs)
  assume "canonical c"
  then consider "ty \<in> {cJSON_NULL, cJSON_False, cJSON_True}"
    | "ty = cJSON_Number" "INT_MIN \<le> vi" "vi \<le> INT_MAX" "vd = of_int vi"
    | "ty \<in> {cJSON_String, cJSON_Array, cJSON_Object}"
    using CJ by auto
  then show ?thesis
  proof cases
    case 2
    then show ?thesis using CJ by (simp add: cJSON_types render_number_int token_dec_int)
  qed (use CJ in \<open>auto simp: cJSON_types token_string array_text_def empty_object_text_def
      object_text_def starts_token_def\<close>, simp_all add: string_text_def quoted_def)
qed

section \<open>Trees\<close>

text \<open>An item the parser starts from: only its name and its type may have been set.\<close>

definition blank :: "cjson \<Rightarrow> bool" where
  "blank item \<longleftrightarrow> cvaluestring item = None \<and> cvalueint item = 0 \<and> cvaluedouble item = 0
     \<and> cchild item = []"

text \<open>\<open>pv\<close> parses the text of \<open>c\<close> back, whatever ends it.\<close>

definition parses_back :: "value_parser \<Rightarrow> nat \<Rightarrow> bool \<Rightarrow> cjson \<Rightarrow> bool" where
  "parses_back pv depth fmt c \<longleftrightarrow>
     (\<forall>item r. blank item \<longrightarrow> cstring item = cstring c \<longrightarrow> number_end r \<longrightarrow>
        pv Unlimited item (render depth fmt c @ r) = Done (c, r, Unlimited))"

lemma blank_new_item: "blank new_item" "cstring new_item = None"
  by (simp_all add: blank_def new_item_def)

lemma number_end_Cons:
  "\<not> is_digit c \<Longrightarrow> c \<notin> {CHR ''.'', CHR ''e'', CHR ''E''} \<Longrightarrow> number_end (c # r)"
  by (simp add: number_end_def)

lemma skip_entries:
  assumes "\<And>c. c \<in> set cs \<Longrightarrow> canonical c" "cs \<noteq> []"
  shows "skip (join_entries fmt (map (render depth fmt) cs) @ t) =
    join_entries fmt (map (render depth fmt) cs) @ t"
proof (cases cs)
  case (Cons c ds)
  then have "starts_token (render depth fmt c)" using assms(1) by (simp add: token_render)
  then show ?thesis using Cons by (cases ds) simp_all
qed (use assms in simp)

lemma elems_back:
  assumes "\<And>c. c \<in> set cs \<Longrightarrow> parses_back pv depth fmt c \<and> canonical c \<and> cstring c = None"
    and "cs \<noteq> []" "length cs \<le> f"
    and "skip w = join_entries fmt (map (render depth fmt) cs) @ CHR '']'' # r"
  shows "parse_elems pv f Unlimited w = Done (cs, CHR '']'' # r, Unlimited)"
  using assms
proof (induction cs arbitrary: f w)
  case (Cons c cs)
  obtain g where f: "f = Suc g" using Cons.prems(3) by (cases f) auto
  have c: "parses_back pv depth fmt c" "cstring c = None" using Cons.prems(1) [of c] by auto
  have v: "pv Unlimited new_item (render depth fmt c @ s) = Done (c, s, Unlimited)"
    if "number_end s" for s
    using c that blank_new_item by (simp add: parses_back_def)
  show ?case
  proof (cases cs)
    case Nil
    have "number_end (CHR '']'' # r)" by (rule number_end_Cons) (simp_all add: is_digit_def)
    from v [OF this] Cons.prems(4) show ?thesis by (simp add: f Nil)
  next
    case (Cons d ds)
    define w' where "w' = (if fmt then '' '' else []) @ join_entries fmt (map (render depth fmt) cs) @ CHR '']'' # r"
    have "skip w = render depth fmt c @ CHR '','' # w'"
      using Cons.prems(4) by (simp add: Cons w'_def)
    moreover have "number_end (CHR '','' # w')" by (rule number_end_Cons) (simp_all add: is_digit_def)
    moreover have "parse_elems pv g Unlimited w' = Done (cs, CHR '']'' # r, Unlimited)"
    proof (rule Cons.IH)
      have "skip (join_entries fmt (map (render depth fmt) cs) @ CHR '']'' # r) =
          join_entries fmt (map (render depth fmt) cs) @ CHR '']'' # r"
        by (rule skip_entries) (use Cons.prems Cons in auto)
      then show "skip w' = join_entries fmt (map (render depth fmt) cs) @ CHR '']'' # r"
        by (cases fmt) (simp_all add: w'_def)
    qed (use Cons.prems f Cons in auto)
    ultimately show ?thesis using v [of "CHR '','' # w'"] by (simp add: f)
  qed
qed simp

lemma array_back:
  assumes "\<And>c. c \<in> set cs \<Longrightarrow> parses_back pv (Suc depth) fmt c \<and> canonical c \<and> cstring c = None"
    and "length cs \<le> f" "blank item"
  shows "parse_array pv f Unlimited item
      ((if cs = [] then ''[]'' else array_text fmt (map (render (Suc depth) fmt) cs)) @ r) =
    Done (CJ cJSON_Array None 0 0 (cstring item) cs, r, Unlimited)"
proof (cases "cs = []")
  case True
  with assms(3) show ?thesis
    by (simp add: parse_array_def set_ctype_def blank_def)
next
  case False
  let ?t = "join_entries fmt (map (render (Suc depth) fmt) cs) @ CHR '']'' # r"
  have "skip ?t = ?t" by (rule skip_entries) (use assms False in auto)
  moreover have "parse_elems pv f Unlimited ?t = Done (cs, CHR '']'' # r, Unlimited)"
    by (rule elems_back) (use assms False calculation in auto)
  moreover have "peek ?t \<noteq> CHR '']''"
  proof -
    obtain c ds where cs: "cs = c # ds" using False by (cases cs) auto
    then have "starts_token (render (Suc depth) fmt c)" using assms(1) by (simp add: token_render)
    moreover have "\<exists>z. ?t = render (Suc depth) fmt c @ z" using cs by (cases ds) auto
    ultimately show ?thesis by (cases "render (Suc depth) fmt c") (auto simp: starts_token_def)
  qed
  ultimately show ?thesis using False assms(3)
    by (simp add: parse_array_def array_text_def set_ctype_def set_cchild_def blank_def)
qed

text \<open>The same for the members of an object.\<close>

abbreviation member_texts :: "nat \<Rightarrow> bool \<Rightarrow> cjson list \<Rightarrow> (string \<times> string) list" where
  "member_texts depth fmt \<equiv> map (\<lambda>c. (string_text (the (cstring c)), render depth fmt c))"

lemma skip_members:
  assumes "cs \<noteq> []"
  shows "skip (join_members depth fmt (member_texts depth fmt cs) @ t) =
    drop (if fmt then depth else 0) (join_members depth fmt (member_texts depth fmt cs)) @ t
    \<and> peek (skip (join_members depth fmt (member_texts depth fmt cs) @ t)) = CHR 0x22"
proof (cases cs)
  case (Cons c ds)
  have "skip (string_text s @ u) = string_text s @ u" for s u by (simp add: token_string)
  then show ?thesis using Cons by (simp add: string_text_def quoted_def)
qed (use assms in simp)

lemma members_back:
  assumes "\<And>c. c \<in> set cs \<Longrightarrow> parses_back pv depth fmt c \<and> canonical c \<and> name_ok c"
    and "cs \<noteq> []" "length cs \<le> f"
    and "skip w = skip (join_members depth fmt (member_texts depth fmt cs) @ t)"
    and "skip t = CHR ''}'' # r"
  shows "parse_members pv f Unlimited w = Done (cs, CHR ''}'' # r, Unlimited)"
  using assms(1-4)
proof (induction cs arbitrary: f w)
  case (Cons c cs)
  obtain g where f: "f = Suc g" using Cons.prems(3) by (cases f) auto
  obtain n where n: "cstring c = Some n" "NUL \<notin> set n"
    using Cons.prems(1) [of c] by (auto simp: name_ok_def split: option.splits)
  define tail where "tail = (if cs = [] then [] else '','') @ (if fmt then [CHR 0x0A] else [])
      @ join_members depth fmt (member_texts depth fmt cs) @ t"
  define body where "body = (if fmt then [CHR 0x09] else []) @ render depth fmt c @ tail"
  have w: "skip w = string_text n @ CHR '':'' # body"
    using Cons.prems(4) by (simp add: tail_def body_def n token_string)
  define k where "k = CJ cJSON_String (Some n) 0 0 None []"
  have k: "parse_string Unlimited new_item (string_text n @ CHR '':'' # body) =
      Done (k, CHR '':'' # body, Unlimited)"
    using parse_string_text [OF n(2), of new_item "CHR '':'' # body"] by (simp add: k_def new_item_def)
  have nc: "blank (name_child k)" "cstring (name_child k) = cstring c"
    by (simp_all add: blank_def name_child_def k_def n)
  have "starts_token (render depth fmt c)" using Cons.prems(1) [of c] by (simp add: token_render)
  then have sb: "skip body = render depth fmt c @ tail" by (cases fmt) (simp_all add: body_def)
  have ne: "number_end tail"
  proof (cases "cs = [] \<and> \<not> fmt")
    case True
    then have "tail = t" by (simp add: tail_def)
    moreover have "peek t = CHR ''}'' \<or> (peek t \<noteq> NUL \<and> code (peek t) \<le> 32)"
      using assms(5) by (cases t) (auto split: if_splits)
    ultimately show ?thesis by (auto simp: number_end_def is_digit_def)
  qed (auto simp: tail_def number_end_def is_digit_def)
  have v: "pv Unlimited (name_child k) (render depth fmt c @ tail) = Done (c, tail, Unlimited)"
    using Cons.prems(1) [of c] nc ne by (simp add: parses_back_def)
  show ?case
  proof (cases "cs = []")
    case True
    then have "skip tail = CHR ''}'' # r" using assms(5) by (simp add: tail_def)
    with True show ?thesis by (simp add: f w k sb v)
  next
    case False
    define w' where "w' = (if fmt then [CHR 0x0A] else []) @ join_members depth fmt (member_texts depth fmt cs) @ t"
    have st: "skip tail = CHR '','' # w'" using False by (simp add: tail_def w'_def)
    have "parse_members pv g Unlimited w' = Done (cs, CHR ''}'' # r, Unlimited)"
      by (rule Cons.IH) (use Cons.prems f False in \<open>auto simp: w'_def\<close>)
    then show ?thesis by (simp add: f w k sb v st)
  qed
qed simp

lemma object_back:
  assumes "\<And>c. c \<in> set cs \<Longrightarrow> parses_back pv (Suc depth) fmt c \<and> canonical c \<and> name_ok c"
    and "length cs \<le> f" "blank item"
  shows "parse_object pv f Unlimited item
      ((if cs = [] then empty_object_text depth fmt
        else object_text (Suc depth) fmt (member_texts (Suc depth) fmt cs)) @ r) =
    Done (CJ cJSON_Object None 0 0 (cstring item) cs, r, Unlimited)"
proof (cases "cs = []")
  case True
  have "skip (CHR 0x0A # tabs n @ CHR ''}'' # r) = CHR ''}'' # r" for n by simp
  with True assms(3) show ?thesis
    by (simp add: parse_object_def empty_object_text_def set_ctype_def blank_def)
next
  case False
  let ?m = "join_members (Suc depth) fmt (member_texts (Suc depth) fmt cs)"
  define t where "t = (if fmt then tabs depth else []) @ CHR ''}'' # r"
  have t: "skip t = CHR ''}'' # r" by (simp add: t_def)
  have o: "object_text (Suc depth) fmt (member_texts (Suc depth) fmt cs) @ r =
      CHR ''{'' # (if fmt then [CHR 0x0A] else []) @ ?m @ t"
    by (simp add: object_text_def t_def)
  have s: "skip ((if fmt then [CHR 0x0A] else []) @ ?m @ t) = skip (?m @ t)" by simp
  have p: "peek (skip (?m @ t)) = CHR 0x22" using skip_members [OF False] by blast
  have "parse_members pv f Unlimited (skip (?m @ t)) = Done (cs, CHR ''}'' # r, Unlimited)"
    by (rule members_back [OF _ False assms(2) _ t]) (use assms(1) in auto)
  with False p assms(3) show ?thesis
    by (simp add: o parse_object_def s set_ctype_def set_cchild_def blank_def)
qed

section \<open>The round trip\<close>

lemma length_render_pos: "canonical c \<Longrightarrow> 0 < length (render depth fmt c)"
  using token_render [of c depth fmt] by (simp add: starts_token_def)

lemma length_entries:
  "c \<in> set cs \<Longrightarrow> length (render depth fmt c) + 2 \<le> length (array_text fmt (map (render depth fmt) cs))"
proof -
  have "e \<in> set es \<Longrightarrow> length e \<le> length (join_entries fmt es)" for e es
    by (induction fmt es rule: join_entries.induct) auto
  then show "c \<in> set cs \<Longrightarrow> ?thesis" by (simp add: array_text_def)
qed

lemma count_entries:
  assumes "\<And>e. e \<in> set es \<Longrightarrow> 0 < length e"
  shows "length es \<le> length (join_entries fmt es)"
  using assms
proof (induction fmt es rule: join_entries.induct)
  case (2 fmt e)
  then show ?case by (simp add: Suc_le_eq)
next
  case (3 fmt e v va)
  then have "length (v # va) \<le> length (join_entries fmt (v # va))" by simp
  with 3 show ?case by simp
qed simp

lemma member_length:
  "(n, e) \<in> set ms \<Longrightarrow> length e + 1 \<le> length (join_members depth fmt ms)"
  by (induction depth fmt ms rule: join_members.induct) auto

lemma count_members: "length ms \<le> length (join_members depth fmt ms)"
  by (induction depth fmt ms rule: join_members.induct) auto

lemma no_literal:
  "peek s \<notin> {CHR ''n'', CHR ''f'', CHR ''t''} \<Longrightarrow>
   \<not> starts_with ''null'' s \<and> \<not> starts_with ''false'' s \<and> \<not> starts_with ''true'' s"
  using starts_with_peek by fastforce

lemma literals:
  "starts_with ''null'' (''null'' @ r)" "\<not> starts_with ''null'' (''false'' @ r)"
  "starts_with ''false'' (''false'' @ r)" "\<not> starts_with ''null'' (''true'' @ r)"
  "\<not> starts_with ''false'' (''true'' @ r)" "starts_with ''true'' (''true'' @ r)"
  by (simp_all add: starts_with_def)

lemma parse_value_number:
  assumes "is_digit (peek s) \<or> peek s = CHR ''-''"
  shows "parse_value (Suc g) m item s = pbind (of_res (parse_number item s)) (\<lambda>(c, r). Done (c, r, m))"
proof -
  have "peek s \<notin> {CHR ''n'', CHR ''f'', CHR ''t''}" "peek s \<noteq> CHR 0x22"
    using assms by (auto simp: is_digit_def)
  with assms show ?thesis by (auto simp: no_literal)
qed

lemma parse_value_other:
  "peek s = CHR 0x22 \<Longrightarrow> parse_value (Suc g) m item s = parse_string m item s"
  "peek s = CHR ''['' \<Longrightarrow> parse_value (Suc g) m item s = parse_array (parse_value g) g m item s"
  "peek s = CHR ''{'' \<Longrightarrow> parse_value (Suc g) m item s = parse_object (parse_value g) g m item s"
  by (simp_all add: no_literal is_digit_def)

lemma canonical_cases:
  assumes "canonical (CJ ty vs vi vd nm cs)"
  obtains (null) "ty = cJSON_NULL" "vs = None" "vi = 0" "vd = 0" "cs = []"
    | (false) "ty = cJSON_False" "vs = None" "vi = 0" "vd = 0" "cs = []"
    | (true) "ty = cJSON_True" "vs = None" "vi = 1" "vd = 0" "cs = []"
    | (number) "ty = cJSON_Number" "vs = None" "INT_MIN \<le> vi" "vi \<le> INT_MAX" "vd = of_int vi" "cs = []"
    | (string) s where "ty = cJSON_String" "vs = Some s" "NUL \<notin> set s" "vi = 0" "vd = 0" "cs = []"
    | (array) "ty = cJSON_Array" "vs = None" "vi = 0" "vd = 0"
        "\<And>c. c \<in> set cs \<Longrightarrow> canonical c \<and> cstring c = None"
    | (object) "ty = cJSON_Object" "vs = None" "vi = 0" "vd = 0"
        "\<And>c. c \<in> set cs \<Longrightarrow> canonical c \<and> name_ok c"
  using assms by (auto split: option.splits)

lemma render_simps:
  "render depth fmt (CJ cJSON_NULL vs vi vd nm cs) = ''null''"
  "render depth fmt (CJ cJSON_False vs vi vd nm cs) = ''false''"
  "render depth fmt (CJ cJSON_True vs vi vd nm cs) = ''true''"
  "render depth fmt (CJ cJSON_Number vs vi vd nm cs) = render_number vi vd"
  "render depth fmt (CJ cJSON_String vs vi vd nm cs) = string_text (the vs)"
  "render depth fmt (CJ cJSON_Array vs vi vd nm cs) =
     (if cs = [] then ''[]'' else array_text fmt (map (render (Suc depth) fmt) cs))"
  "render depth fmt (CJ cJSON_Object vs vi vd nm cs) =
     (if cs = [] then empty_object_text depth fmt
      else object_text (Suc depth) fmt (member_texts (Suc depth) fmt cs))"
  by (simp_all add: cJSON_types)

lemma parse_value_literals:
  assumes "blank item"
  shows "parse_value (Suc g) Unlimited item (''null'' @ r) =
      Done (CJ cJSON_NULL None 0 0 (cstring item) [], r, Unlimited)"
    "parse_value (Suc g) Unlimited item (''false'' @ r) =
      Done (CJ cJSON_False None 0 0 (cstring item) [], r, Unlimited)"
    "parse_value (Suc g) Unlimited item (''true'' @ r) =
      Done (CJ cJSON_True None 1 0 (cstring item) [], r, Unlimited)"
  using assms literals by (simp_all add: set_lit_def set_ctype_def set_true_def blank_def)

lemma parse_value_dec:
  assumes "INT_MIN \<le> i" "i \<le> INT_MAX" "number_end r" "blank item"
  shows "parse_value (Suc g) Unlimited item (dec_int i @ r) =
    Done (CJ cJSON_Number None i (of_int i) (cstring item) [], r, Unlimited)"
proof -
  obtain d ds where "dec_nat (nat \<bar>i\<bar>) = d # ds" "is_digit d"
    using dec_nat_head [of "nat \<bar>i\<bar>"] by (elim exE conjE)
  then have "is_digit (peek (dec_int i @ r)) \<or> peek (dec_int i @ r) = CHR ''-''"
    by (cases "i < 0") (simp_all add: dec_int_def)
  then show ?thesis using assms(4)
    by (simp add: parse_value_number parse_number_dec [OF assms(1-3)] blank_def del: parse_value.simps)
qed

lemma parse_value_string:
  assumes "NUL \<notin> set s" "blank item"
  shows "parse_value (Suc g) Unlimited item (string_text s @ r) =
    Done (CJ cJSON_String (Some s) 0 0 (cstring item) [], r, Unlimited)"
proof -
  have "peek (string_text s @ r) = CHR 0x22" by (simp add: string_text_def quoted_def)
  then show ?thesis using assms
    by (simp add: parse_value_other parse_string_text blank_def del: parse_value.simps)
qed

lemma parse_value_array:
  assumes "\<And>c. c \<in> set cs \<Longrightarrow> canonical c \<and> cstring c = None" "blank item"
    and "\<And>c. c \<in> set cs \<Longrightarrow> length (render (Suc depth) fmt c) < g \<Longrightarrow>
           parses_back (parse_value g) (Suc depth) fmt c"
    and "t = (if cs = [] then ''[]'' else array_text fmt (map (render (Suc depth) fmt) cs))"
    and "length t < Suc g"
  shows "parse_value (Suc g) Unlimited item (t @ r) =
    Done (CJ cJSON_Array None 0 0 (cstring item) cs, r, Unlimited)"
proof -
  have "parses_back (parse_value g) (Suc depth) fmt c \<and> canonical c \<and> cstring c = None"
    if "c \<in> set cs" for c
  proof -
    have "cs \<noteq> []" using that by auto
    with length_entries [OF that, of "Suc depth" fmt] assms(4,5)
    have "length (render (Suc depth) fmt c) < g" by simp
    then show ?thesis using assms(1,3) that by blast
  qed
  moreover have "length cs \<le> g"
  proof (cases "cs = []")
    case False
    have "length (map (render (Suc depth) fmt) cs) \<le> length (join_entries fmt (map (render (Suc depth) fmt) cs))"
      by (rule count_entries) (use assms(1) length_render_pos in auto)
    with assms(4,5) False show ?thesis by (simp add: array_text_def)
  qed simp
  ultimately have "parse_array (parse_value g) g Unlimited item (t @ r) =
      Done (CJ cJSON_Array None 0 0 (cstring item) cs, r, Unlimited)"
    unfolding assms(4) using assms(2) by (rule array_back)
  moreover have "peek (t @ r) = CHR ''[''" unfolding assms(4) by (simp add: array_text_def)
  ultimately show ?thesis by (simp only: parse_value_other(2))
qed

lemma parse_value_object:
  assumes "\<And>c. c \<in> set cs \<Longrightarrow> canonical c \<and> name_ok c" "blank item"
    and "\<And>c. c \<in> set cs \<Longrightarrow> length (render (Suc depth) fmt c) < g \<Longrightarrow>
           parses_back (parse_value g) (Suc depth) fmt c"
    and "t = (if cs = [] then empty_object_text depth fmt
              else object_text (Suc depth) fmt (member_texts (Suc depth) fmt cs))"
    and "length t < Suc g"
  shows "parse_value (Suc g) Unlimited item (t @ r) =
    Done (CJ cJSON_Object None 0 0 (cstring item) cs, r, Unlimited)"
proof -
  let ?j = "join_members (Suc depth) fmt (member_texts (Suc depth) fmt cs)"
  have "parses_back (parse_value g) (Suc depth) fmt c \<and> canonical c \<and> name_ok c"
    if "c \<in> set cs" for c
  proof -
    have "cs \<noteq> []" using that by auto
    moreover have "length (render (Suc depth) fmt c) + 1 \<le> length ?j"
      by (rule member_length [of "string_text (the (cstring c))"]) (use that in auto)
    ultimately have "length (render (Suc depth) fmt c) < g"
      using assms(4,5) by (simp add: object_text_def)
    then show ?thesis using assms(1,3) that by blast
  qed
  moreover have "length cs \<le> g"
  proof (cases "cs = []")
    case False
    have "length (member_texts (Suc depth) fmt cs) \<le> length ?j" by (rule count_members)
    with assms(4,5) False show ?thesis by (simp add: object_text_def)
  qed simp
  ultimately have "parse_object (parse_value g) g Unlimited item (t @ r) =
      Done (CJ cJSON_Object None 0 0 (cstring item) cs, r, Unlimited)"
    unfolding assms(4) using assms(2) by (rule object_back)
  moreover have "peek (t @ r) = CHR ''{''"
    unfolding assms(4) by (simp add: object_text_def empty_object_text_def)
  ultimately show ?thesis by (simp only: parse_value_other(3))
qed

lemma parse_value_back:
  "canonical c \<Longrightarrow> length (render depth fmt c) < f \<Longrightarrow> parses_back (parse_value f) depth fmt c"
proof (induction c arbitrary: depth f)
  case (CJ ty vs vi vd nm cs)
  obtain g where f: "f = Suc g" using CJ.prems(2) by (cases f) auto
  show ?case
    unfolding parses_back_def f
  proof (intro allI impI)
    fix item r
    assume item: "blank item" "cstring item = cstring (CJ ty vs vi vd nm cs)" and r: "number_end r"
    note len = CJ.prems(2) [unfolded f]
    from CJ.prems(1)
    show "parse_value (Suc g) Unlimited item (render depth fmt (CJ ty vs vi vd nm cs) @ r) =
        Done (CJ ty vs vi vd nm cs, r, Unlimited)"
    proof (cases rule: canonical_cases)
      case number
      then show ?thesis using parse_value_dec [OF number(3,4) r item(1)] item(2)
        by (simp only: render_simps render_number_int cjson.sel)
    next
      case string
      then show ?thesis using parse_value_string [OF string(3) item(1)] item(2)
        by (simp only: render_simps option.sel cjson.sel)
    next
      case array
      have "parse_value (Suc g) Unlimited item (render depth fmt (CJ ty vs vi vd nm cs) @ r) =
          Done (CJ cJSON_Array None 0 0 (cstring item) cs, r, Unlimited)"
        by (rule parse_value_array [OF array(5) item(1) _ _ len])
           (use CJ.IH array in \<open>auto simp only: render_simps\<close>)
      then show ?thesis using array item(2) by (simp only: cjson.sel)
    next
      case object
      have "parse_value (Suc g) Unlimited item (render depth fmt (CJ ty vs vi vd nm cs) @ r) =
          Done (CJ cJSON_Object None 0 0 (cstring item) cs, r, Unlimited)"
        by (rule parse_value_object [OF object(5) item(1) _ _ len])
           (use CJ.IH object in \<open>auto simp only: render_simps\<close>)
      then show ?thesis using object item(2) by (simp only: cjson.sel)
    qed (use parse_value_literals [OF item(1)] item(2) in \<open>simp_all only: render_simps cjson.sel\<close>)
  qed
qed

lemma parse_render:
  assumes "canonical c" "cstring c = None"
  shows "cJSON_ParseWithOpts Unlimited (render 0 fmt c) b = Done (c, [], Unlimited)"
proof -
  have "parses_back (parse_value (parse_fuel (render 0 fmt c))) 0 fmt c"
    by (rule parse_value_back [OF assms(1)]) (simp add: parse_fuel_def)
  moreover have "number_end []" by (simp add: number_end_def is_digit_def)
  ultimately have "parse_value (parse_fuel (render 0 fmt c)) Unlimited new_item (render 0 fmt c @ []) =
      Done (c, [], Unlimited)"
    using assms(2) blank_new_item unfolding parses_back_def by metis
  moreover have "skip (render 0 fmt c @ []) = render 0 fmt c @ []"
    by (rule skip_token) (rule token_render [OF assms(1)])
  ultimately show ?thesis by (simp add: cJSON_ParseWithOpts_def)
qed

text \<open>
  C4. What is printed is parsed back: for every tree whose numbers are integers and whose
  strings contain no NUL, both printers succeed, and the parser turns either text into the
  same tree, to its very end.
\<close>

theorem print_parse_roundtrip:
  assumes "canonical c" "cstring c = None"
  shows "\<exists>s u. cJSON_Print (Some c) Unlimited = Inr (Some s, Unlimited)
    \<and> cJSON_PrintUnformatted (Some c) Unlimited = Inr (Some u, Unlimited)
    \<and> cJSON_ParseWithOpts Unlimited s True = Done (c, [], Unlimited)
    \<and> cJSON_ParseWithOpts Unlimited u True = Done (c, [], Unlimited)
    \<and> cJSON_Parse Unlimited s = Inr (Some c)"
  using parse_render [OF assms] print_value_text [OF canonical_printable [OF assms(1)]]
  by (simp add: cJSON_Print_def cJSON_PrintUnformatted_def cJSON_Parse_def)

definition ex_json :: cjson where
  "ex_json = CJ cJSON_Object None 0 0 None
     [CJ cJSON_String (Some [CHR 0x0A, CHR 0x22]) 0 0 (Some ''name'') [],
      CJ cJSON_Array None 0 0 (Some ''list'')
        [CJ cJSON_Number None (- 12) (- 12) None [], CJ cJSON_True None 1 0 None []]]"

theorem print_parse_roundtrip_witness:
  "\<exists>s. cJSON_Print (Some ex_json) Unlimited = Inr (Some s, Unlimited)
     \<and> cJSON_Parse Unlimited s = Inr (Some ex_json)"
proof -
  have "canonical ex_json" "cstring ex_json = None"
    by (simp_all add: ex_json_def cJSON_types INT_MIN_def INT_MAX_def name_ok_def)
  from print_parse_roundtrip [OF this] show ?thesis by blast
qed

end
