(* ===== verification/CJSON_Ops.thy ===== *)
theory CJSON_Ops
  imports CJSON
begin

text \<open>
  What the operations on JSON trees promise: names are compared without regard to case, the
  first member of a name is the one that is found, detaching undoes inserting, and a
  duplicate is an equal tree in blocks of its own.
\<close>

section \<open>Comparing names\<close>

lemma tolower_NUL [simp]: "tolower NUL = NUL"
  by (simp add: tolower_def)

lemma strcasecmp_loop_0_iff:
  "NUL \<notin> set s \<Longrightarrow> NUL \<notin> set t \<Longrightarrow> strcasecmp_loop s t = 0 \<longleftrightarrow> map tolower s = map tolower t"
proof (induction s t rule: strcasecmp_loop.induct)
  case (1 t)
  show ?case
  proof (cases t)
    case (Cons c u)
    then have "c \<noteq> NUL" using 1 by auto
    then show ?thesis using Cons tolower_NUL_iff [of c] code_NUL_iff [of "tolower c"]
      by (auto simp del: tolower_NUL_iff)
  qed simp
next
  case (2 c s t)
  have c: "tolower c \<noteq> NUL" "c \<noteq> NUL" using "2.prems"(1) by auto
  show ?case
  proof (cases t)
    case Nil
    then show ?thesis using c code_NUL_iff [of "tolower c"] by auto
  next
    case (Cons e u)
    then show ?thesis using 2 c by auto
  qed
qed

lemma tolower_eq_code: "int (code (tolower c)) - int (code (tolower d)) = 0 \<longleftrightarrow> tolower c = tolower d"
  by auto

text \<open>
  Names are compared without regard to case: for strings, \<open>cJSON_strcasecmp\<close> is 0 exactly
  if they agree letter by letter after \<open>tolower\<close>; NULL equals only NULL.
\<close>

theorem strcasecmp_spec:
  assumes "\<forall>s \<in> set_option s1 \<union> set_option s2. NUL \<notin> set s"
  shows "cJSON_strcasecmp s1 s2 = 0 \<longleftrightarrow> map_option (map tolower) s1 = map_option (map tolower) s2"
  using assms by (auto simp: cJSON_strcasecmp_def strcasecmp_loop_0_iff split: option.splits)

theorem strcasecmp_spec_witness: "cJSON_strcasecmp (Some ''Plug_1'') (Some ''pLUG_1'') = 0"
proof -
  have "map tolower ''Plug_1'' = map tolower ''pLUG_1''" by code_simp
  then show ?thesis using strcasecmp_spec [of "Some ''Plug_1''" "Some ''pLUG_1''"] by simp
qed

text \<open>Two names that the lookups cannot tell apart.\<close>

definition same_name :: "string \<Rightarrow> string \<Rightarrow> bool" where
  "same_name s t \<longleftrightarrow> strcasecmp_loop s t = 0"

section \<open>Registries in which the first entry wins\<close>

text \<open>
  Members of an object and pages of the web server are kept in a list that grows at its end
  and is searched from its front.
\<close>

locale first_wins =
  fixes add :: "'k \<Rightarrow> 'v \<Rightarrow> 's \<Rightarrow> 's"
    and lookup :: "'k \<Rightarrow> 's \<Rightarrow> 'w option"
    and entry :: "'k \<Rightarrow> 'v \<Rightarrow> 'w"
    and same :: "'k \<Rightarrow> 'k \<Rightarrow> bool"
    and ok :: "'s \<Rightarrow> bool"
  assumes lookup_add: "ok s \<Longrightarrow> lookup k (add k' v s) =
      (case lookup k s of Some w \<Rightarrow> Some w | None \<Rightarrow> if same k' k then Some (entry k' v) else None)"
begin

lemma lookup_add_found: "ok s \<Longrightarrow> lookup k s = Some w \<Longrightarrow> lookup k (add k' v s) = Some w"
  by (simp add: lookup_add)

lemma lookup_add_new: "ok s \<Longrightarrow> lookup k s = None \<Longrightarrow> same k k \<Longrightarrow> lookup k (add k v s) = Some (entry k v)"
  by (simp add: lookup_add)

lemma lookup_add_other: "ok s \<Longrightarrow> \<not> same k' k \<Longrightarrow> lookup k (add k' v s) = lookup k s"
  by (simp add: lookup_add split: option.split)

end

lemma find_snoc:
  "find P (xs @ [x]) = (case find P xs of Some y \<Rightarrow> Some y | None \<Rightarrow> if P x then Some x else None)"
  by (induction xs) auto

lemma GetObjectItem_add:
  "cJSON_GetObjectItem (cJSON_AddItemToObject obj s (Some item)) k =
   (case cJSON_GetObjectItem obj k of
      Some w \<Rightarrow> Some w
    | None \<Rightarrow> if same_name s k then Some (set_cstring (Some s) item) else None)"
  by (simp add: cJSON_GetObjectItem_def cJSON_AddItemToObject_def cJSON_AddItemToArray_def
      suffix_object_def find_snoc key_matches_def cJSON_strcasecmp_def same_name_def)

interpretation members: first_wins "\<lambda>k v obj. cJSON_AddItemToObject obj k (Some v)"
  "\<lambda>k obj. cJSON_GetObjectItem obj k" "\<lambda>k v. set_cstring (Some k) v" same_name "\<lambda>_. True"
  by unfold_locales (simp add: GetObjectItem_add)

text \<open>
  Looking up what was added: a member is found under its own name in any mix of upper and
  lower case, unless an earlier member has that name, which then still is the one that is
  found; and adding it changes no lookup of another name.
\<close>

theorem object_lookup_spec:
  assumes "NUL \<notin> set s" "NUL \<notin> set k"
  shows "cJSON_GetObjectItem (cJSON_AddItemToObject obj s (Some item)) k =
    (case cJSON_GetObjectItem obj k of
       Some w \<Rightarrow> Some w
     | None \<Rightarrow> if map tolower s = map tolower k then Some (set_cstring (Some s) item) else None)"
  using members.lookup_add [where s = obj and k = k and k' = s and v = item] assms
  by (simp add: same_name_def strcasecmp_loop_0_iff)

theorem object_lookup_spec_witness:
  "cJSON_GetObjectItem (cJSON_AddItemToObject cJSON_CreateObject ''On'' (Some cJSON_CreateTrue)) ''oN'' =
   Some (set_cstring (Some ''On'') cJSON_CreateTrue)"
proof -
  have "map tolower ''On'' = map tolower ''oN''" by code_simp
  then show ?thesis using object_lookup_spec [of "''On''" "''oN''" cJSON_CreateObject cJSON_CreateTrue]
    by (simp add: cJSON_GetObjectItem_def cJSON_CreateObject_def new_item_def)
qed

section \<open>Lists\<close>

text \<open>
  Inserting at an index and detaching there again gives back the item and the array; so
  does appending and detaching the last one.
\<close>

theorem insert_detach:
  assumes "0 \<le> which" "which \<le> cJSON_GetArraySize array"
  shows "cJSON_DetachItemFromArray (cJSON_InsertItemInArray array which item) which = (Some item, array)
    \<and> cJSON_GetArraySize (cJSON_InsertItemInArray array which item) = cJSON_GetArraySize array + 1
    \<and> cJSON_GetArrayItem (cJSON_InsertItemInArray array which item) which = Some item"
proof -
  let ?cs = "cchild array" and ?i = "nat which"
  have i: "?i \<le> length ?cs" using assms by (simp add: cJSON_GetArraySize_def)
  have same: "set_cchild ?cs array = array" by (simp add: set_cchild_def)
  show ?thesis
  proof (cases "?i = length ?cs")
    case True
    then show ?thesis using same
      by (simp add: cJSON_InsertItemInArray_def cJSON_AddItemToArray_def suffix_object_def
          cJSON_DetachItemFromArray_def cJSON_GetArraySize_def cJSON_GetArrayItem_def Let_def
          set_cchild_def)
  next
    case False
    with i have "?i < length ?cs" by simp
    then show ?thesis using same
      by (simp add: cJSON_InsertItemInArray_def cJSON_DetachItemFromArray_def
          cJSON_GetArraySize_def cJSON_GetArrayItem_def Let_def nth_append min_def set_cchild_def)
  qed
qed

theorem insert_detach_witness:
  "cJSON_DetachItemFromArray (cJSON_InsertItemInArray cJSON_CreateArray 0 cJSON_CreateTrue) 0 =
   (Some cJSON_CreateTrue, cJSON_CreateArray)"
  using insert_detach [of 0 cJSON_CreateArray cJSON_CreateTrue]
  by (simp add: cJSON_GetArraySize_def cJSON_CreateArray_def new_item_def)

section \<open>Duplicates\<close>

text \<open>The tree a duplicate is: the reference flags are gone.\<close>

fun dereferenced :: "cjson \<Rightarrow> cjson" where
  "dereferenced (CJ ty vs vi vd nm cs) = CJ (clear_reference ty) vs vi vd nm (map dereferenced cs)"

text \<open>Trees without constant names.\<close>

fun owns_names :: "cjson \<Rightarrow> bool" where
  "owns_names (CJ ty vs vi vd nm cs) \<longleftrightarrow> ty AND cJSON_StringIsConst = 0 \<and> (\<forall>c \<in> set cs. owns_names c)"

lemma and_pow2: "(n :: nat) AND 2 ^ k = (if bit n k then 2 ^ k else 0)"
  by (rule bit_eqI) (auto simp: bit_simps)

lemma clear_reference_not: "clear_reference ty AND cJSON_IsReference = 0"
proof (cases "ty AND cJSON_IsReference = 0")
  case False
  then have b: "bit ty 8" using and_pow2 [of ty 8] by (simp add: cJSON_IsReference_def split: if_splits)
  then have "odd (ty div 256)" by (simp add: bit_iff_odd)
  then obtain q where q: "ty div 256 = 2 * q + 1" by (auto elim: oddE)
  have "ty = 256 * (ty div 256) + ty mod 256" by simp
  then have "ty - 256 = 256 * (2 * q) + ty mod 256" using q by simp
  then have "(ty - 256) div 256 = 2 * q" by simp
  then have "\<not> bit (ty - 256) 8" by (simp add: bit_iff_odd)
  then have "(ty - 256) AND 2 ^ 8 = 0" using and_pow2 [of "ty - 256" 8] by simp
  with False show ?thesis by (simp add: clear_reference_def cJSON_IsReference_def)
qed (simp add: clear_reference_def)

lemma clear_reference_const:
  "clear_reference ty AND cJSON_StringIsConst = ty AND cJSON_StringIsConst"
proof (cases "ty AND cJSON_IsReference = 0")
  case False
  then have b: "bit ty 8" using and_pow2 [of ty 8] by (simp add: cJSON_IsReference_def split: if_splits)
  then have "odd (ty div 256)" by (simp add: bit_iff_odd)
  then obtain q where q: "ty div 256 = 2 * q + 1" by (auto elim: oddE)
  have "ty = 256 * (ty div 256) + ty mod 256" by simp
  then have e: "ty - 256 = 256 * (2 * q) + ty mod 256" "ty = 256 * (2 * q + 1) + ty mod 256"
    using q by simp_all
  have "(ty - 256) div 512 = q"
  proof -
    have "(ty - 256) div 512 = (ty - 256) div 256 div 2" by (simp add: div_mult2_eq [symmetric])
    with e(1) show ?thesis by simp
  qed
  moreover have "ty div 512 = q"
  proof -
    have "ty div 512 = ty div 256 div 2" by (simp add: div_mult2_eq [symmetric])
    with q show ?thesis by simp
  qed
  ultimately have "bit (ty - 256) 9 = bit ty 9" by (simp add: bit_iff_odd)
  then have "(ty - 256) AND 2 ^ 9 = ty AND 2 ^ 9" by (simp only: and_pow2)
  with False show ?thesis by (simp add: clear_reference_def cJSON_IsReference_def cJSON_StringIsConst_def)
qed (simp add: clear_reference_def)

lemma Delete_single:
  "cJSON_Delete (c # cs) = cJSON_Delete [c] + cJSON_Delete cs"
  by (cases c) simp

lemma strdup_opt_allocs: "strdup_opt m s = allocs (if s = None then 0 else 1) m"
  by (simp add: strdup_opt_def split: option.splits)

lemma allocs_bind:
  "allocs (n + k) m = Some m' \<longleftrightarrow> (\<exists>m1. allocs n m = Some m1 \<and> allocs k m1 = Some m')"
  by (auto simp: allocs_add split: option.splits)

lemma duplicate_spec:
  "owns_names c \<Longrightarrow> cJSON_Duplicate m c True = Some (d, m') \<Longrightarrow>
     d = dereferenced c \<and> allocs (cJSON_Delete [d]) m = Some m'"
  "\<forall>c \<in> set cs. owns_names c \<Longrightarrow> duplicate_chain m cs = Some (ds, m') \<Longrightarrow>
     ds = map dereferenced cs \<and> allocs (cJSON_Delete ds) m = Some m'"
proof (induction m c True and m cs arbitrary: d m' and ds m' rule: cJSON_Duplicate_duplicate_chain.induct)
  case (1 m ty vs vi vd nm cs)
  from "1.prems"(2) obtain m1 m2 m3 es where
    a: "alloc m = Some m1" "strdup_opt m1 vs = Some m2" "strdup_opt m2 nm = Some m3"
    and e: "duplicate_chain m3 cs = Some (es, m')"
    and d: "d = CJ (clear_reference ty) vs vi vd nm es"
    by (auto split: option.splits)
  from "1.hyps" [OF a _ ] e "1.prems"(1)
  have ih: "es = map dereferenced cs" "allocs (cJSON_Delete es) m3 = Some m'" by auto
  have del: "cJSON_Delete [d] = 1 + (if vs = None then 0 else 1) + (if nm = None then 0 else 1) + cJSON_Delete es"
    using "1.prems"(1) by (auto simp: d clear_reference_not clear_reference_const)
  have "allocs (cJSON_Delete [d]) m = Some m'"
    unfolding del using a ih(2) by (auto simp: allocs_bind strdup_opt_allocs)
  then show ?case using d ih by simp
next
  case (3 m c cs)
  from "3.prems"(2) obtain e m1 es where
    c: "cJSON_Duplicate m c True = Some (e, m1)" and r: "duplicate_chain m1 cs = Some (es, m')"
    and ds: "ds = e # es"
    by (auto split: option.splits)
  from "3.hyps"(1) [OF _ c] "3.hyps"(2) [OF c refl _ r] "3.prems"(1)
  have "e = dereferenced c \<and> allocs (cJSON_Delete [e]) m = Some m1"
    "es = map dereferenced cs \<and> allocs (cJSON_Delete es) m1 = Some m'" by auto
  then show ?case by (auto simp: ds Delete_single [of "dereferenced c" "map dereferenced cs"] allocs_bind)
qed simp_all

text \<open>
  C38. A duplicate is the same tree without the reference flags, and it owns what it consists
  of: deleting it frees exactly as many blocks as making it took, provided no name of the
  original is marked constant.
\<close>

theorem duplicate_owns_copy:
  assumes "owns_names c" and "cJSON_Duplicate m c True = Some (d, m')"
  shows "d = dereferenced c \<and> allocs (cJSON_Delete [d]) m = Some m'"
  using assms by (rule duplicate_spec(1))

theorem duplicate_owns_copy_witness:
  "\<exists>d m'. cJSON_Duplicate (Limited 5) (create_reference (set_cstring (Some ''n'') cJSON_CreateTrue)) True = Some (d, m')
     \<and> allocs (cJSON_Delete [d]) (Limited 5) = Some m'"
proof -
  let ?c = "create_reference (set_cstring (Some ''n'') cJSON_CreateTrue)"
  have "owns_names ?c" by code_simp
  moreover have "cJSON_Duplicate (Limited 5) ?c True = Some (CJ 1 None 0 0 None [], Limited 4)"
    by code_simp
  ultimately show ?thesis using duplicate_owns_copy by blast
qed

text \<open>
  A constant name leaks: the duplicate keeps the flag that says its name is not its own,
  but the name was copied, so deleting the duplicate frees one block less than making it took.
\<close>

theorem duplicate_const_name_leaks:
  "\<exists>d. cJSON_Duplicate (Limited 5)
         (CJ (cJSON_True OR cJSON_StringIsConst) None 1 0 (Some ''k'') []) True = Some (d, Limited 3)
     \<and> allocs (cJSON_Delete [d]) (Limited 5) = Some (Limited 4)"
  by (rule exI [of _ "CJ (cJSON_True OR cJSON_StringIsConst) None 1 0 (Some ''k'') []"]) (rule conjI; code_simp)

end
