(* ===== verification/CJSON_Buffer.thy ===== *)
theory CJSON_Buffer
  imports CJSON_Print
begin

text \<open>
  The rest of \<open>src/cJSON/cJSON.c\<close>: printing into a growing buffer (\<open>printbuffer\<close>, \<open>ensure\<close>,
  \<open>update\<close>, the branches of the printing routines that have one, \<open>cJSON_PrintBuffered\<close>) and the
  minifier.

  The bytes of a block are options: \<open>None\<close> is a byte that was never written, and to read one is
  the fault \<open>OutOfBounds\<close>.  All lengths are within the range of \<open>int\<close>.  A routine returns
  whether its pointer is not NULL; where it points is the offset at which it was called.
\<close>

section \<open>The buffer\<close>

record printbuffer =
  pb_buffer :: "char option list option"
  pb_length :: nat
  pb_offset :: nat

definition pow2gt :: "int \<Rightarrow> int" where
  "pow2gt x =
     (let a = x - 1; b = a OR drop_bit 1 a; c = b OR drop_bit 2 b; d = c OR drop_bit 4 c;
          e = d OR drop_bit 8 d; f = e OR drop_bit 16 e
      in f + 1)"

definition ensure :: "nat \<Rightarrow> printbuffer \<Rightarrow> mem \<Rightarrow> bool \<times> printbuffer \<times> mem" where
  "ensure needed p m =
     (case pb_buffer p of
        None \<Rightarrow> (False, p, m)
      | Some b \<Rightarrow>
          let needed' = needed + pb_offset p
          in if needed' \<le> pb_length p then (True, p, m)
             else let newsize = nat (pow2gt (int needed'))
                  in (case alloc m of
                        None \<Rightarrow> (False, p\<lparr>pb_length := 0, pb_buffer := None\<rparr>, m)
                      | Some m' \<Rightarrow>
                          (True, p\<lparr>pb_length := newsize,
                                   pb_buffer := Some (take (pb_length p) b @ replicate (newsize - pb_length p) None)\<rparr>,
                           m')))"

fun mem_strlen :: "char option list \<Rightarrow> nat res" where
  "mem_strlen [] = Inl OutOfBounds"
| "mem_strlen (None # b) = Inl OutOfBounds"
| "mem_strlen (Some c # b) = (if c = NUL then Inr 0 else rmap Suc (mem_strlen b))"

definition update :: "printbuffer \<Rightarrow> nat res" where
  "update p =
     (case pb_buffer p of
        None \<Rightarrow> Inr 0
      | Some b \<Rightarrow> rmap (\<lambda>n. pb_offset p + n) (mem_strlen (drop (pb_offset p) b)))"

text \<open>Writing the bytes \<open>s\<close> at \<open>p->buffer + p->offset\<close>.\<close>

definition poke :: "string \<Rightarrow> printbuffer \<Rightarrow> printbuffer res" where
  "poke s p =
     (case pb_buffer p of
        None \<Rightarrow> Inl NullDeref
      | Some b \<Rightarrow>
          if pb_offset p + length s \<le> length b
          then Inr (p\<lparr>pb_buffer := Some (take (pb_offset p) b @ map Some s @ drop (pb_offset p + length s) b)\<rparr>)
          else Inl BufferOverflow)"

type_synonym pbout = "(bool \<times> printbuffer \<times> mem) res"

text \<open>\<open>ptr = ensure(p, n)\<close>, leaving on NULL, and the bytes that are written there.\<close>

definition put_text :: "nat \<Rightarrow> string \<Rightarrow> printbuffer \<Rightarrow> mem \<Rightarrow> pbout" where
  "put_text n s p m =
     (case ensure n p m of
        (ok, p1, m1) \<Rightarrow> if ok then rmap (\<lambda>p2. (True, p2, m1)) (poke s p1) else Inr (False, p1, m1))"

text \<open>What follows a step that did not return 0.\<close>

definition and_then :: "pbout \<Rightarrow> (printbuffer \<Rightarrow> mem \<Rightarrow> pbout) \<Rightarrow> pbout" where
  "and_then r f = rbind r (\<lambda>(ok, p, m). if ok then f p m else Inr (False, p, m))"

text \<open>The same with \<open>p->offset += k\<close> behind it.\<close>

definition put_step :: "nat \<Rightarrow> string \<Rightarrow> nat \<Rightarrow> printbuffer \<Rightarrow> mem \<Rightarrow> pbout" where
  "put_step n s k p m =
     and_then (put_text n s p m) (\<lambda>p1 m1. Inr (True, p1\<lparr>pb_offset := pb_offset p1 + k\<rparr>, m1))"

text \<open>A call whose result is not looked at, and \<open>p->offset = update(p)\<close>.\<close>

definition and_update :: "pbout \<Rightarrow> pbout" where
  "and_update r = rbind r (\<lambda>(_, p, m). rmap (\<lambda>n. (True, p\<lparr>pb_offset := n\<rparr>, m)) (update p))"

section \<open>Printing\<close>

definition cs_text :: "string \<Rightarrow> string" where
  "cs_text s = s @ [NUL]"

definition print_number_pb :: "cjson \<Rightarrow> printbuffer \<Rightarrow> mem \<Rightarrow> pbout" where
  "print_number_pb item p m =
     (let d = cvaluedouble item
      in if d = 0 then put_text 2 (cs_text ''0'') p m
         else if \<bar>dbl_add (of_int (cvalueint item)) (- d)\<bar> \<le> DBL_EPSILON
                 \<and> d \<le> of_int INT_MAX \<and> of_int INT_MIN \<le> d
              then put_text 21 (cs_text (dec_int (cvalueint item))) p m
         else put_text 64 (cs_text (number_text d)) p m)"

definition print_string_ptr_pb :: "string option \<Rightarrow> printbuffer \<Rightarrow> mem \<Rightarrow> pbout" where
  "print_string_ptr_pb str p m =
     rbind (deref str) (\<lambda>s.
       if \<not> list_ex needs_escape s then put_text (length s + 3) (cs_text (quoted s)) p m
       else put_text (sum_list (map escaped_len s) + 3) (cs_text (quoted (concat (map escape_char s)))) p m)"

text \<open>One turn of each loop; \<open>nxt\<close> says whether \<open>child->next\<close> is there.\<close>

definition elem_turn_pb ::
  "bool \<Rightarrow> bool \<Rightarrow> (printbuffer \<Rightarrow> mem \<Rightarrow> pbout) \<Rightarrow> (printbuffer \<Rightarrow> mem \<Rightarrow> pbout) \<Rightarrow> printbuffer \<Rightarrow> mem \<Rightarrow> pbout" where
  "elem_turn_pb fmt nxt pv rest p m =
     and_then (and_update (pv p m)) (\<lambda>p1 m1.
     and_then (if nxt then let len = (if fmt then 2 else 1)
                            in put_step (len + 1) (cs_text ('','' @ (if fmt then '' '' else []))) len p1 m1
               else Inr (True, p1, m1)) rest)"

definition print_array_pb ::
  "bool \<Rightarrow> cjson list \<Rightarrow> (printbuffer \<Rightarrow> mem \<Rightarrow> pbout) \<Rightarrow> printbuffer \<Rightarrow> mem \<Rightarrow> pbout" where
  "print_array_pb fmt cs elems p m =
     (if cs = [] then put_text 3 (cs_text ''[]'') p m
      else and_then (put_step 1 ''['' 1 p m) (\<lambda>p1 m1.
           and_then (elems p1 m1) (put_text 2 (cs_text '']''))))"

definition member_turn_pb ::
  "nat \<Rightarrow> bool \<Rightarrow> string option \<Rightarrow> bool \<Rightarrow> (printbuffer \<Rightarrow> mem \<Rightarrow> pbout) \<Rightarrow> (printbuffer \<Rightarrow> mem \<Rightarrow> pbout)
   \<Rightarrow> printbuffer \<Rightarrow> mem \<Rightarrow> pbout" where
  "member_turn_pb depth fmt name nxt pv rest p m =
     and_then (if fmt then put_step depth (tabs depth) depth p m else Inr (True, p, m)) (\<lambda>p1 m1.
     and_then (and_update (print_string_ptr_pb name p1 m1)) (\<lambda>p2 m2.
     and_then (let len = (if fmt then 2 else 1)
               in put_step len ('':'' @ (if fmt then [CHR 0x09] else [])) len p2 m2) (\<lambda>p3 m3.
     and_then (and_update (pv p3 m3)) (\<lambda>p4 m4.
     and_then (let len = (if fmt then 1 else 0) + (if nxt then 1 else 0)
               in put_step (len + 1)
                    (cs_text ((if nxt then '','' else []) @ (if fmt then [CHR 0x0A] else []))) len p4 m4) rest))))"

definition print_object_pb ::
  "nat \<Rightarrow> bool \<Rightarrow> cjson list \<Rightarrow> (printbuffer \<Rightarrow> mem \<Rightarrow> pbout) \<Rightarrow> printbuffer \<Rightarrow> mem \<Rightarrow> pbout" where
  "print_object_pb depth fmt cs members p m =
     (if cs = [] then put_text (if fmt then depth + 4 else 3) (cs_text (empty_object_text depth fmt)) p m
      else and_then (let len = (if fmt then 2 else 1)
                     in put_step (len + 1) (cs_text (''{'' @ (if fmt then [CHR 0x0A] else []))) len p m) (\<lambda>p1 m1.
           and_then (members p1 m1)
             (put_text (if fmt then Suc depth + 1 else 2)
                (cs_text ((if fmt then tabs (Suc depth - 1) else []) @ ''}'')))))"

fun print_value_pb :: "cjson \<Rightarrow> nat \<Rightarrow> bool \<Rightarrow> printbuffer \<Rightarrow> mem \<Rightarrow> pbout"
  and print_elems_pb :: "cjson list \<Rightarrow> nat \<Rightarrow> bool \<Rightarrow> printbuffer \<Rightarrow> mem \<Rightarrow> pbout"
  and print_members_pb :: "cjson list \<Rightarrow> nat \<Rightarrow> bool \<Rightarrow> printbuffer \<Rightarrow> mem \<Rightarrow> pbout" where
  "print_value_pb (CJ ty vs vi vd nm cs) depth fmt p m =
     (let k = ty AND 255
      in if k = cJSON_NULL then put_text 5 (cs_text ''null'') p m
         else if k = cJSON_False then put_text 6 (cs_text ''false'') p m
         else if k = cJSON_True then put_text 5 (cs_text ''true'') p m
         else if k = cJSON_Number then print_number_pb (CJ ty vs vi vd nm cs) p m
         else if k = cJSON_String then print_string_ptr_pb vs p m
         else if k = cJSON_Array
         then print_array_pb fmt cs (\<lambda>p' m'. print_elems_pb cs (Suc depth) fmt p' m') p m
         else if k = cJSON_Object
         then print_object_pb depth fmt cs (\<lambda>p' m'. print_members_pb cs (Suc depth) fmt p' m') p m
         else Inr (False, p, m))"
| "print_elems_pb [] depth fmt p m = Inr (True, p, m)"
| "print_elems_pb (c # cs) depth fmt p m =
     elem_turn_pb fmt (cs \<noteq> []) (\<lambda>p' m'. print_value_pb c depth fmt p' m')
       (\<lambda>p' m'. print_elems_pb cs depth fmt p' m') p m"
| "print_members_pb [] depth fmt p m = Inr (True, p, m)"
| "print_members_pb (c # cs) depth fmt p m =
     member_turn_pb depth fmt (cstring c) (cs \<noteq> []) (\<lambda>p' m'. print_value_pb c depth fmt p' m')
       (\<lambda>p' m'. print_members_pb cs depth fmt p' m') p m"

text \<open>The string at the start of the block.\<close>

fun mem_cstr :: "char option list \<Rightarrow> string res" where
  "mem_cstr [] = Inl OutOfBounds"
| "mem_cstr (None # b) = Inl OutOfBounds"
| "mem_cstr (Some c # b) = (if c = NUL then Inr [] else rmap ((#) c) (mem_cstr b))"

definition cJSON_PrintBuffered :: "cjson option \<Rightarrow> nat \<Rightarrow> bool \<Rightarrow> mem \<Rightarrow> pout" where
  "cJSON_PrintBuffered item prebuffer fmt m =
     (let (buf, m1) = (case alloc m of None \<Rightarrow> (None, m) | Some m' \<Rightarrow> (Some (replicate prebuffer None), m'));
          p = \<lparr>pb_buffer = buf, pb_length = prebuffer, pb_offset = 0\<rparr>
      in (case item of
            None \<Rightarrow> Inr (None, m1)
          | Some c \<Rightarrow>
              rbind (print_value_pb c 0 fmt p m1) (\<lambda>(ok, p', m').
                if ok then rbind (deref (pb_buffer p')) (\<lambda>b. rmap (\<lambda>s. (Some s, m')) (mem_cstr b))
                else Inr (None, m'))))"

end
