(* ===== verification/CJSON_BufferProps.thy ===== *)
theory CJSON_BufferProps
  imports CJSON_Buffer CJSON_PrintProps
begin

text \<open>
  What the buffered printer promises: it never writes outside its buffer or reads a byte that was
  not written, and it prints what the printer without a buffer prints.
\<close>

section \<open>Room in the buffer\<close>

lemma or_ge: "0 \<le> (x :: int) \<Longrightarrow> 0 \<le> y \<Longrightarrow> x \<le> x OR y"
  by (rule or_greater_eq)

lemma pow2gt_ge: "1 \<le> x \<Longrightarrow> x \<le> pow2gt x"
proof -
  have step: "0 \<le> a \<Longrightarrow> 0 \<le> a OR drop_bit n a \<and> a \<le> a OR drop_bit n a" for a :: int and n
    by (auto simp: or_ge)
  assume "1 \<le> x"
  then show ?thesis
    unfolding pow2gt_def Let_def
    using step [of "x - 1" 1] step [of "(x - 1) OR drop_bit 1 (x - 1)" 2]
    by (smt (verit) step)
qed

text \<open>The text \<open>t\<close> is in the buffer, and the next byte goes behind \<open>k\<close> bytes of it.\<close>

definition holding :: "printbuffer \<Rightarrow> string \<Rightarrow> nat \<Rightarrow> bool" where
  "holding p t k \<longleftrightarrow>
     (\<exists>b. pb_buffer p = Some b \<and> length b = pb_length p \<and> pb_offset p = k \<and> k \<le> length t
        \<and> length t \<le> length b \<and> take (length t) b = map Some t)"

lemma ensure_holding:
  assumes "holding p t k"
  shows "\<exists>p'. ensure n p Unlimited = (True, p', Unlimited) \<and> holding p' t k \<and> n + k \<le> pb_length p'"
proof -
  obtain b where b: "pb_buffer p = Some b" "length b = pb_length p" "pb_offset p = k" "k \<le> length t"
    "length t \<le> length b" "take (length t) b = map Some t"
    using assms by (auto simp: holding_def)
  show ?thesis
  proof (cases "n + k \<le> pb_length p")
    case True
    then show ?thesis using b assms by (auto simp: ensure_def)
  next
    case False
    then have "1 \<le> int (n + k)" by simp
    from pow2gt_ge [OF this] have "n + k \<le> nat (pow2gt (int (n + k)))" by linarith
    moreover have "take (length t) (b @ c) = map Some t" for c using b(5,6) by simp
    ultimately show ?thesis using False b
      by (auto simp: ensure_def Let_def holding_def add.commute)
  qed
qed

lemma put_text_holding:
  assumes "holding p t k" "length s \<le> n"
  shows "\<exists>p'. put_text n s p Unlimited = Inr (True, p', Unlimited) \<and> holding p' (take k t @ s) k"
proof -
  obtain p1 where p1: "ensure n p Unlimited = (True, p1, Unlimited)" "holding p1 t k" "n + k \<le> pb_length p1"
    using ensure_holding [OF assms(1)] by blast
  then obtain b where b: "pb_buffer p1 = Some b" "length b = pb_length p1" "pb_offset p1 = k" "k \<le> length t"
    "length t \<le> length b" "take (length t) b = map Some t"
    by (auto simp: holding_def)
  have "take k b = map Some (take k t)"
    using arg_cong [OF b(6), of "take k"] b(4) by (simp add: min_absorb1 take_map)
  then show ?thesis using p1 b assms(2)
    by (auto simp: put_text_def poke_def holding_def)
qed

lemma mem_strlen_text: "NUL \<notin> set s \<Longrightarrow> mem_strlen (map Some s @ Some NUL # b) = Inr (length s)"
  by (induction s) auto

lemma mem_cstr_text: "NUL \<notin> set s \<Longrightarrow> mem_cstr (map Some s @ Some NUL # b) = Inr s"
  by (induction s) auto

lemma update_holding:
  assumes "holding p (t @ cs_text s) k" "length t \<le> k" "k \<le> length t + length s" "NUL \<notin> set s"
  shows "update p = Inr (length t + length s)"
proof -
  obtain b where b: "pb_buffer p = Some b" "pb_offset p = k" "take (length t + length s + 1) b = map Some (t @ s @ [NUL])"
    using assms(1) by (auto simp: holding_def cs_text_def)
  define c where "c = drop (length t + length s + 1) b"
  have "b = map Some (t @ s @ [NUL]) @ c" by (metis b(3) append_take_drop_id c_def)
  moreover obtain i where i: "k = length t + i" "i \<le> length s" using assms(2,3) by (metis add_le_cancel_left le_Suc_ex)
  ultimately have "drop k b = map Some (drop i s) @ Some NUL # c" by (simp add: drop_map)
  moreover have "NUL \<notin> set (drop i s)" using assms(4) by (auto dest: in_set_dropD)
  ultimately show ?thesis using b i by (simp add: update_def mem_strlen_text)
qed

text \<open>
  A routine that puts \<open>s\<close> and its NUL at the offset it is called with, and one that puts \<open>s\<close>
  there and moves the offset behind it.
\<close>

definition prints :: "(printbuffer \<Rightarrow> mem \<Rightarrow> pbout) \<Rightarrow> string \<Rightarrow> bool" where
  "prints f s \<longleftrightarrow>
     (\<forall>p t. holding p t (length t) \<longrightarrow>
        (\<exists>p' k. f p Unlimited = Inr (True, p', Unlimited) \<and> holding p' (t @ cs_text s) k
              \<and> length t \<le> k \<and> k \<le> length t + length s))"

definition appends :: "(printbuffer \<Rightarrow> mem \<Rightarrow> pbout) \<Rightarrow> string \<Rightarrow> bool" where
  "appends f s \<longleftrightarrow>
     (\<forall>p t. holding p t (length t) \<longrightarrow>
        (\<exists>p'. f p Unlimited = Inr (True, p', Unlimited) \<and> holding p' (t @ s) (length t + length s)))"

lemma holding_shorter: "holding p (t @ x) k \<Longrightarrow> k \<le> length t \<Longrightarrow> holding p t k"
proof -
  assume "holding p (t @ x) k" "k \<le> length t"
  then obtain b where b: "pb_buffer p = Some b" "length b = pb_length p" "pb_offset p = k"
    "length (t @ x) \<le> length b" "take (length (t @ x)) b = map Some (t @ x)"
    by (auto simp: holding_def)
  have "take (length t) b = map Some t"
    using arg_cong [OF b(5), of "take (length t)"] by (simp add: min_absorb1)
  with b \<open>k \<le> length t\<close> show ?thesis by (auto simp: holding_def)
qed

lemma appends_nothing: "appends (\<lambda>p m. Inr (True, p, m)) []"
  by (simp add: appends_def)

lemma appends_step:
  assumes "length s \<le> n" "j \<le> length s"
  shows "appends (put_step n s j) (take j s)"
  unfolding appends_def
proof (intro allI impI)
  fix p t assume "holding p t (length t)"
  from put_text_holding [OF this assms(1)] obtain p' where
    p': "put_text n s p Unlimited = Inr (True, p', Unlimited)" "holding p' (t @ s) (length t)" by auto
  let ?q = "p'\<lparr>pb_offset := pb_offset p' + j\<rparr>"
  have "holding ?q (t @ s) (length t + j)" using p'(2) assms(2) by (auto simp: holding_def)
  then have "holding ?q ((t @ take j s) @ drop j s) (length t + j)" by simp
  then have "holding ?q (t @ take j s) (length t + j)"
    by (rule holding_shorter) (use assms(2) in simp)
  then show "\<exists>p'. put_step n s j p Unlimited = Inr (True, p', Unlimited)
      \<and> holding p' (t @ take j s) (length t + length (take j s))"
    using p'(1) assms(2) by (intro exI [of _ ?q]) (simp add: put_step_def and_then_def min_absorb2)
qed

lemma prints_text:
  assumes "length s < n"
  shows "prints (put_text n (cs_text s)) s"
  unfolding prints_def
proof (intro allI impI)
  fix p t assume h: "holding p t (length t)"
  have "length (cs_text s) \<le> n" using assms by (simp add: cs_text_def)
  from put_text_holding [OF h this] obtain p' where
    "put_text n (cs_text s) p Unlimited = Inr (True, p', Unlimited)" "holding p' (t @ cs_text s) (length t)"
    by auto
  then show "\<exists>p' k. put_text n (cs_text s) p Unlimited = Inr (True, p', Unlimited)
      \<and> holding p' (t @ cs_text s) k \<and> length t \<le> k \<and> k \<le> length t + length s"
    by (intro exI [of _ p'] exI [of _ "length t"]) simp
qed

lemma appends_then:
  assumes "appends f s" "appends g s'"
  shows "appends (\<lambda>p m. and_then (f p m) g) (s @ s')"
  unfolding appends_def
proof (intro allI impI)
  fix p t assume "holding p t (length t)"
  then obtain p1 where "f p Unlimited = Inr (True, p1, Unlimited)" "holding p1 (t @ s) (length (t @ s))"
    using assms(1) by (auto simp: appends_def)
  moreover from this(2) obtain p2 where "g p1 Unlimited = Inr (True, p2, Unlimited)"
    "holding p2 ((t @ s) @ s') (length (t @ s) + length s')"
    using assms(2) unfolding appends_def by blast
  ultimately show "\<exists>p'. and_then (f p Unlimited) g = Inr (True, p', Unlimited)
      \<and> holding p' (t @ s @ s') (length t + length (s @ s'))"
    by (auto simp: and_then_def add.assoc)
qed

lemma prints_then:
  assumes "appends f s" "prints g s'"
  shows "prints (\<lambda>p m. and_then (f p m) g) (s @ s')"
  unfolding prints_def
proof (intro allI impI)
  fix p t assume "holding p t (length t)"
  then obtain p1 where "f p Unlimited = Inr (True, p1, Unlimited)" "holding p1 (t @ s) (length (t @ s))"
    using assms(1) by (auto simp: appends_def)
  moreover from this(2) obtain p2 k where "g p1 Unlimited = Inr (True, p2, Unlimited)"
    "holding p2 ((t @ s) @ cs_text s') k" "length (t @ s) \<le> k" "k \<le> length (t @ s) + length s'"
    using assms(2) unfolding prints_def by blast
  ultimately show "\<exists>p' k. and_then (f p Unlimited) g = Inr (True, p', Unlimited)
      \<and> holding p' (t @ cs_text (s @ s')) k \<and> length t \<le> k \<and> k \<le> length t + length (s @ s')"
    by (intro exI [of _ p2] exI [of _ k]) (auto simp: and_then_def cs_text_def)
qed

lemma appends_update:
  assumes "prints f s" "NUL \<notin> set s"
  shows "appends (\<lambda>p m. and_update (f p m)) s"
  unfolding appends_def
proof (intro allI impI)
  fix p t assume "holding p t (length t)"
  then obtain p1 k where p1: "f p Unlimited = Inr (True, p1, Unlimited)" "holding p1 (t @ cs_text s) k"
    "length t \<le> k" "k \<le> length t + length s"
    using assms(1) unfolding prints_def by blast
  have "update p1 = Inr (length t + length s)"
    by (rule update_holding [OF p1(2-4) assms(2)])
  moreover have "holding (p1\<lparr>pb_offset := length t + length s\<rparr>) ((t @ s) @ [NUL]) (length t + length s)"
    using p1(2) by (auto simp: holding_def cs_text_def)
  then have "holding (p1\<lparr>pb_offset := length t + length s\<rparr>) (t @ s) (length t + length s)"
    by (rule holding_shorter) simp
  ultimately show "\<exists>p'. and_update (f p Unlimited) = Inr (True, p', Unlimited)
      \<and> holding p' (t @ s) (length t + length s)"
    using p1(1) by (auto simp: and_update_def)
qed

section \<open>The text in the buffer\<close>

text \<open>No rendering contains a NUL.\<close>

lemma NUL_fmt: "NUL \<notin> set (fmt_f0 d)" "NUL \<notin> set (fmt_f d)" "NUL \<notin> set (fmt_e d)"
  by (auto simp: fmt_f0_def fmt_f_def fmt_e_def fmt_sign_def six_places_def pad0_def Let_def split: if_splits)

lemma NUL_hex_digit: "n < 16 \<Longrightarrow> NUL \<noteq> hex_digit n"
proof
  assume "n < 16" "NUL = hex_digit n"
  then have "code NUL = code (hex_digit n)" by simp
  with \<open>n < 16\<close> show False by (simp add: hex_digit_def split: if_splits)
qed

lemma NUL_hex4: "NUL \<notin> set (hex4 n)"
proof -
  have h: "NUL \<noteq> hex_digit (n mod 16)" for n by (rule NUL_hex_digit) simp
  then show ?thesis unfolding hex4_def by (simp only: set_simps insert_iff h empty_iff simp_thms)
qed

lemma NUL_escape_char: "NUL \<noteq> c \<Longrightarrow> NUL \<notin> set (escape_char c)"
proof -
  have "set (escape_char c) \<subseteq> {c, CHR 0x5C, CHR 0x22} \<union> set ''bfnrtu'' \<union> set (hex4 (code c))"
    by (auto simp: escape_char_def)
  moreover assume "NUL \<noteq> c"
  then have "NUL \<notin> {c, CHR 0x5C, CHR 0x22} \<union> set ''bfnrtu'' \<union> set (hex4 (code c))"
    by (simp add: NUL_hex4)
  ultimately show ?thesis by blast
qed

lemma NUL_string_text:
  assumes "NUL \<notin> set s"
  shows "NUL \<notin> set (string_text s)"
proof -
  have "NUL \<notin> set (concat (map escape_char s))"
    using assms by (induction s) (simp_all add: NUL_escape_char)
  then show ?thesis by (simp add: string_text_def quoted_def)
qed

lemma NUL_join_entries: "(\<And>e. e \<in> set es \<Longrightarrow> NUL \<notin> set e) \<Longrightarrow> NUL \<notin> set (join_entries fmt es)"
  by (induction fmt es rule: join_entries.induct) auto

lemma NUL_tabs [simp]: "NUL \<notin> set (tabs n)"
  by (simp add: tabs_def)

lemma NUL_join_members:
  "(\<And>n e. (n, e) \<in> set ms \<Longrightarrow> NUL \<notin> set n \<and> NUL \<notin> set e) \<Longrightarrow> NUL \<notin> set (join_members depth fmt ms)"
  by (induction depth fmt ms rule: join_members.induct) auto

lemma NUL_number: "NUL \<notin> set (render_number i d)"
  by (simp add: render_number_def number_text_def NUL_fmt)

lemma name_okE:
  assumes "name_ok c"
  obtains s where "cstring c = Some s" "NUL \<notin> set s"
  using assms by (auto simp: name_ok_def split: option.splits)

lemma printable_cases:
  assumes "printable (CJ ty vs vi vd nm cs)"
  obtains "ty AND 255 \<in> {cJSON_NULL, cJSON_False, cJSON_True}"
    | "ty AND 255 = cJSON_Number" "INT_MIN \<le> vi" "vi \<le> INT_MAX" "is_double vd"
    | s where "ty AND 255 = cJSON_String" "vs = Some s" "NUL \<notin> set s"
    | "ty AND 255 = cJSON_Array" "\<forall>c \<in> set cs. printable c"
    | "ty AND 255 = cJSON_Object" "\<forall>c \<in> set cs. printable c \<and> name_ok c"
  using assms by (auto simp: Let_def split: option.splits)

lemma NUL_render: "printable c \<Longrightarrow> NUL \<notin> set (render depth fmt c)"
proof (induction c arbitrary: depth)
  case (CJ ty vs vi vd nm cs)
  from CJ.prems show ?case
  proof (cases rule: printable_cases)
    case 4
    then have "NUL \<notin> set (join_entries fmt (map (render (Suc depth) fmt) cs))"
      using CJ.IH by (intro NUL_join_entries) auto
    then show ?thesis using 4(1) by (simp add: cJSON_types array_text_def)
  next
    case 5
    have "NUL \<notin> set (string_text (the (cstring c)))" if "c \<in> set cs" for c
      using 5(2) that by (metis name_okE NUL_string_text option.sel)
    then have "NUL \<notin> set (join_members (Suc depth) fmt
        (map (\<lambda>c. (string_text (the (cstring c)), render (Suc depth) fmt c)) cs))"
      using 5(2) CJ.IH by (intro NUL_join_members) auto
    then show ?thesis using 5(1) by (simp add: cJSON_types object_text_def empty_object_text_def)
  qed (auto simp: cJSON_types NUL_number NUL_string_text)
qed

section \<open>Printing into the buffer\<close>

lemma prints_string: "NUL \<notin> set s \<Longrightarrow> prints (print_string_ptr_pb (Some s)) (string_text s)"
  using prints_text [of "quoted s" "length s + 3"]
    prints_text [of "quoted (concat (map escape_char s))" "sum_list (map escaped_len s) + 3"]
  by (cases "list_ex needs_escape s")
     (simp_all add: print_string_ptr_pb_def [abs_def] string_text_def quoted_def length_escaped escaped_plain)

lemma prints_number:
  assumes "INT_MIN \<le> vi" "vi \<le> INT_MAX" "is_double vd"
  shows "prints (print_number_pb (CJ ty vs vi vd nm cs)) (render_number vi vd)"
proof -
  have "prints (put_text 2 (cs_text ''0'')) ''0''" by (rule prints_text) simp
  moreover have "prints (put_text 21 (cs_text (dec_int vi))) (dec_int vi)"
    using length_dec_int [OF assms(1,2)] by (intro prints_text) simp
  moreover have "vd \<noteq> 0 \<Longrightarrow> prints (put_text 64 (cs_text (number_text vd))) (number_text vd)"
    using length_number_text [OF assms(3)] by (intro prints_text) simp
  moreover have "print_number_pb (CJ ty vs vi vd nm cs) =
     (if vd = 0 then put_text 2 (cs_text ''0'')
      else if \<bar>dbl_add (of_int vi) (- vd)\<bar> \<le> DBL_EPSILON \<and> vd \<le> of_int INT_MAX \<and> of_int INT_MIN \<le> vd
           then put_text 21 (cs_text (dec_int vi)) else put_text 64 (cs_text (number_text vd)))"
    by (intro ext) (simp add: print_number_pb_def Let_def)
  ultimately show ?thesis by (simp add: render_number_def)
qed

lemma appends_elem:
  assumes "prints pv e" "NUL \<notin> set e" "appends rest r"
  shows "appends (elem_turn_pb fmt nxt pv rest) (e @ (if nxt then '','' @ (if fmt then '' '' else []) else []) @ r)"
proof -
  let ?s = "if nxt then '','' @ (if fmt then '' '' else []) else []"
  have "appends (\<lambda>p m. if nxt then let len = (if fmt then 2 else 1)
                 in put_step (len + 1) (cs_text ('','' @ (if fmt then '' '' else []))) len p m
               else Inr (True, p, m)) ?s"
    using appends_step [of "cs_text '', ''" 3 2] appends_step [of "cs_text '',''" 2 1] appends_nothing
    by (cases nxt; cases fmt) (simp_all add: cs_text_def numeral_2_eq_2 numeral_3_eq_3 Let_def)
  from appends_then [OF appends_update [OF assms(1,2)] appends_then [OF this assms(3)]]
  show ?thesis by (simp add: elem_turn_pb_def [abs_def])
qed

lemma appends_if: "(b \<Longrightarrow> appends f s) \<Longrightarrow> appends (\<lambda>p m. if b then f p m else Inr (True, p, m)) (if b then s else [])"
  by (simp add: appends_nothing)

lemma appends_member:
  assumes "NUL \<notin> set n" "prints pv e" "NUL \<notin> set e" "appends rest r"
  shows "appends (member_turn_pb depth fmt (Some n) nxt pv rest)
    ((if fmt then tabs depth else []) @ string_text n @ ('':'' @ (if fmt then [CHR 0x09] else [])) @ e
     @ ((if nxt then '','' else []) @ (if fmt then [CHR 0x0A] else [])) @ r)"
proof -
  have t: "appends (\<lambda>p m. if fmt then put_step depth (tabs depth) depth p m else Inr (True, p, m))
      (if fmt then tabs depth else [])"
    using appends_step [of "tabs depth" depth depth] by (intro appends_if) simp
  have c: "appends (\<lambda>p m. let len = (if fmt then 2 else 1)
        in put_step len ('':'' @ (if fmt then [CHR 0x09] else [])) len p m)
      ('':'' @ (if fmt then [CHR 0x09] else []))"
    using appends_step [of "[CHR '':'', CHR 0x09]" 2 2] appends_step [of "'':''" 1 1]
    by (cases fmt) (simp_all add: Let_def)
  define s where "s = (if nxt then '','' else []) @ (if fmt then [CHR 0x0A] else [])"
  have "length s = (if fmt then 1 else 0) + (if nxt then 1 else 0)" by (simp add: s_def)
  then have d: "appends (\<lambda>p m. let len = (if fmt then 1 else 0) + (if nxt then 1 else 0)
        in put_step (len + 1) (cs_text s) len p m) s"
    using appends_step [of "cs_text s" "length s + 1" "length s"] by (simp add: cs_text_def Let_def)
  show ?thesis
    using appends_then [OF t appends_then [OF appends_update [OF prints_string [OF assms(1)] NUL_string_text [OF assms(1)]]
      appends_then [OF c appends_then [OF appends_update [OF assms(2,3)] appends_then [OF d assms(4)]]]]]
    by (simp only: member_turn_pb_def [abs_def] s_def)
qed

lemma appends_elems:
  assumes "\<And>c. c \<in> set cs \<Longrightarrow> prints (print_value_pb c depth fmt) (render depth fmt c)"
    and "\<And>c. c \<in> set cs \<Longrightarrow> printable c"
  shows "appends (print_elems_pb cs depth fmt) (join_entries fmt (map (render depth fmt) cs))"
  using assms
proof (induction cs)
  case (Cons c cs)
  have "appends (print_elems_pb cs depth fmt) (join_entries fmt (map (render depth fmt) cs))"
    using Cons by simp
  from appends_elem [OF Cons.prems(1) NUL_render [OF Cons.prems(2)] this, where nxt = "cs \<noteq> []" and fmt = fmt]
  show ?case by (cases cs; cases fmt) (simp_all add: print_elems_pb.simps [abs_def])
qed (simp add: appends_nothing print_elems_pb.simps [abs_def])

lemma appends_members:
  assumes "\<And>c. c \<in> set cs \<Longrightarrow> prints (print_value_pb c depth fmt) (render depth fmt c)"
    and "\<And>c. c \<in> set cs \<Longrightarrow> printable c \<and> name_ok c"
  shows "appends (print_members_pb cs depth fmt)
    (join_members depth fmt (map (\<lambda>c. (string_text (the (cstring c)), render depth fmt c)) cs))"
  using assms
proof (induction cs)
  case (Cons c cs)
  obtain n where n: "cstring c = Some n" "NUL \<notin> set n" using Cons.prems(2) [of c] by (auto elim: name_okE)
  have "appends (print_members_pb cs depth fmt)
      (join_members depth fmt (map (\<lambda>c. (string_text (the (cstring c)), render depth fmt c)) cs))"
    using Cons by simp
  from appends_member [OF n(2) Cons.prems(1) NUL_render this, of c depth fmt "cs \<noteq> []"] Cons.prems(2) [of c]
  show ?case by (cases cs; cases fmt) (simp_all add: n(1) print_members_pb.simps [abs_def])
qed (simp add: appends_nothing print_members_pb.simps [abs_def])

lemma prints_array:
  assumes "appends elems (join_entries fmt es)" "cs = [] \<longleftrightarrow> es = []"
  shows "prints (print_array_pb fmt cs elems) (if cs = [] then ''[]'' else array_text fmt es)"
proof (cases "cs = []")
  case True
  then show ?thesis using prints_text [of "''[]''" 3] by (simp add: print_array_pb_def [abs_def])
next
  case False
  have "appends (put_step 1 ''['' 1) ''[''" using appends_step [of "''[''" 1 1] by simp
  from prints_then [OF this prints_then [OF assms(1) prints_text [of "'']''" 2]]] False
  show ?thesis by (simp add: print_array_pb_def [abs_def] array_text_def)
qed

lemma prints_object:
  assumes "appends members (join_members (Suc depth) fmt ms)"
  shows "prints (print_object_pb depth fmt cs members)
    (if cs = [] then empty_object_text depth fmt else object_text (Suc depth) fmt ms)"
proof (cases "cs = []")
  case True
  then show ?thesis using prints_text [OF length_empty_object_text [of depth fmt]]
    by (simp add: print_object_pb_def [abs_def])
next
  case False
  define o1 where "o1 = ''{'' @ (if fmt then [CHR 0x0A] else [])"
  define o2 where "o2 = (if fmt then tabs depth else []) @ ''}''"
  have "length o1 = (if fmt then 2 else 1)" by (simp add: o1_def)
  then have 1: "appends (\<lambda>p m. let len = (if fmt then 2 else 1) in put_step (len + 1) (cs_text o1) len p m) o1"
    using appends_step [of "cs_text o1" "length o1 + 1" "length o1"] by (simp add: cs_text_def Let_def)
  have 2: "prints (put_text (if fmt then Suc depth + 1 else 2) (cs_text o2)) o2"
    by (rule prints_text) (simp add: o2_def)
  from prints_then [OF 1 prints_then [OF assms 2]] False
  show ?thesis unfolding o1_def o2_def
    by (simp add: print_object_pb_def [abs_def] object_text_def cong: if_cong)
qed

lemma prints_value: "printable c \<Longrightarrow> prints (print_value_pb c depth fmt) (render depth fmt c)"
proof (induction c arbitrary: depth)
  case (CJ ty vs vi vd nm cs)
  from CJ.prems show ?case
  proof (cases rule: printable_cases)
    case 1
    then show ?thesis
      using prints_text [of "''null''" 5] prints_text [of "''false''" 6] prints_text [of "''true''" 5]
      by (auto simp: print_value_pb.simps [abs_def] cJSON_types)
  next
    case 2
    then show ?thesis by (simp add: print_value_pb.simps [abs_def] cJSON_types prints_number)
  next
    case 3
    then show ?thesis by (simp add: print_value_pb.simps [abs_def] cJSON_types prints_string)
  next
    case 4
    have "appends (print_elems_pb cs (Suc depth) fmt) (join_entries fmt (map (render (Suc depth) fmt) cs))"
      using 4 CJ.IH by (intro appends_elems) auto
    from prints_array [OF this, of cs] 4(1)
    show ?thesis by (simp add: print_value_pb.simps [abs_def] cJSON_types)
  next
    case 5
    have "appends (print_members_pb cs (Suc depth) fmt) (join_members (Suc depth) fmt
        (map (\<lambda>c. (string_text (the (cstring c)), render (Suc depth) fmt c)) cs))"
      using 5 CJ.IH by (intro appends_members) auto
    from prints_object [OF this, of cs] 5(1)
    show ?thesis by (simp add: print_value_pb.simps [abs_def] cJSON_types)
  qed
qed

text \<open>
  C23. Both printers are one: for every tree that can be printed and every initial size,
  \<open>cJSON_PrintBuffered\<close> stays inside its buffer, reads no byte it has not written, and returns
  the text that \<open>cJSON_Print\<close> or \<open>cJSON_PrintUnformatted\<close> returns.
\<close>

theorem buffered_is_unbuffered:
  assumes "printable c"
  shows "cJSON_PrintBuffered (Some c) n fmt Unlimited =
    (if fmt then cJSON_Print (Some c) Unlimited else cJSON_PrintUnformatted (Some c) Unlimited)"
proof -
  let ?p = "\<lparr>pb_buffer = Some (replicate n None), pb_length = n, pb_offset = 0\<rparr>"
  have "holding ?p [] (length [])" by (simp add: holding_def)
  then obtain p' k where p': "print_value_pb c 0 fmt ?p Unlimited = Inr (True, p', Unlimited)"
    "holding p' ([] @ cs_text (render 0 fmt c)) k"
    using prints_value [OF assms, of 0 fmt] unfolding prints_def by blast
  then obtain b where b: "pb_buffer p' = Some b"
    "take (length (render 0 fmt c) + 1) b = map Some (render 0 fmt c @ [NUL])"
    by (auto simp: holding_def cs_text_def)
  then have "b = map Some (render 0 fmt c) @ Some NUL # drop (length (render 0 fmt c) + 1) b"
    by (metis append.assoc append_Cons append_Nil append_take_drop_id list.simps(8,9) map_append)
  then have "mem_cstr b = Inr (render 0 fmt c)"
    using mem_cstr_text [OF NUL_render [OF assms]] by metis
  then show ?thesis using p'(1) b(1) assms
    by (simp add: cJSON_PrintBuffered_def cJSON_Print_def cJSON_PrintUnformatted_def print_value_text)
qed

theorem buffered_is_unbuffered_witness:
  "cJSON_PrintBuffered (Some (CJ cJSON_Array None 0 0 None [CJ cJSON_True None 1 0 None []])) 1 False Unlimited =
   Inr (Some ''[true]'', Unlimited)"
proof -
  let ?c = "CJ cJSON_Array None 0 0 None [CJ cJSON_True None 1 0 None []]"
  have p: "printable ?c" by (simp add: cJSON_types)
  moreover have "render 0 False ?c = ''[true]''" by (simp add: cJSON_types array_text_def)
  then have "cJSON_PrintUnformatted (Some ?c) Unlimited = Inr (Some ''[true]'', Unlimited)"
    using print_value_text [OF p, of 0 False] by (simp only: cJSON_PrintUnformatted_def option.case)
  ultimately show ?thesis using buffered_is_unbuffered [of ?c 1 False] by simp
qed

end
