(* ===== verification/CJSON_Minify.thy ===== *)
theory CJSON_Minify
  imports CJSON_PrintProps
begin

text \<open>
  \<open>cJSON_Minify\<close> of \<open>src/cJSON/cJSON.c\<close>, which removes blanks and comments from a text in place,
  and the choice of an allocator.

  The write pointer never passes the read pointer, so what is still to be read is the original
  text, and what was written is the result.  Reading behind the NUL of the text is the fault
  \<open>OutOfBounds\<close>.
\<close>

section \<open>The allocator\<close>

text \<open>\<open>std\<close> are \<open>malloc\<close> and \<open>free\<close> of the library; the result are \<open>cJSON_malloc\<close> and \<open>cJSON_free\<close>.\<close>

definition cJSON_InitHooks :: "'m \<times> 'f \<Rightarrow> ('m option \<times> 'f option) option \<Rightarrow> 'm \<times> 'f" where
  "cJSON_InitHooks std hooks =
     (case hooks of
        None \<Rightarrow> std
      | Some (malloc_fn, free_fn) \<Rightarrow>
          ((case malloc_fn of None \<Rightarrow> fst std | Some f \<Rightarrow> f), (case free_fn of None \<Rightarrow> snd std | Some f \<Rightarrow> f)))"

section \<open>The minifier\<close>

text \<open>The rest of a comment; \<open>None\<close> when the NUL comes first.\<close>

fun skip_comment :: "string \<Rightarrow> string option" where
  "skip_comment [] = None"
| "skip_comment (c # s) = (if c = CHR ''*'' \<and> peek s = CHR ''/'' then Some (tl s) else skip_comment s)"

text \<open>What is copied of a literal behind its quote, and what follows it.\<close>

fun copy_literal :: "string \<Rightarrow> (string \<times> string) res" where
  "copy_literal [] = Inl OutOfBounds"
| "copy_literal (c # s) =
     (if c = CHR 0x22 then Inr ([c], s)
      else if c = CHR 0x5C
      then (case s of [] \<Rightarrow> Inl OutOfBounds
            | d # s' \<Rightarrow> rmap (\<lambda>(t, r). (c # d # t, r)) (copy_literal s'))
      else rmap (\<lambda>(t, r). (c # t, r)) (copy_literal s))"

lemma skip_comment_shorter: "skip_comment s = Some r \<Longrightarrow> length r < length s"
proof (induction s)
  case (Cons c s)
  then show ?case by (cases s) (auto split: if_splits)
qed simp

lemma copy_literal_shorter: "copy_literal s = Inr (t, r) \<Longrightarrow> length r < length s"
  by (induction s arbitrary: t rule: copy_literal.induct)
    (auto simp: rmap_eq_Inr split: if_splits list.splits, fastforce+)

function cJSON_Minify :: "string \<Rightarrow> string res" where
  "cJSON_Minify [] = Inr []"
| "cJSON_Minify (c # s) =
     (if c \<in> {CHR '' '', CHR 0x09, CHR 0x0D, CHR 0x0A} then cJSON_Minify s
      else if c = CHR ''/'' \<and> peek s = CHR ''/'' then cJSON_Minify (dropWhile (\<lambda>d. d \<noteq> CHR 0x0A) s)
      else if c = CHR ''/'' \<and> peek s = CHR ''*''
      then (case skip_comment s of None \<Rightarrow> Inl OutOfBounds | Some r \<Rightarrow> cJSON_Minify r)
      else if c = CHR 0x22
      then rbind (copy_literal s) (\<lambda>(t, r). rmap (\<lambda>u. c # t @ u) (cJSON_Minify r))
      else rmap ((#) c) (cJSON_Minify s))"
  by pat_completeness auto

termination
  by (relation "measure length")
    (auto simp: le_imp_less_Suc length_dropWhile_le less_SucI dest!: skip_comment_shorter copy_literal_shorter)

section \<open>Minifying a printed tree\<close>

text \<open>A piece of text that becomes \<open>t\<close>, whatever follows it.\<close>

definition minifies :: "string \<Rightarrow> string \<Rightarrow> bool" where
  "minifies s t \<longleftrightarrow> (\<forall>rest. cJSON_Minify (s @ rest) = rmap ((@) t) (cJSON_Minify rest))"

lemma minifies_Nil: "minifies [] []"
proof -
  have "rmap ((@) []) r = r" for r :: "string res" by (cases r) auto
  then show ?thesis by (simp add: minifies_def)
qed

lemma minifies_append: "minifies s t \<Longrightarrow> minifies s' t' \<Longrightarrow> minifies (s @ s') (t @ t')"
proof -
  have "rmap ((@) t) (rmap ((@) t') r) = rmap ((@) (t @ t')) r" for r by (cases r) auto
  then show "minifies s t \<Longrightarrow> minifies s' t' \<Longrightarrow> minifies (s @ s') (t @ t')"
    by (simp add: minifies_def)
qed

definition plain :: "char \<Rightarrow> bool" where
  "plain c \<longleftrightarrow> c \<notin> {CHR '' '', CHR 0x09, CHR 0x0D, CHR 0x0A, CHR ''/'', CHR 0x22}"

lemma minifies_plain_char: "plain c \<Longrightarrow> minifies [c] [c]"
proof -
  have "rmap ((#) c) r = rmap ((@) [c]) r" for r by (cases r) auto
  then show "plain c \<Longrightarrow> ?thesis" by (simp add: minifies_def plain_def)
qed

lemma minifies_plain: "list_all plain s \<Longrightarrow> minifies s s"
proof (induction s)
  case (Cons c s)
  then show ?case using minifies_append [of "[c]" "[c]" s s] minifies_plain_char [of c] by simp
qed (rule minifies_Nil)

lemma minifies_blank: "c \<in> {CHR '' '', CHR 0x09, CHR 0x0D, CHR 0x0A} \<Longrightarrow> minifies [c] []"
proof -
  have "rmap ((@) []) r = r" for r :: "string res" by (cases r) auto
  then show "c \<in> {CHR '' '', CHR 0x09, CHR 0x0D, CHR 0x0A} \<Longrightarrow> ?thesis" by (auto simp: minifies_def)
qed

lemma minifies_tabs: "minifies (tabs n) []"
proof (induction n)
  case (Suc n)
  then show ?case using minifies_append [OF minifies_blank Suc.IH, of "CHR 0x09"] by (simp add: tabs_def)
qed (simp add: tabs_def minifies_Nil)

subsection \<open>Literals\<close>

lemma copy_escape_char:
  "copy_literal (escape_char c @ s) = rmap (\<lambda>(t, r). (escape_char c @ t, r)) (copy_literal s)"
proof -
  have h: "hex_digit (n mod 16) \<noteq> CHR 0x22 \<and> hex_digit (n mod 16) \<noteq> CHR 0x5C" for n
  proof -
    have "code (hex_digit (n mod 16)) \<noteq> code (CHR 0x22) \<and> code (hex_digit (n mod 16)) \<noteq> code (CHR 0x5C)"
      by (simp add: hex_digit_def digit_char_def)
    then show ?thesis by metis
  qed
  have r: "rmap f (rmap g x) = rmap (f o g) x" for f :: "_ \<Rightarrow> string \<times> string" and g :: "_ \<Rightarrow> string \<times> string" and x
    by (cases x) auto
  have hex: "copy_literal (hex4 n @ s) = rmap (\<lambda>(t, r). (hex4 n @ t, r)) (copy_literal s)" for n
    unfolding hex4_def by (simp add: h r o_def case_prod_unfold)
  show ?thesis
    by (simp add: escape_char_def hex r o_def case_prod_unfold)
qed

lemma copy_escaped:
  "copy_literal (concat (map escape_char s) @ CHR 0x22 # rest) =
     Inr (concat (map escape_char s) @ [CHR 0x22], rest)"
  by (induction s) (simp_all add: copy_escape_char)

lemma minifies_string: "minifies (string_text s) (string_text s)"
proof -
  have "rmap (\<lambda>u. CHR 0x22 # t @ u) r = rmap ((@) (CHR 0x22 # t)) r" for t r by (cases r) auto
  then show ?thesis by (simp add: minifies_def string_text_def quoted_def copy_escaped)
qed

subsection \<open>Numbers\<close>

lemma plain_digit: "is_digit c \<Longrightarrow> plain c"
  by (auto simp: plain_def is_digit_def)

lemma plain_dec_nat: "list_all plain (dec_nat n)"
  using dec_nat_digits plain_digit by (auto simp: list_all_iff)

lemma plain_pad0:
  assumes "list_all plain s"
  shows "list_all plain (pad0 w s)"
proof -
  have "plain (CHR ''0'')" by (simp add: plain_def)
  then show ?thesis using assms by (auto simp: pad0_def list_all_iff)
qed

lemma plain_parts: "list_all plain (fmt_sign d)" "list_all plain (six_places n)"
  by (simp_all add: fmt_sign_def six_places_def plain_dec_nat plain_pad0) (simp_all add: plain_def)

lemma plain_number: "list_all plain (render_number i d)"
  by (simp add: render_number_def number_text_def dec_int_def fmt_f0_def fmt_f_def fmt_e_def Let_def
      plain_parts plain_dec_nat plain_pad0)
     (simp add: plain_def)

subsection \<open>Arrays, objects and trees\<close>

lemma minifies_char: "minifies [c] t \<Longrightarrow> minifies s t' \<Longrightarrow> minifies (c # s) (t @ t')"
  using minifies_append [of "[c]" t s t'] by simp

lemma minifies_entries:
  "list_all2 minifies es es' \<Longrightarrow> minifies (join_entries fmt es) (join_entries False es')"
proof (induction es es' rule: list_all2_induct)
  case (Cons e es e' es')
  have "minifies ('','' @ (if fmt then '' '' else [])) '',''"
    using minifies_char [OF minifies_plain_char [of "CHR '',''"] minifies_blank [of "CHR '' ''"]]
      minifies_plain_char [of "CHR '',''"]
    by (simp add: plain_def)
  from minifies_append [OF Cons.hyps(1) minifies_append [OF this Cons.IH]] Cons.hyps
  show ?case by (cases es; cases es'; cases fmt) auto
qed (simp add: minifies_Nil)

lemma minifies_members:
  "list_all2 (\<lambda>(n, e) (n', e'). n' = n \<and> minifies n n \<and> minifies e e') ms ms'
   \<Longrightarrow> minifies (join_members d fmt ms) (join_members d' False ms')"
proof (induction ms ms' rule: list_all2_induct)
  case (Cons m ms m' ms')
  obtain n e e' where m: "m = (n, e)" "m' = (n, e')" "minifies n n" "minifies e e'"
    using Cons.hyps(1) by (cases m; cases m') auto
  have tb: "minifies (if fmt then tabs d else []) []" using minifies_tabs minifies_Nil by simp
  have c: "minifies ('':'' @ (if fmt then [CHR 0x09] else [])) '':''"
    using minifies_char [OF minifies_plain_char [of "CHR '':''"] minifies_blank [of "CHR 0x09"]]
      minifies_plain_char [of "CHR '':''"]
    by (simp add: plain_def)
  have s: "minifies (if ms = [] then [] else '','') (if ms' = [] then [] else '','')"
    using Cons.hyps(2) minifies_Nil minifies_plain_char [of "CHR '',''"] by (auto simp: plain_def)
  have l: "minifies (if fmt then [CHR 0x0A] else []) []" using minifies_blank minifies_Nil by simp
  from minifies_append [OF tb minifies_append [OF m(3) minifies_append [OF c minifies_append [OF m(4)
        minifies_append [OF s minifies_append [OF l Cons.IH]]]]]]
  show ?case by (simp add: m)
qed (simp add: minifies_Nil)

lemma minifies_render: "printable c \<Longrightarrow> minifies (render d fmt c) (render d' False c)"
proof (induction c arbitrary: d d')
  case (CJ ty vs vi vd nm cs)
  have word: "list_all plain s \<Longrightarrow> minifies s s" for s by (rule minifies_plain)
  consider "ty AND 255 \<in> {cJSON_NULL, cJSON_False, cJSON_True}" | "ty AND 255 = cJSON_Number"
    | "ty AND 255 = cJSON_String" | "ty AND 255 = cJSON_Array" "\<forall>c \<in> set cs. printable c"
    | "ty AND 255 = cJSON_Object" "\<forall>c \<in> set cs. printable c"
    using CJ.prems by (auto simp: Let_def)
  then show ?case
  proof cases
    case 1
    then show ?thesis using word [of "''null''"] word [of "''false''"] word [of "''true''"]
      by (auto simp: cJSON_types plain_def)
  next
    case 4
    have "list_all2 minifies (map (render (Suc d) fmt) cs) (map (render (Suc d') False) cs)"
      using 4(2) CJ.IH by (simp add: list_all2_conv_all_nth)
    from minifies_append [OF word [of "''[''"] minifies_append [OF minifies_entries [OF this] word [of "'']''"]]]
    show ?thesis using 4(1) word [of "''[]''"] by (simp add: cJSON_types array_text_def plain_def)
  next
    case 5
    let ?m = "\<lambda>d fmt. map (\<lambda>c. (string_text (the (cstring c)), render d fmt c)) cs"
    have "list_all2 (\<lambda>(n, e) (n', e'). n' = n \<and> minifies n n \<and> minifies e e') (?m (Suc d) fmt) (?m (Suc d') False)"
      using 5(2) CJ.IH minifies_string by (simp add: list_all2_conv_all_nth)
    note ms = minifies_members [OF this, of "Suc d" fmt "Suc d'"]
    have o: "minifies (''{'' @ (if fmt then [CHR 0x0A] else [])) ''{''"
      using minifies_char [OF word [of "''{''"] minifies_blank [of "CHR 0x0A"]] word [of "''{''"] by (simp add: plain_def)
    have t: "minifies (if fmt then tabs n else []) []" for n using minifies_tabs minifies_Nil by simp
    have c: "minifies ''}'' ''}''" by (rule word) (simp add: plain_def)
    show ?thesis
      using 5(1) minifies_append [OF o minifies_append [OF ms minifies_append [OF t c]]]
        minifies_append [OF o minifies_append [OF t [of "d - 1"] c]]
      by (cases fmt) (simp_all add: cJSON_types object_text_def empty_object_text_def)
  qed (simp_all add: cJSON_types minifies_string word plain_number)
qed

text \<open>
  C24. Minifying undoes formatting: the text that \<open>cJSON_Print\<close> makes of a tree becomes, in place
  and without reading behind its end, the text that \<open>cJSON_PrintUnformatted\<close> makes of it.
\<close>

theorem minify_unformats:
  assumes "printable c" "cJSON_Print (Some c) Unlimited = Inr (Some s, m)"
  shows "rmap Some (cJSON_Minify s) = rmap fst (cJSON_PrintUnformatted (Some c) Unlimited)"
proof -
  have s: "s = render 0 True c" using assms by (simp add: cJSON_Print_def print_value_text)
  have "cJSON_Minify (render 0 True c @ []) = rmap ((@) (render 0 False c)) (cJSON_Minify [])"
    using minifies_render [OF assms(1), of 0 True 0] unfolding minifies_def by blast
  with s have "cJSON_Minify s = Inr (render 0 False c)" by simp
  then show ?thesis using assms(1) by (simp add: cJSON_PrintUnformatted_def print_value_text)
qed

theorem minify_unformats_witness:
  "\<exists>s. cJSON_Print (Some (CJ cJSON_Array None 0 0 None [CJ cJSON_True None 1 0 None [], CJ cJSON_NULL None 0 0 None []]))
        Unlimited = Inr (Some s, Unlimited)
     \<and> cJSON_Minify s = Inr ''[true,null]''"
proof -
  let ?c = "CJ cJSON_Array None 0 0 None [CJ cJSON_True None 1 0 None [], CJ cJSON_NULL None 0 0 None []]"
  have p: "printable ?c" by (simp add: cJSON_types)
  have "render 0 False ?c = ''[true,null]''" by (simp add: cJSON_types array_text_def)
  then have "cJSON_PrintUnformatted (Some ?c) Unlimited = Inr (Some ''[true,null]'', Unlimited)"
    using print_value_text [OF p, of 0 False] by (simp only: cJSON_PrintUnformatted_def option.case)
  moreover have "cJSON_Print (Some ?c) Unlimited = Inr (Some (render 0 True ?c), Unlimited)"
    using print_value_text [OF p, of 0 True] by (simp only: cJSON_Print_def option.case)
  ultimately show ?thesis using minify_unformats [OF p, of "render 0 True ?c" Unlimited]
    by (cases "cJSON_Minify (render 0 True ?c)") (auto simp: rmap_def)
qed

text \<open>An unfinished comment or literal makes the minifier read behind the text.\<close>

lemma minify_overreads:
  "cJSON_Minify ''/*'' = Inl OutOfBounds \<and> cJSON_Minify [CHR 0x22] = Inl OutOfBounds"
  by simp

end
