(* ===== verification/Device.thy ===== *)
theory Device
  imports CLib
begin

text \<open>
  The data of the firmware: the saved configuration of \<open>src/appmain.h\<close>, the global variables
  of the application as one record, and the calls into the SDK whose effect is outside the
  program as a log.

  The SDK is a binary library.  A call that only acts on the hardware or the network is an
  event of the log \<open>io\<close>.  A call that answers something has its answer in the state, where
  only the environment changes it: \<open>pins\<close> is what \<open>hfgpio_fpin_is_high\<close> returns for a
  function id, \<open>new_queue n\<close> what the \<open>n\<close>-th call of \<open>hfmsgq_create\<close> returns.  The debug
  output (\<open>u_printf\<close>, \<open>HF_Debug\<close>) is left out.
\<close>

section \<open>The configuration\<close>

definition PLUG_NUM :: nat where "PLUG_NUM = 6"
definition PLUG_TIME_TASK_NUM :: nat where "PLUG_TIME_TASK_NUM = 5"
definition PLUG_NAME_LENGTH :: nat where "PLUG_NAME_LENGTH = 32"
definition SETTING_MQTT_STRING_LENGTH_MAX :: nat where "SETTING_MQTT_STRING_LENGTH_MAX = 32"
definition USER_CONFIG_VERSION :: u8 where "USER_CONFIG_VERSION = 2"

lemmas sizes = PLUG_NUM_def PLUG_TIME_TASK_NUM_def PLUG_NAME_LENGTH_def
  SETTING_MQTT_STRING_LENGTH_MAX_def

record user_plug_task_config_t =
  t_hour :: u8
  t_minute :: u8
  t_repeat :: u8
  t_action :: u8
  t_on :: u8

record user_plug_config_t =
  p_name :: string
  p_on :: u8
  p_task :: "user_plug_task_config_t list"

record u_config_t =
  mqtt_ip :: string
  mqtt_port :: int
  mqtt_user :: string
  mqtt_password :: string
  mqtt_device_id :: string
  c_version :: u8
  plug :: "user_plug_config_t list"

section \<open>Pins\<close>

definition SW1 :: nat where "SW1 = 29"
definition SW2 :: nat where "SW2 = SW1 + 1"
definition SW3 :: nat where "SW3 = SW1 + 2"
definition SW4 :: nat where "SW4 = SW1 + 3"
definition SW5 :: nat where "SW5 = SW1 + 4"
definition SW6 :: nat where "SW6 = SW1 + 5"
definition LED :: nat where "LED = SW1 + 6"
definition KEY :: nat where "KEY = SW1 + 7"
definition POWER :: nat where "POWER = SW1 + 8"

lemmas pin_ids = SW1_def SW2_def SW3_def SW4_def SW5_def SW6_def LED_def KEY_def POWER_def

definition relay :: "nat list" where "relay = [SW1, SW2, SW3, SW4, SW5, SW6]"

lemma relay_nth: "i < PLUG_NUM \<Longrightarrow> relay ! i = SW1 + i"
proof -
  assume "i < PLUG_NUM"
  then have "i \<in> {0, 1, 2, 3, 4, 5}" by (auto simp: PLUG_NUM_def)
  then show ?thesis by (auto simp: relay_def pin_ids)
qed

section \<open>The globals\<close>

text \<open>The fields of a \<open>struct tm\<close> that are read.\<close>

record tm =
  tm_sec :: int
  tm_min :: int
  tm_hour :: int
  tm_wday :: int

datatype io =
    Pin nat bool
  | QueueCreate "nat option"
  | QueueSend "nat option" string
  | QueueRecv "nat option"
  | Broadcast string
  | Reply string
  | SmartLinkStart

record device =
  u_config :: u_config_t
  user_defaultconfig :: u_config_t
  deviceid :: string
  strMac :: string
  strIp :: string
  g_power :: u32
  key_time :: u8
  key_continue :: u8
  key_last :: u8
  g_hour :: int
  g_min :: int
  rtctimes :: int
  tm_obj :: tm
  udp_msgq :: "nat option"
  queues :: nat
  io :: "io list"
  pins :: "nat \<Rightarrow> int"
  new_queue :: "nat \<Rightarrow> nat option"

definition emit :: "io \<Rightarrow> device \<Rightarrow> device" where
  "emit e d = d\<lparr>io := io d @ [e]\<rparr>"

text \<open>\<open>hfgpio_fset_out_high(fid)\<close> and \<open>hfgpio_fset_out_low(fid)\<close>.\<close>

definition set_pin :: "nat \<Rightarrow> bool \<Rightarrow> device \<Rightarrow> device" where
  "set_pin fid level = emit (Pin fid level)"

text \<open>The level a pin was last driven to.\<close>

fun pin_of :: "nat \<Rightarrow> io \<Rightarrow> bool option" where
  "pin_of p (Pin q b) = (if p = q then Some b else None)"
| "pin_of p _ = None"

definition pin_level :: "nat \<Rightarrow> io list \<Rightarrow> bool option" where
  "pin_level p es = foldl (\<lambda>acc e. case pin_of p e of None \<Rightarrow> acc | Some b \<Rightarrow> Some b) None es"

lemma pin_level_Nil [simp]: "pin_level p [] = None"
  by (simp add: pin_level_def)

lemma pin_level_snoc [simp]:
  "pin_level p (es @ [e]) = (case pin_of p e of None \<Rightarrow> pin_level p es | Some b \<Rightarrow> Some b)"
  by (simp add: pin_level_def split: option.split)

lemma pin_level_pair [simp]:
  "pin_level p (es @ [a, b]) = (case pin_of p b of None \<Rightarrow> pin_level p (es @ [a]) | Some x \<Rightarrow> Some x)"
  using pin_level_snoc [of p "es @ [a]" b] by simp

lemma emit_simps [simp]:
  "io (emit e d) = io d @ [e]" "u_config (emit e d) = u_config d"
  "user_defaultconfig (emit e d) = user_defaultconfig d" "deviceid (emit e d) = deviceid d"
  "strMac (emit e d) = strMac d" "strIp (emit e d) = strIp d" "g_power (emit e d) = g_power d"
  "key_time (emit e d) = key_time d" "key_continue (emit e d) = key_continue d"
  "key_last (emit e d) = key_last d" "rtctimes (emit e d) = rtctimes d"
  "tm_obj (emit e d) = tm_obj d" "udp_msgq (emit e d) = udp_msgq d"
  "queues (emit e d) = queues d" "pins (emit e d) = pins d" "new_queue (emit e d) = new_queue d"
  "g_hour (emit e d) = g_hour d" "g_min (emit e d) = g_min d"
  by (simp_all add: emit_def)

section \<open>Updates of one plug or task\<close>

definition upd_plug :: "nat \<Rightarrow> (user_plug_config_t \<Rightarrow> user_plug_config_t) \<Rightarrow> u_config_t \<Rightarrow> u_config_t" where
  "upd_plug i f c = c\<lparr>plug := (plug c)[i := f (plug c ! i)]\<rparr>"

definition upd_task ::
  "nat \<Rightarrow> (user_plug_task_config_t \<Rightarrow> user_plug_task_config_t) \<Rightarrow> user_plug_config_t
   \<Rightarrow> user_plug_config_t" where
  "upd_task j f p = p\<lparr>p_task := (p_task p)[j := f (p_task p ! j)]\<rparr>"

lemma upd_plug_other [simp]:
  "mqtt_ip (upd_plug i f c) = mqtt_ip c" "mqtt_port (upd_plug i f c) = mqtt_port c"
  "mqtt_user (upd_plug i f c) = mqtt_user c" "mqtt_password (upd_plug i f c) = mqtt_password c"
  "mqtt_device_id (upd_plug i f c) = mqtt_device_id c" "c_version (upd_plug i f c) = c_version c"
  "length (plug (upd_plug i f c)) = length (plug c)"
  by (simp_all add: upd_plug_def)

lemma plug_upd_plug [simp]:
  "k < length (plug c) \<Longrightarrow> plug (upd_plug i f c) ! k = (if k = i then f (plug c ! k) else plug c ! k)"
  by (simp add: upd_plug_def nth_list_update)

lemma upd_task_other [simp]:
  "p_name (upd_task j f p) = p_name p" "p_on (upd_task j f p) = p_on p"
  "length (p_task (upd_task j f p)) = length (p_task p)"
  by (simp_all add: upd_task_def)

lemma task_upd_task [simp]:
  "k < length (p_task p) \<Longrightarrow>
   p_task (upd_task j f p) ! k = (if k = j then f (p_task p ! k) else p_task p ! k)"
  by (simp add: upd_task_def nth_list_update)

definition plug_on :: "device \<Rightarrow> nat \<Rightarrow> u8" where
  "plug_on d i = p_on (plug (u_config d) ! i)"

section \<open>Well-formed configurations\<close>

text \<open>The arrays have their sizes, and every string buffer holds a terminated string.\<close>

definition buf_ok :: "nat \<Rightarrow> string \<Rightarrow> bool" where
  "buf_ok n b \<longleftrightarrow> length b = n \<and> NUL \<in> set b"

lemma buf_ok_str: "buf_ok n b \<Longrightarrow> buf_str b = Inr (cstr b)"
  by (simp add: buf_ok_def buf_str_def)

lemma buf_ok_strcpy: "buf_ok n b \<Longrightarrow> strcpy_buf b s = Inr b' \<Longrightarrow> buf_ok n b'"
  by (auto simp: buf_ok_def length_strcpy_buf NUL_in_strcpy_buf)

lemma buf_ok_sprintf: "buf_ok n b \<Longrightarrow> sprintf_buf b s = Inr b' \<Longrightarrow> buf_ok n b'"
  by (auto simp: buf_ok_def sprintf_buf_length sprintf_buf_NUL)

lemma buf_ok_clear: "buf_ok n b \<Longrightarrow> buf_ok n (b[0 := NUL])"
  by (cases b) (auto simp: buf_ok_def)

lemma cstr_clear: "buf_ok n b \<Longrightarrow> cstr (b[0 := NUL]) = []"
  by (cases b) (auto simp: buf_ok_def cstr_def)

definition plug_ok :: "user_plug_config_t \<Rightarrow> bool" where
  "plug_ok p \<longleftrightarrow> buf_ok PLUG_NAME_LENGTH (p_name p) \<and> length (p_task p) = PLUG_TIME_TASK_NUM"

definition config_ok :: "u_config_t \<Rightarrow> bool" where
  "config_ok c \<longleftrightarrow>
     buf_ok SETTING_MQTT_STRING_LENGTH_MAX (mqtt_ip c)
     \<and> buf_ok SETTING_MQTT_STRING_LENGTH_MAX (mqtt_user c)
     \<and> buf_ok SETTING_MQTT_STRING_LENGTH_MAX (mqtt_password c)
     \<and> buf_ok SETTING_MQTT_STRING_LENGTH_MAX (mqtt_device_id c)
     \<and> length (plug c) = PLUG_NUM \<and> (\<forall>p \<in> set (plug c). plug_ok p)"

lemma config_ok_plug: "config_ok c \<Longrightarrow> i < PLUG_NUM \<Longrightarrow> plug_ok (plug c ! i)"
  by (simp add: config_ok_def)

lemma config_ok_upd_plug:
  assumes "config_ok c" "i < PLUG_NUM \<Longrightarrow> plug_ok (plug c ! i) \<Longrightarrow> plug_ok (f (plug c ! i))"
  shows "config_ok (upd_plug i f c)"
proof (cases "i < PLUG_NUM")
  case True
  with assms have "plug_ok (f (plug c ! i))" by (simp add: config_ok_plug)
  then show ?thesis using assms(1)
    by (auto simp: config_ok_def upd_plug_def dest: set_update_subset_insert [THEN subsetD])
next
  case False
  with assms(1) show ?thesis by (simp add: config_ok_def upd_plug_def list_update_beyond)
qed

lemma plug_ok_on [simp]: "plug_ok (p\<lparr>p_on := y\<rparr>) = plug_ok p"
  by (simp add: plug_ok_def)

lemma plug_ok_upd_task [simp]: "plug_ok (upd_task j f p) = plug_ok p"
  by (simp add: plug_ok_def)

definition globals_ok :: "device \<Rightarrow> bool" where
  "globals_ok d \<longleftrightarrow> config_ok (u_config d) \<and> config_ok (user_defaultconfig d)
     \<and> buf_ok 32 (deviceid d) \<and> buf_ok 13 (strMac d) \<and> buf_ok 32 (strIp d)"

lemma globals_okD:
  assumes "globals_ok d"
  shows "config_ok (u_config d)" "config_ok (user_defaultconfig d)" "buf_ok 32 (deviceid d)"
    "buf_ok 13 (strMac d)" "buf_ok 32 (strIp d)"
    "length (plug (u_config d)) = PLUG_NUM" "length (plug (user_defaultconfig d)) = PLUG_NUM"
  using assms by (simp_all add: globals_ok_def config_ok_def)

lemma globals_ok_emit [simp]: "globals_ok (emit e d) = globals_ok d"
  by (simp add: globals_ok_def)

section \<open>Start-up state and factory defaults\<close>

text \<open>The globals before anything runs: zero.\<close>

definition zero_task :: user_plug_task_config_t where
  "zero_task = \<lparr>t_hour = 0, t_minute = 0, t_repeat = 0, t_action = 0, t_on = 0\<rparr>"

definition zero_plug :: user_plug_config_t where
  "zero_plug = \<lparr>p_name = replicate PLUG_NAME_LENGTH NUL, p_on = 0,
                p_task = replicate PLUG_TIME_TASK_NUM zero_task\<rparr>"

definition zero_config :: u_config_t where
  "zero_config =
     \<lparr>mqtt_ip = replicate SETTING_MQTT_STRING_LENGTH_MAX NUL, mqtt_port = 0,
      mqtt_user = replicate SETTING_MQTT_STRING_LENGTH_MAX NUL,
      mqtt_password = replicate SETTING_MQTT_STRING_LENGTH_MAX NUL,
      mqtt_device_id = replicate SETTING_MQTT_STRING_LENGTH_MAX NUL,
      c_version = 0, plug = replicate PLUG_NUM zero_plug\<rparr>"

definition zero_device :: "(nat \<Rightarrow> int) \<Rightarrow> (nat \<Rightarrow> nat option) \<Rightarrow> device" where
  "zero_device ps nq =
     \<lparr>u_config = zero_config, user_defaultconfig = zero_config,
      deviceid = replicate 32 NUL, strMac = replicate 13 NUL, strIp = replicate 32 NUL,
      g_power = 0, key_time = 0, key_continue = 0, key_last = 0, g_hour = 0, g_min = 0,
      rtctimes = 0, tm_obj = \<lparr>tm_sec = 0, tm_min = 0, tm_hour = 0, tm_wday = 0\<rparr>,
      udp_msgq = None, queues = 0, io = [], pins = ps, new_queue = nq\<rparr>"

text \<open>\<open>name[0..7]\<close> of plug \<open>i\<close>: UTF-8 for the word plug, the digit and a NUL.\<close>

definition default_name :: "nat \<Rightarrow> string" where
  "default_name i =
     [CHR 0xE6, CHR 0x8F, CHR 0x92, CHR 0xE5, CHR 0x8F, CHR 0xA3, char_of (i + 49), NUL]"

definition default_task :: "user_plug_task_config_t \<Rightarrow> user_plug_task_config_t" where
  "default_task t = t\<lparr>t_hour := 0, t_minute := 0, t_repeat := 0, t_on := 0, t_action := 1\<rparr>"

definition default_plug :: "nat \<Rightarrow> user_plug_config_t \<Rightarrow> user_plug_config_t" where
  "default_plug i p =
     p\<lparr>p_on := 0, p_name := default_name i @ drop 8 (p_name p),
       p_task := fold (\<lambda>j ts. ts[j := default_task (ts ! j)]) [0..<PLUG_TIME_TASK_NUM] (p_task p)\<rparr>"

definition appRestoreDefault :: "device \<Rightarrow> device res" where
  "appRestoreDefault d =
     rbind (strcpy_buf (deviceid d) ''TC1'') (\<lambda>did.
       let c0 = u_config d;
           c1 = c0\<lparr>mqtt_ip := (mqtt_ip c0)[0 := NUL], mqtt_port := 0,
                   mqtt_user := (mqtt_user c0)[0 := NUL],
                   mqtt_password := (mqtt_password c0)[0 := NUL],
                   c_version := USER_CONFIG_VERSION\<rparr>;
           c2 = fold (\<lambda>i. upd_plug i (default_plug i)) [0..<PLUG_NUM] c1
       in Inr (d\<lparr>deviceid := did, u_config := c2, user_defaultconfig := c2\<rparr>))"

lemma buf_ok_zero: "0 < n \<Longrightarrow> buf_ok n (replicate n NUL)"
  by (simp add: buf_ok_def)

lemma zero_config_ok: "config_ok zero_config"
  by (simp add: config_ok_def zero_config_def plug_ok_def zero_plug_def sizes buf_ok_def)

lemma zero_device_ok: "globals_ok (zero_device ps nq)"
  by (simp add: globals_ok_def zero_device_def zero_config_ok buf_ok_zero)

lemma default_plug_ok: "plug_ok p \<Longrightarrow> plug_ok (default_plug i p)"
proof -
  assume p: "plug_ok p"
  have "length (fold (\<lambda>j ts. ts[j := default_task (ts ! j)]) js ts) = length ts" for js ts
    by (induction js arbitrary: ts) auto
  with p show ?thesis
    by (auto simp: plug_ok_def default_plug_def buf_ok_def default_name_def sizes)
qed

lemma config_ok_fold_default:
  "config_ok c \<Longrightarrow> config_ok (fold (\<lambda>i. upd_plug i (default_plug i)) is c)"
  by (induction "is" arbitrary: c) (auto intro!: config_ok_upd_plug default_plug_ok)

lemma appRestoreDefault_ok:
  assumes "globals_ok d"
  shows "\<exists>d'. appRestoreDefault d = Inr d' \<and> globals_ok d'"
proof -
  let ?c1 = "(u_config d)\<lparr>mqtt_ip := (mqtt_ip (u_config d))[0 := NUL], mqtt_port := 0,
      mqtt_user := (mqtt_user (u_config d))[0 := NUL],
      mqtt_password := (mqtt_password (u_config d))[0 := NUL], c_version := USER_CONFIG_VERSION\<rparr>"
  have "config_ok ?c1" using assms
    by (auto simp: globals_ok_def config_ok_def intro: buf_ok_clear)
  then have "config_ok (fold (\<lambda>i. upd_plug i (default_plug i)) [0..<PLUG_NUM] ?c1)"
    by (rule config_ok_fold_default)
  moreover obtain did where "strcpy_buf (deviceid d) ''TC1'' = Inr did" "buf_ok 32 did"
    using globals_okD(3) [OF assms] buf_ok_strcpy [of 32 "deviceid d" "''TC1''"]
    by (auto simp: strcpy_buf_def buf_ok_def)
  ultimately show ?thesis using assms
    by (simp add: appRestoreDefault_def Let_def globals_ok_def)
qed

end
