(* ===== verification/Relay.thy ===== *)
theory Relay
  imports Device
begin

text \<open>
  The relays and the LED: \<open>user_led_set\<close>, \<open>relay_out\<close>, \<open>user_relay_set\<close>,
  \<open>user_relay_set_all\<close> and \<open>key_short_press\<close> of \<open>src/user_gpio.c\<close>.
\<close>

section \<open>Operations\<close>

text \<open>
  The argument is an unsigned \<open>char\<close>, so the test \<open>x == -1\<close> compares a number from 0 to 255
  with -1.
\<close>

definition user_led_set :: "u8 \<Rightarrow> device \<Rightarrow> device" where
  "user_led_set x d =
     (if u8_to_int x = - 1
      then (if pins d LED \<noteq> 0 then set_pin LED False d else set_pin LED True d)
      else if x \<noteq> 0 then set_pin LED True d
      else set_pin LED False d)"

definition relay_out :: "device \<Rightarrow> bool" where
  "relay_out d =
     list_ex (\<lambda>i. p_on (plug (u_config d) ! i) \<noteq> 0 \<or> p_on (plug (user_defaultconfig d) ! i) \<noteq> 0)
       [0..<PLUG_NUM]"

definition user_relay_set :: "u8 \<Rightarrow> u8 \<Rightarrow> device \<Rightarrow> device" where
  "user_relay_set x y d =
     (if PLUG_NUM \<le> unat x then d
      else let d1 = set_pin (relay ! unat x) (y = 1) d;
               d2 = d1\<lparr>user_defaultconfig :=
                        upd_plug (unat x) (\<lambda>p. p\<lparr>p_on := y\<rparr>) (user_defaultconfig d1),
                       u_config := upd_plug (unat x) (\<lambda>p. p\<lparr>p_on := y\<rparr>) (u_config d1)\<rparr>
           in if relay_out d2 then user_led_set 1 d2 else user_led_set 0 d2)"

definition user_relay_set_all :: "u8 \<Rightarrow> device \<Rightarrow> device" where
  "user_relay_set_all y = fold (\<lambda>i. user_relay_set (of_nat i) y) [0..<PLUG_NUM]"

definition key_short_press :: "device \<Rightarrow> device" where
  "key_short_press d = (if relay_out d then user_relay_set_all 0 d else user_relay_set_all 1 d)"

section \<open>An array of cells\<close>

text \<open>
  What the callers of \<open>user_relay_set\<close> rely on: it writes one cell of an array and leaves the
  others.  A loop over cells is then a pointwise update.
\<close>

locale cells =
  fixes get :: "'s \<Rightarrow> nat \<Rightarrow> 'v"
    and put :: "nat \<Rightarrow> 'v \<Rightarrow> 's \<Rightarrow> 's"
    and ok :: "'s \<Rightarrow> bool"
    and n :: nat
  assumes put_ok: "ok s \<Longrightarrow> i < n \<Longrightarrow> ok (put i v s)"
    and get_put: "ok s \<Longrightarrow> i < n \<Longrightarrow> get (put i v s) i = v"
    and get_put_other: "ok s \<Longrightarrow> i < n \<Longrightarrow> j < n \<Longrightarrow> j \<noteq> i \<Longrightarrow> get (put i v s) j = get s j"
begin

lemma fold_ok: "ok s \<Longrightarrow> set js \<subseteq> {..<n} \<Longrightarrow> ok (fold (\<lambda>i. put i v) js s)"
  by (induction js arbitrary: s) (auto intro: put_ok)

lemma get_fold:
  "ok s \<Longrightarrow> set js \<subseteq> {..<n} \<Longrightarrow> j < n \<Longrightarrow>
   get (fold (\<lambda>i. put i v) js s) j = (if j \<in> set js then v else get s j)"
proof (induction js arbitrary: s)
  case (Cons i js)
  then have "ok (put i v s)" by (auto intro: put_ok)
  with Cons show ?case by (auto simp: get_put get_put_other)
qed simp

lemma get_fold_all: "ok s \<Longrightarrow> j < n \<Longrightarrow> get (fold (\<lambda>i. put i v) [0..<n] s) j = v"
  by (subst get_fold) auto

lemma put_put: "ok s \<Longrightarrow> i < n \<Longrightarrow> j < n \<Longrightarrow> get (put i v (put i w s)) j = get (put i v s) j"
  by (cases "j = i") (simp_all add: get_put get_put_other put_ok)

end

section \<open>What one operation does\<close>

lemma u8_not_minus_one [simp]: "u8_to_int x \<noteq> - 1"
  using u8_to_int_bounds(1) [of x] by linarith

lemma user_led_set_eq: "user_led_set x = set_pin LED (x \<noteq> 0)"
  by (rule ext) (simp add: user_led_set_def)

lemma unat_of_nat_plug [simp]: "i < PLUG_NUM \<Longrightarrow> unat (of_nat i :: u8) = i"
  by (simp add: unat_of_nat PLUG_NUM_def)

lemma relay_out_iff:
  "relay_out d \<longleftrightarrow> (\<exists>i < PLUG_NUM. p_on (plug (u_config d) ! i) \<noteq> 0
                       \<or> p_on (plug (user_defaultconfig d) ! i) \<noteq> 0)"
  by (auto simp: relay_out_def list_ex_iff)

lemma relay_out_emit [simp]: "relay_out (emit e d) = relay_out d"
  by (simp add: relay_out_def)

text \<open>The effect of \<open>user_relay_set\<close> in one equation.\<close>

definition relay_written :: "nat \<Rightarrow> u8 \<Rightarrow> device \<Rightarrow> device" where
  "relay_written i y d =
     d\<lparr>user_defaultconfig := upd_plug i (\<lambda>p. p\<lparr>p_on := y\<rparr>) (user_defaultconfig d),
       u_config := upd_plug i (\<lambda>p. p\<lparr>p_on := y\<rparr>) (u_config d)\<rparr>"

lemma user_relay_set_eq:
  "user_relay_set x y d =
     (if PLUG_NUM \<le> unat x then d
      else set_pin LED (relay_out (relay_written (unat x) y d))
             (set_pin (relay ! unat x) (y = 1) (relay_written (unat x) y d)))"
  by (simp add: user_relay_set_def relay_written_def user_led_set_eq set_pin_def Let_def
      relay_out_def emit_def)

lemma set_pin_simps [simp]:
  "u_config (set_pin p b d) = u_config d" "user_defaultconfig (set_pin p b d) = user_defaultconfig d"
  "deviceid (set_pin p b d) = deviceid d" "strMac (set_pin p b d) = strMac d"
  "strIp (set_pin p b d) = strIp d" "g_power (set_pin p b d) = g_power d"
  "key_time (set_pin p b d) = key_time d" "rtctimes (set_pin p b d) = rtctimes d"
  "tm_obj (set_pin p b d) = tm_obj d" "udp_msgq (set_pin p b d) = udp_msgq d"
  "queues (set_pin p b d) = queues d" "pins (set_pin p b d) = pins d"
  "new_queue (set_pin p b d) = new_queue d" "io (set_pin p b d) = io d @ [Pin p b]"
  "globals_ok (set_pin p b d) = globals_ok d" "relay_out (set_pin p b d) = relay_out d"
  "plug_on (set_pin p b d) = plug_on d"
  by (simp_all add: set_pin_def plug_on_def fun_eq_iff)

lemma relay_written_simps [simp]:
  "deviceid (relay_written i y d) = deviceid d" "strMac (relay_written i y d) = strMac d"
  "strIp (relay_written i y d) = strIp d" "g_power (relay_written i y d) = g_power d"
  "key_time (relay_written i y d) = key_time d" "rtctimes (relay_written i y d) = rtctimes d"
  "tm_obj (relay_written i y d) = tm_obj d" "udp_msgq (relay_written i y d) = udp_msgq d"
  "queues (relay_written i y d) = queues d" "pins (relay_written i y d) = pins d"
  "new_queue (relay_written i y d) = new_queue d" "io (relay_written i y d) = io d"
  "u_config (relay_written i y d) = upd_plug i (\<lambda>p. p\<lparr>p_on := y\<rparr>) (u_config d)"
  "user_defaultconfig (relay_written i y d) =
     upd_plug i (\<lambda>p. p\<lparr>p_on := y\<rparr>) (user_defaultconfig d)"
  by (simp_all add: relay_written_def)

lemma relay_written_ok: "globals_ok d \<Longrightarrow> globals_ok (relay_written i y d)"
  by (simp add: globals_ok_def config_ok_upd_plug)

lemma user_relay_set_ok: "globals_ok d \<Longrightarrow> globals_ok (user_relay_set x y d)"
  by (simp add: user_relay_set_eq relay_written_ok)

lemma user_relay_set_other [simp]:
  "deviceid (user_relay_set x y d) = deviceid d" "strMac (user_relay_set x y d) = strMac d"
  "strIp (user_relay_set x y d) = strIp d" "g_power (user_relay_set x y d) = g_power d"
  "key_time (user_relay_set x y d) = key_time d" "rtctimes (user_relay_set x y d) = rtctimes d"
  "tm_obj (user_relay_set x y d) = tm_obj d" "udp_msgq (user_relay_set x y d) = udp_msgq d"
  "queues (user_relay_set x y d) = queues d" "pins (user_relay_set x y d) = pins d"
  "new_queue (user_relay_set x y d) = new_queue d"
  by (simp_all add: user_relay_set_eq)

lemma plug_on_relay_set:
  "globals_ok d \<Longrightarrow> i < PLUG_NUM \<Longrightarrow> j < PLUG_NUM \<Longrightarrow>
   plug_on (user_relay_set (of_nat i) y d) j = (if j = i then y else plug_on d j)"
  by (auto simp: user_relay_set_eq plug_on_def globals_okD)

interpretation relays: cells plug_on "\<lambda>i. user_relay_set (of_nat i)" globals_ok PLUG_NUM
  by unfold_locales (auto simp: user_relay_set_ok plug_on_relay_set)

lemma user_relay_set_all_ok: "globals_ok d \<Longrightarrow> globals_ok (user_relay_set_all y d)"
  unfolding user_relay_set_all_def by (rule relays.fold_ok) auto

lemma plug_on_set_all: "globals_ok d \<Longrightarrow> i < PLUG_NUM \<Longrightarrow> plug_on (user_relay_set_all y d) i = y"
  unfolding user_relay_set_all_def by (rule relays.get_fold_all)

text \<open>An induction over the calls \<open>user_relay_set_all\<close> makes.\<close>

lemma user_relay_set_all_induct:
  assumes "P d" and "\<And>x e. P e \<Longrightarrow> P (user_relay_set x y e)"
  shows "P (user_relay_set_all y d)"
proof -
  have "P (fold (\<lambda>i. user_relay_set (of_nat i) y) js d)" for js
    using assms(1) by (induction js arbitrary: d) (auto intro: assms(2))
  then show ?thesis by (simp add: user_relay_set_all_def)
qed

section \<open>Hardware and record agree\<close>

text \<open>
  A relay pin is high exactly if the record of its plug says 1, and the two copies of the
  configuration record the same.
\<close>

definition driven :: "nat \<Rightarrow> device \<Rightarrow> bool" where
  "driven p d \<longleftrightarrow> pin_level p (io d) = Some True"

definition relays_agree :: "device \<Rightarrow> bool" where
  "relays_agree d \<longleftrightarrow>
     (\<forall>i < PLUG_NUM. p_on (plug (user_defaultconfig d) ! i) = plug_on d i
        \<and> (driven (relay ! i) d \<longleftrightarrow> plug_on d i = 1))"

lemma relay_not_LED: "i < PLUG_NUM \<Longrightarrow> relay ! i \<noteq> LED"
  by (simp add: relay_nth pin_ids PLUG_NUM_def)

lemma relay_inj: "i < PLUG_NUM \<Longrightarrow> j < PLUG_NUM \<Longrightarrow> relay ! i = relay ! j \<longleftrightarrow> i = j"
  by (simp add: relay_nth)

lemma relays_agree_set:
  assumes "globals_ok d" "relays_agree d"
  shows "relays_agree (user_relay_set x y d)"
  using assms
  by (auto simp: relays_agree_def user_relay_set_eq plug_on_def globals_okD driven_def
      relay_not_LED relay_inj)

lemma relays_agree_emit [simp]:
  "(\<And>i. i < PLUG_NUM \<Longrightarrow> pin_of (relay ! i) e = None) \<Longrightarrow> relays_agree (emit e d) = relays_agree d"
  by (simp add: relays_agree_def driven_def plug_on_def)

lemma relays_agree_LED [simp]: "relays_agree (set_pin LED b d) = relays_agree d"
  by (simp add: relays_agree_def driven_def plug_on_def relay_not_LED)

lemma relays_agree_set_all:
  assumes "globals_ok d" "relays_agree d"
  shows "relays_agree (user_relay_set_all y d)"
proof -
  have "globals_ok (user_relay_set_all y d) \<and> relays_agree (user_relay_set_all y d)"
    by (rule user_relay_set_all_induct) (use assms user_relay_set_ok relays_agree_set in auto)
  then show ?thesis ..
qed

lemma relay_out_agree:
  "relays_agree d \<Longrightarrow> relay_out d \<longleftrightarrow> (\<exists>i < PLUG_NUM. plug_on d i \<noteq> 0)"
  by (auto simp: relay_out_iff relays_agree_def plug_on_def)

lemma relay_out_set_all:
  assumes "globals_ok d" "relays_agree d"
  shows "relay_out (user_relay_set_all y d) \<longleftrightarrow> y \<noteq> 0"
proof -
  have "relay_out (user_relay_set_all y d) \<longleftrightarrow> (\<exists>i < PLUG_NUM. plug_on (user_relay_set_all y d) i \<noteq> 0)"
    by (rule relay_out_agree [OF relays_agree_set_all [OF assms]])
  also have "\<dots> \<longleftrightarrow> (\<exists>i < PLUG_NUM. y \<noteq> 0)" using plug_on_set_all [OF assms(1)] by auto
  also have "\<dots> \<longleftrightarrow> y \<noteq> 0" by (auto simp: PLUG_NUM_def intro: exI [of _ 0])
  finally show ?thesis .
qed

lemma user_relay_set_io:
  "i < PLUG_NUM \<Longrightarrow> io (user_relay_set (of_nat i) y d) =
     io d @ [Pin (relay ! i) (y = 1), Pin LED (relay_out (user_relay_set (of_nat i) y d))]"
  by (simp add: user_relay_set_eq)

section \<open>Properties\<close>

text \<open>
  C21. \<open>user_relay_set\<close> on a plug that exists drives exactly that relay, high for 1 and low for
  everything else, records the value in both configurations, leaves the records of the other
  plugs alone, and lights the LED exactly if some of the six plugs is now recorded as not off in
  one of the two configurations.
\<close>

theorem user_relay_set_spec:
  assumes "globals_ok d" "i < PLUG_NUM"
  shows "io (user_relay_set (of_nat i) y d) =
           io d @ [Pin (relay ! i) (y = 1), Pin LED (relay_out (user_relay_set (of_nat i) y d))]
         \<and> (relay_out (user_relay_set (of_nat i) y d) \<longleftrightarrow>
              y \<noteq> 0 \<or> (\<exists>j < 6. j \<noteq> i \<and> (p_on (plug (u_config d) ! j) \<noteq> 0
                                   \<or> p_on (plug (user_defaultconfig d) ! j) \<noteq> 0)))
         \<and> (\<forall>j < PLUG_NUM. plug_on (user_relay_set (of_nat i) y d) j =
              (if j = i then y else plug_on d j))
         \<and> p_on (plug (user_defaultconfig (user_relay_set (of_nat i) y d)) ! i) = y"
proof (intro conjI allI impI)
  show "io (user_relay_set (of_nat i) y d) =
      io d @ [Pin (relay ! i) (y = 1), Pin LED (relay_out (user_relay_set (of_nat i) y d))]"
    using assms by (simp add: user_relay_set_io)
  show "p_on (plug (user_defaultconfig (user_relay_set (of_nat i) y d)) ! i) = y"
    using assms by (simp add: user_relay_set_eq globals_okD)
  have "p_on (plug (upd_plug i (\<lambda>p. p\<lparr>p_on := y\<rparr>) c) ! j) = (if j = i then y else p_on (plug c ! j))"
    if "config_ok c" "j < PLUG_NUM" for c j
    using that assms(2) by (simp add: config_ok_def upd_plug_def nth_list_update)
  then show "relay_out (user_relay_set (of_nat i) y d) \<longleftrightarrow>
      y \<noteq> 0 \<or> (\<exists>j < 6. j \<noteq> i \<and> (p_on (plug (u_config d) ! j) \<noteq> 0
                           \<or> p_on (plug (user_defaultconfig d) ! j) \<noteq> 0))"
    using assms by (auto simp: user_relay_set_eq relay_out_iff globals_ok_def split: if_split_asm simp flip: PLUG_NUM_def)
qed (use assms in \<open>auto simp: plug_on_relay_set\<close>)

theorem user_relay_set_spec_witness:
  "io (user_relay_set (of_nat 2) 1 (zero_device (\<lambda>_. 0) (\<lambda>_. None))) =
     [Pin SW3 True, Pin LED (relay_out (user_relay_set (of_nat 2) 1 (zero_device (\<lambda>_. 0) (\<lambda>_. None))))]"
  using user_relay_set_spec [of "zero_device (\<lambda>_. 0) (\<lambda>_. None)" 2 1] zero_device_ok
  by (simp add: PLUG_NUM_def relay_def zero_device_def)

lemma driven_LED_set:
  "unat x < PLUG_NUM \<Longrightarrow> driven LED (user_relay_set x y d) \<longleftrightarrow> relay_out (user_relay_set x y d)"
  by (simp add: user_relay_set_eq driven_def)

lemma led_set_all:
  assumes "globals_ok d" "relays_agree d"
  shows "driven LED (user_relay_set_all y d) \<longleftrightarrow> y \<noteq> 0"
proof -
  have "user_relay_set_all y d = user_relay_set (of_nat 5) y (fold (\<lambda>i. user_relay_set (of_nat i) y) [0..<5] d)"
    by (simp add: user_relay_set_all_def PLUG_NUM_def upt_rec)
  then have "driven LED (user_relay_set_all y d) \<longleftrightarrow> relay_out (user_relay_set_all y d)"
    using driven_LED_set [of "of_nat 5"] by (simp add: PLUG_NUM_def)
  then show ?thesis using relay_out_set_all [OF assms] by simp
qed

lemma relay_out_six: "relays_agree d \<Longrightarrow> relay_out d \<longleftrightarrow> (\<exists>i < 6. plug_on d i \<noteq> 0)"
  by (simp add: relay_out_agree PLUG_NUM_def)


lemma relays_agree_zero: "relays_agree (zero_device ps nq)"
  by (simp add: relays_agree_def zero_device_def driven_def plug_on_def zero_config_def
      zero_plug_def)


text \<open>
  A value from 2 on turns the relay off and the LED on: \<open>user_relay_set\<close> drives the pin
  high for 1 only, but records the value, and \<open>relay_out\<close> counts everything that is not 0.
\<close>

theorem relay_value_from_two:
  assumes "globals_ok d" "i < PLUG_NUM" "1 < y"
  shows "\<not> driven (relay ! i) (user_relay_set (of_nat i) y d)
         \<and> driven LED (user_relay_set (of_nat i) y d)
         \<and> plug_on (user_relay_set (of_nat i) y d) i = y"
proof -
  have y: "y \<noteq> 0" "y \<noteq> 1" using assms(3) by auto
  have "relay_out (user_relay_set (of_nat i) y d)"
    using assms y by (auto simp: relay_out_iff user_relay_set_eq globals_okD intro!: exI [of _ i])
  then show ?thesis using user_relay_set_io [OF assms(2), of y d] plug_on_relay_set [OF assms(1,2,2)] y assms(2)
    by (simp add: driven_def relay_not_LED)
qed

theorem relay_value_from_two_witness:
  "\<not> driven (relay ! 0) (user_relay_set (of_nat 0) 2 (zero_device (\<lambda>_. 0) (\<lambda>_. None)))"
  using relay_value_from_two [of "zero_device (\<lambda>_. 0) (\<lambda>_. None)" 0 2] zero_device_ok
  by (simp add: PLUG_NUM_def)

end
