(* ===== verification/Udp.thy ===== *)
theory Udp
  imports Relay
begin

text \<open>
  The way out of \<open>src/user_udp.c\<close>: \<open>user_udp_send\<close>, which puts a copy of a string into the
  send queue, and \<open>udp_msg_send\<close>, which broadcasts it.

  A message is the part of \<open>udp_send_msg_t.data\<close> that \<open>datalen\<close> counts.  The handles the SDK
  hands out are \<open>new_queue 0\<close>, \<open>new_queue 1\<close>, and so on; \<open>queues\<close> counts how many were asked
  for.
\<close>

definition MAX_UDP_DATA_SIZE :: nat where "MAX_UDP_DATA_SIZE = 1024"

text \<open>\<open>udp_msgq=hfmsgq_create(2,256)\<close>.\<close>

definition create_queue :: "device \<Rightarrow> device" where
  "create_queue d =
     (let h = new_queue d (queues d)
      in emit (QueueCreate h) (d\<lparr>udp_msgq := h, queues := queues d + 1\<rparr>))"

definition user_udp_send :: "string option \<Rightarrow> device \<Rightarrow> device res" where
  "user_udp_send arg d =
     rbind (deref arg) (\<lambda>s.
       if MAX_UDP_DATA_SIZE < length s then Inl BufferOverflow
       else (let d1 = create_queue d in Inr (emit (QueueSend (udp_msgq d1) s) d1)))"

definition udp_msg_send :: "string \<Rightarrow> device \<Rightarrow> device" where
  "udp_msg_send msg = emit (Broadcast msg)"

text \<open>\<open>user_send\<close> of \<open>src/user_function.c\<close>: the flag is not looked at.\<close>

definition user_send :: "int \<Rightarrow> string option \<Rightarrow> device \<Rightarrow> device res" where
  "user_send udp_flag s d = user_udp_send s d"

section \<open>What a send does\<close>

lemma create_queue_simps [simp]:
  "u_config (create_queue d) = u_config d" "user_defaultconfig (create_queue d) = user_defaultconfig d"
  "deviceid (create_queue d) = deviceid d" "strMac (create_queue d) = strMac d"
  "strIp (create_queue d) = strIp d" "g_power (create_queue d) = g_power d"
  "key_time (create_queue d) = key_time d" "rtctimes (create_queue d) = rtctimes d"
  "tm_obj (create_queue d) = tm_obj d" "pins (create_queue d) = pins d"
  "new_queue (create_queue d) = new_queue d"
  "udp_msgq (create_queue d) = new_queue d (queues d)" "queues (create_queue d) = Suc (queues d)"
  "io (create_queue d) = io d @ [QueueCreate (new_queue d (queues d))]"
  "plug_on (create_queue d) = plug_on d"
  by (simp_all add: create_queue_def Let_def plug_on_def fun_eq_iff)

lemma udp_send_Inr:
  "user_udp_send arg d = Inr d' \<longleftrightarrow>
   (\<exists>s. arg = Some s \<and> length s \<le> MAX_UDP_DATA_SIZE
        \<and> d' = emit (QueueSend (new_queue d (queues d)) s) (create_queue d))"
  by (cases arg) (auto simp: user_udp_send_def Let_def)

text \<open>What a send leaves alone: everything but the queue and the log.\<close>

definition same_state :: "device \<Rightarrow> device \<Rightarrow> bool" where
  "same_state d d' \<longleftrightarrow>
     u_config d' = u_config d \<and> user_defaultconfig d' = user_defaultconfig d
     \<and> deviceid d' = deviceid d \<and> strMac d' = strMac d \<and> strIp d' = strIp d
     \<and> g_power d' = g_power d \<and> key_time d' = key_time d \<and> rtctimes d' = rtctimes d
     \<and> tm_obj d' = tm_obj d \<and> pins d' = pins d \<and> new_queue d' = new_queue d"

lemma same_state_refl [simp]: "same_state d d"
  by (simp add: same_state_def)

lemma same_state_emit [simp]: "same_state d (emit e d') = same_state d d'"
  by (simp add: same_state_def)

lemma same_state_create [simp]: "same_state d (create_queue d') = same_state d d'"
  by (simp add: same_state_def)

lemma same_state_trans: "same_state a b \<Longrightarrow> same_state b c \<Longrightarrow> same_state a c"
  by (simp add: same_state_def)

lemma udp_send_same: "user_udp_send arg d = Inr d' \<Longrightarrow> same_state d d'"
  by (auto simp: udp_send_Inr)

lemma same_state_globals_ok: "same_state d d' \<Longrightarrow> globals_ok d' = globals_ok d"
  by (simp add: same_state_def globals_ok_def)

lemma same_state_plug_on: "same_state d d' \<Longrightarrow> plug_on d' = plug_on d"
  by (simp add: same_state_def plug_on_def fun_eq_iff)

lemma udp_send_ok: "user_udp_send arg d = Inr d' \<Longrightarrow> globals_ok d' = globals_ok d"
  using udp_send_same same_state_globals_ok by blast

lemma udp_send_pins: "user_udp_send arg d = Inr d' \<Longrightarrow> pin_level p (io d') = pin_level p (io d)"
  by (auto simp: udp_send_Inr)

lemma udp_send_agree: "user_udp_send arg d = Inr d' \<Longrightarrow> relays_agree d' = relays_agree d"
proof -
  assume s: "user_udp_send arg d = Inr d'"
  note st = udp_send_same [OF s]
  have "user_defaultconfig d' = user_defaultconfig d" using st by (simp add: same_state_def)
  then show ?thesis
    by (simp only: relays_agree_def driven_def same_state_plug_on [OF st] udp_send_pins [OF s])
qed

lemma udp_send_fault: "user_udp_send arg d = Inl u \<Longrightarrow> u = BufferOverflow \<or> u = NullDeref"
  by (cases arg) (auto simp: user_udp_send_def Let_def split: if_splits)

section \<open>The queue discipline\<close>

text \<open>
  The log read as a history of the queue: the handle that is current after it, or \<open>None\<close> if
  an operation used another handle than the current one.
\<close>

fun queue_step :: "nat option option \<Rightarrow> io \<Rightarrow> nat option option" where
  "queue_step None e = None"
| "queue_step (Some h) (QueueCreate h') = Some h'"
| "queue_step (Some h) (QueueSend h' s) = (if h' = h then Some h else None)"
| "queue_step (Some h) (QueueRecv h') = (if h' = h then Some h else None)"
| "queue_step (Some h) _ = Some h"

definition queue_now :: "io list \<Rightarrow> nat option option" where
  "queue_now es = foldl queue_step (Some None) es"

lemma queue_now_snoc [simp]: "queue_now (es @ [e]) = queue_step (queue_now es) e"
  by (simp add: queue_now_def)

lemma queue_now_pair [simp]: "queue_now (es @ [a, b]) = queue_step (queue_step (queue_now es) a) b"
  by (simp add: queue_now_def)

text \<open>The messages put into a queue.\<close>

definition sent_to :: "nat option \<Rightarrow> io list \<Rightarrow> string list" where
  "sent_to h es = concat (map (\<lambda>e. case e of QueueSend h' s \<Rightarrow> if h' = h then [s] else [] | _ \<Rightarrow> []) es)"

lemma sent_to_simps [simp]:
  "sent_to h [] = []" "sent_to h (es @ fs) = sent_to h es @ sent_to h fs"
  "sent_to h (QueueSend h' s # es) = (if h' = h then s # sent_to h es else sent_to h es)"
  "sent_to h (QueueCreate h' # es) = sent_to h es"
  by (simp_all add: sent_to_def)

definition queue_ok :: "device \<Rightarrow> bool" where
  "queue_ok d \<longleftrightarrow> queue_now (io d) = Some (udp_msgq d)"

lemma queue_ok_emit [simp]:
  "(\<And>h. queue_step (Some h) e = Some h) \<Longrightarrow> queue_ok d \<Longrightarrow> queue_ok (emit e d)"
  by (simp add: queue_ok_def)

lemma queue_ok_send: "queue_ok d \<Longrightarrow> user_udp_send arg d = Inr d' \<Longrightarrow> queue_ok d'"
  by (auto simp: queue_ok_def udp_send_Inr)

text \<open>
  C33. Only the latest answer can be delivered.  Every send asks for a new queue and forgets
  the old one; if the SDK hands out a handle that was not sent to before, the queue that is
  current afterwards holds this one message, and whatever was still in the old queue is
  unreachable.
\<close>

theorem udp_send_forgets_queue:
  assumes "user_udp_send (Some s) d = Inr d'"
    and "sent_to (new_queue d (queues d)) (io d) = []"
  shows "sent_to (udp_msgq d') (io d') = [s]
    \<and> (\<forall>h. h \<noteq> udp_msgq d' \<longrightarrow> sent_to h (io d') = sent_to h (io d))"
  using assms by (auto simp: udp_send_Inr)

theorem udp_send_forgets_queue_witness:
  "\<exists>d1 d2. user_udp_send (Some ''a'') (zero_device (\<lambda>_. 0) Some) = Inr d1
     \<and> user_udp_send (Some ''b'') d1 = Inr d2 \<and> sent_to (udp_msgq d2) (io d2) = [''b'']"
proof -
  obtain d1 where 1: "user_udp_send (Some ''a'') (zero_device (\<lambda>_. 0) Some) = Inr d1"
    by (simp add: user_udp_send_def MAX_UDP_DATA_SIZE_def Let_def)
  then have d1: "new_queue d1 = Some" "queues d1 = 1" "sent_to (Some 1) (io d1) = []"
    by (auto simp: udp_send_Inr zero_device_def)
  obtain d2 where 2: "user_udp_send (Some ''b'') d1 = Inr d2"
    by (simp add: user_udp_send_def MAX_UDP_DATA_SIZE_def Let_def)
  have "sent_to (new_queue d1 (queues d1)) (io d1) = []" using d1 by simp
  from udp_send_forgets_queue [OF 2 this] 1 2 show ?thesis by blast
qed

end
