(* ===== verification/Function.thy ===== *)
theory Function
  imports Udp CJSON_Parse CJSON_Print
begin

text \<open>
  The command interpreter of \<open>src/user_function.c\<close>: what a JSON text that comes in over UDP,
  over HTTP or from the button does to the device and what it answers.

  The heap of these calls has room: the code tests none of their results.
\<close>

definition VERSION :: string where "VERSION = ''v0.9''"
definition TC1_TYPE :: int where "TC1_TYPE = 1"
definition TYPE_NAME :: string where "TYPE_NAME = ''zTC1''"

section \<open>Small steps of the interpreter\<close>

text \<open>\<open>cJSON_AddStringToObject(obj, name, buf)\<close> for a string buffer.\<close>

definition add_buf :: "cjson \<Rightarrow> string \<Rightarrow> string \<Rightarrow> cjson res" where
  "add_buf obj name buf = rbind (buf_str buf) (\<lambda>s. cJSON_AddStringToObject obj name (Some s))"

text \<open>\<open>p && cJSON_IsString(p) && strcmp(p->valuestring, s) == 0\<close>.\<close>

definition string_item_is :: "cjson option \<Rightarrow> string \<Rightarrow> bool res" where
  "string_item_is p s =
     (case p of
        None \<Rightarrow> Inr False
      | Some c \<Rightarrow> if cJSON_IsString p then rmap (\<lambda>v. v = s) (deref (cvaluestring c)) else Inr False)"

text \<open>\<open>if (p && cJSON_IsString(p)) sprintf(buf, p->valuestring)\<close>.\<close>

definition set_string :: "cjson option \<Rightarrow> string \<Rightarrow> string res" where
  "set_string p buf =
     (case p of
        None \<Rightarrow> Inr buf
      | Some c \<Rightarrow> if cJSON_IsString p then rbind (deref (cvaluestring c)) (sprintf_buf buf)
                  else Inr buf)"

text \<open>\<open>if (p && cJSON_IsNumber(p)) port = p->valueint\<close>.\<close>

definition set_number :: "cjson option \<Rightarrow> int \<Rightarrow> int" where
  "set_number p old =
     (case p of None \<Rightarrow> old | Some c \<Rightarrow> if cJSON_IsNumber p then cvalueint c else old)"

text \<open>\<open>if (p) cJSON_Add...ToObject(obj, name, ...)\<close>.\<close>

definition if_item :: "cjson option \<Rightarrow> (cjson \<Rightarrow> cjson res) \<Rightarrow> cjson \<Rightarrow> cjson res" where
  "if_item p f obj = (if p = None then Inr obj else f obj)"

text \<open>\<open>"plug_X"\<close> and \<open>"task_X"\<close> with the index in the place of the X.\<close>

definition index_name :: "string \<Rightarrow> u8 \<Rightarrow> string" where
  "index_name s x = s @ [u8_char (x + 48)]"

definition plug_str :: "u8 \<Rightarrow> string" where "plug_str = index_name ''plug_''"
definition task_str :: "u8 \<Rightarrow> string" where "task_str = index_name ''task_''"

definition get_plug :: "u8 \<Rightarrow> device \<Rightarrow> user_plug_config_t res" where
  "get_plug x d =
     (if unat x < length (plug (u_config d)) then Inr (plug (u_config d) ! unat x)
      else Inl OutOfBounds)"

definition get_task :: "u8 \<Rightarrow> u8 \<Rightarrow> device \<Rightarrow> user_plug_task_config_t res" where
  "get_task x y d =
     rbind (get_plug x d) (\<lambda>p. if unat y < length (p_task p) then Inr (p_task p ! unat y)
                               else Inl OutOfBounds)"

definition map_plug :: "u8 \<Rightarrow> (user_plug_config_t \<Rightarrow> user_plug_config_t) \<Rightarrow> device \<Rightarrow> device" where
  "map_plug x f d = d\<lparr>u_config := upd_plug (unat x) f (u_config d)\<rparr>"

text \<open>\<open>cJSON_Print\<close> and \<open>user_send\<close>.\<close>

definition print_and_send :: "int \<Rightarrow> cjson \<Rightarrow> device \<Rightarrow> device res" where
  "print_and_send udp_flag json d =
     rbind (cJSON_Print (Some json) Unlimited) (\<lambda>(s, _). user_send udp_flag s d)"

section \<open>Timer tasks\<close>

text \<open>The five numbers of a task as a JSON object.\<close>

definition task_json :: "user_plug_task_config_t \<Rightarrow> cjson res" where
  "task_json t =
     rbind (cJSON_AddNumberToObject cJSON_CreateObject ''hour'' (u8_to_int (t_hour t))) (\<lambda>j1.
     rbind (cJSON_AddNumberToObject j1 ''minute'' (u8_to_int (t_minute t))) (\<lambda>j2.
     rbind (cJSON_AddNumberToObject j2 ''repeat'' (u8_to_int (t_repeat t))) (\<lambda>j3.
     rbind (cJSON_AddNumberToObject j3 ''action'' (u8_to_int (t_action t))) (\<lambda>j4.
     cJSON_AddNumberToObject j4 ''on'' (u8_to_int (t_on t))))))"

text \<open>The new task, if all five items are there and are numbers.\<close>

definition requested_task :: "cjson \<Rightarrow> user_plug_task_config_t option" where
  "requested_task p =
     (let h = cJSON_GetObjectItem p ''hour''; m = cJSON_GetObjectItem p ''minute'';
          r = cJSON_GetObjectItem p ''repeat''; a = cJSON_GetObjectItem p ''action'';
          n = cJSON_GetObjectItem p ''on''
      in if h \<noteq> None \<and> m \<noteq> None \<and> r \<noteq> None \<and> a \<noteq> None \<and> n \<noteq> None
            \<and> cJSON_IsNumber h \<and> cJSON_IsNumber m \<and> cJSON_IsNumber r \<and> cJSON_IsNumber a
            \<and> cJSON_IsNumber n
         then Some \<lparr>t_hour = int_to_u8 (cvalueint (the h)), t_minute = int_to_u8 (cvalueint (the m)),
                    t_repeat = int_to_u8 (cvalueint (the r)), t_action = int_to_u8 (cvalueint (the a)),
                    t_on = int_to_u8 (cvalueint (the n))\<rparr>
         else None)"

definition store_task :: "u8 \<Rightarrow> u8 \<Rightarrow> user_plug_task_config_t \<Rightarrow> device \<Rightarrow> device res" where
  "store_task x y t d =
     rbind (get_task x y d) (\<lambda>_. Inr (map_plug x (upd_task (unat y) (\<lambda>_. t)) d))"

definition json_plug_task_analysis ::
  "u8 \<Rightarrow> u8 \<Rightarrow> cjson option \<Rightarrow> cjson \<Rightarrow> device \<Rightarrow> (bool \<times> cjson \<times> device) res" where
  "json_plug_task_analysis x y pJsonRoot pJsonSend d =
     (case pJsonRoot of
        None \<Rightarrow> Inr (False, pJsonSend, d)
      | Some jroot \<Rightarrow>
          (case cJSON_GetObjectItem jroot (task_str y) of
             None \<Rightarrow> Inr (False, pJsonSend, d)
           | Some p \<Rightarrow>
               rbind (case requested_task p of None \<Rightarrow> Inr d | Some t \<Rightarrow> store_task x y t d) (\<lambda>d1.
               rbind (get_task x y d1) (\<lambda>t.
               rbind (task_json t) (\<lambda>j.
                 Inr (requested_task p \<noteq> None,
                      cJSON_AddItemToObject pJsonSend (task_str y) (Some j), d1))))))"

section \<open>Plugs\<close>

definition plug_on_step :: "u8 \<Rightarrow> cjson \<Rightarrow> device \<Rightarrow> bool \<times> device" where
  "plug_on_step x p d =
     (let p_on = cJSON_GetObjectItem p ''on''
      in if p_on \<noteq> None \<and> cJSON_IsNumber p_on
         then (True, user_relay_set x (int_to_u8 (cvalueint (the p_on))) d) else (False, d))"

definition plug_name_step ::
  "u8 \<Rightarrow> cjson \<Rightarrow> cjson \<Rightarrow> device \<Rightarrow> (bool \<times> cjson \<times> device) res" where
  "plug_name_step x p_setting json d =
     (let p_name = cJSON_GetObjectItem p_setting ''name''
      in if p_name = None then Inr (False, json, d)
         else rbind (get_plug x d) (\<lambda>p.
              rbind (set_string p_name (Device.p_name p)) (\<lambda>b.
              rbind (add_buf json ''name'' b) (\<lambda>j.
                Inr (cJSON_IsString p_name, j, map_plug x (\<lambda>q. q\<lparr>Device.p_name := b\<rparr>) d)))))"

definition plug_tasks_step ::
  "u8 \<Rightarrow> cjson \<Rightarrow> bool \<times> cjson \<times> device \<Rightarrow> (bool \<times> cjson \<times> device) res" where
  "plug_tasks_step x p_setting =
     foldM (\<lambda>i (flag, json, d).
       rmap (\<lambda>(b, json', d'). (flag \<or> b, json', d'))
         (json_plug_task_analysis x (of_nat i) (Some p_setting) json d))
       [0..<PLUG_TIME_TASK_NUM]"

text \<open>The body of \<open>if (p_plug)\<close>: the flag, the answer of the plug, and the device.\<close>

definition plug_request ::
  "u8 \<Rightarrow> cjson \<Rightarrow> cjson \<Rightarrow> device \<Rightarrow> (bool \<times> cjson \<times> device) res" where
  "plug_request x p json d =
     (let (f1, d1) = plug_on_step x p d
      in (case cJSON_GetObjectItem p ''setting'' of
            None \<Rightarrow> Inr (f1, json, d1)
          | Some s \<Rightarrow>
              rbind (plug_name_step x s cJSON_CreateObject d1) (\<lambda>(f2, j2, d2).
              rbind (plug_tasks_step x s (f1 \<or> f2, j2, d2)) (\<lambda>(f3, j3, d3).
                Inr (f3, cJSON_AddItemToObject json ''setting'' (Some j3), d3)))))"

definition json_plug_analysis ::
  "int \<Rightarrow> u8 \<Rightarrow> cjson option \<Rightarrow> cjson option \<Rightarrow> device \<Rightarrow> (bool \<times> cjson option \<times> device) res" where
  "json_plug_analysis udp_flag x pJsonRoot pJsonSend d =
     (case (pJsonRoot, pJsonSend) of
        (Some jroot, Some send) \<Rightarrow>
          rbind (case cJSON_GetObjectItem jroot (plug_str x) of
                   None \<Rightarrow> Inr (False, cJSON_CreateObject, d)
                 | Some p \<Rightarrow> plug_request x p cJSON_CreateObject d) (\<lambda>(f, j, d1).
          rbind (get_plug x d1) (\<lambda>q.
          rbind (cJSON_AddNumberToObject j ''on'' (u8_to_int (p_on q))) (\<lambda>j1.
            Inr (f, Some (cJSON_AddItemToObject send (plug_str x) (Some j1)), d1))))
      | _ \<Rightarrow> Inr (False, pJsonSend, d))"

text \<open>The loop over the plugs.\<close>

definition plugs_analysis ::
  "int \<Rightarrow> cjson option \<Rightarrow> cjson option \<Rightarrow> device \<Rightarrow> (bool \<times> cjson option \<times> device) res" where
  "plugs_analysis udp_flag jroot send d =
     foldM (\<lambda>i (flag, json, d).
       rmap (\<lambda>(b, json', d'). (flag \<or> b, json', d'))
         (json_plug_analysis udp_flag (of_nat i) jroot json d))
       [0..<PLUG_NUM] (False, send, d)"

section \<open>The command\<close>

text \<open>The answer to \<open>{"cmd":"device report"}\<close>.\<close>

definition device_report :: "device \<Rightarrow> cjson res" where
  "device_report d =
     rbind (add_buf cJSON_CreateObject ''name'' (deviceid d)) (\<lambda>j1.
     rbind (add_buf j1 ''mac'' (strMac d)) (\<lambda>j2.
     rbind (cJSON_AddNumberToObject j2 ''type'' TC1_TYPE) (\<lambda>j3.
     rbind (cJSON_AddStringToObject j3 ''type_name'' (Some TYPE_NAME)) (\<lambda>j4.
     add_buf j4 ''ip'' (strIp d)))))"

definition report_step :: "int \<Rightarrow> cjson \<Rightarrow> device \<Rightarrow> device res" where
  "report_step udp_flag jroot d =
     rbind (string_item_is (cJSON_GetObjectItem jroot ''cmd'') ''device report'') (\<lambda>b.
       if b then rbind (device_report d) (\<lambda>j. print_and_send udp_flag j d) else Inr d)"

text \<open>Whether the command is for this device: a name of any kind, or its MAC address.\<close>

definition addressed :: "cjson \<Rightarrow> device \<Rightarrow> bool res" where
  "addressed jroot d =
     (let p_name = cJSON_GetObjectItem jroot ''name''; p_mac = cJSON_GetObjectItem jroot ''mac''
      in if p_name \<noteq> None \<and> cJSON_IsString p_name then Inr True
         else rbind (buf_str (strMac d)) (\<lambda>mac. string_item_is p_mac mac))"

text \<open>The \<open>setting\<close> object: what is stored, then what is answered.\<close>

definition apply_setting :: "cjson \<Rightarrow> device \<Rightarrow> device res" where
  "apply_setting s d =
     rbind (set_string (cJSON_GetObjectItem s ''name'') (deviceid d)) (\<lambda>did.
     rbind (set_string (cJSON_GetObjectItem s ''mqtt_uri'') (mqtt_ip (u_config d))) (\<lambda>ip.
     let port = set_number (cJSON_GetObjectItem s ''mqtt_port'') (mqtt_port (u_config d))
     in rbind (set_string (cJSON_GetObjectItem s ''mqtt_user'') (mqtt_user (u_config d))) (\<lambda>us.
        rbind (set_string (cJSON_GetObjectItem s ''mqtt_password'') (mqtt_password (u_config d))) (\<lambda>pw.
          Inr (d\<lparr>deviceid := did,
                 u_config := (u_config d)\<lparr>mqtt_ip := ip, mqtt_port := port, mqtt_user := us,
                                          mqtt_password := pw\<rparr>\<rparr>)))))"

definition setting_json :: "cjson \<Rightarrow> device \<Rightarrow> cjson res" where
  "setting_json s d =
     (let p_ota = cJSON_GetObjectItem s ''ota''
      in rbind (if_item p_ota (\<lambda>j. cJSON_AddStringToObject j ''ota'' (cvaluestring (the p_ota)))
                  cJSON_CreateObject) (\<lambda>j1.
         rbind (if_item (cJSON_GetObjectItem s ''name'') (\<lambda>j. add_buf j ''name'' (deviceid d)) j1) (\<lambda>j2.
         rbind (if_item (cJSON_GetObjectItem s ''mqtt_uri'')
                  (\<lambda>j. add_buf j ''mqtt_uri'' (mqtt_ip (u_config d))) j2) (\<lambda>j3.
         rbind (if_item (cJSON_GetObjectItem s ''mqtt_port'')
                  (\<lambda>j. cJSON_AddNumberToObject j ''mqtt_port'' (mqtt_port (u_config d))) j3) (\<lambda>j4.
         rbind (if_item (cJSON_GetObjectItem s ''mqtt_user'')
                  (\<lambda>j. add_buf j ''mqtt_user'' (mqtt_user (u_config d))) j4) (\<lambda>j5.
         if_item (cJSON_GetObjectItem s ''mqtt_password'')
           (\<lambda>j. add_buf j ''mqtt_password'' (mqtt_password (u_config d))) j5))))))"

definition setting_step :: "cjson \<Rightarrow> cjson \<Rightarrow> device \<Rightarrow> (cjson \<times> device) res" where
  "setting_step jroot json d =
     (case cJSON_GetObjectItem jroot ''setting'' of
        None \<Rightarrow> Inr (json, d)
      | Some s \<Rightarrow>
          rbind (apply_setting s d) (\<lambda>d1.
          rbind (setting_json s d1) (\<lambda>j.
            Inr (cJSON_AddItemToObject json ''setting'' (Some j), d1))))"

definition command_step :: "int \<Rightarrow> cjson \<Rightarrow> device \<Rightarrow> device res" where
  "command_step udp_flag jroot d =
     rbind (add_buf cJSON_CreateObject ''mac'' (strMac d)) (\<lambda>j1.
     rbind (if_item (cJSON_GetObjectItem jroot ''version'')
              (\<lambda>j. cJSON_AddStringToObject j ''version'' (Some VERSION)) j1) (\<lambda>j2.
     rbind (setting_step jroot j2 d) (\<lambda>(j3, d1).
     rbind (plugs_analysis udp_flag (Some jroot) (Some j3) d1) (\<lambda>(_, j4, d2).
     rbind (deref j4) (\<lambda>j5.
     rbind (add_buf j5 ''name'' (deviceid d2)) (\<lambda>j6. print_and_send udp_flag j6 d2))))))"

definition user_function_cmd_received :: "int \<Rightarrow> string \<Rightarrow> device \<Rightarrow> device res" where
  "user_function_cmd_received udp_flag pusrdata d =
     rbind (cJSON_Parse Unlimited pusrdata) (\<lambda>jroot.
       (case jroot of
          None \<Rightarrow> Inr d
        | Some r \<Rightarrow>
            rbind (report_step udp_flag r d) (\<lambda>d1.
            rbind (addressed r d1) (\<lambda>b. if b then command_step udp_flag r d1 else Inr d1))))"

text \<open>Two hexadecimal digits as a byte.\<close>

definition hex_digit_u8 :: "u8 \<Rightarrow> u8" where
  "hex_digit_u8 a =
     (if 0x30 \<le> a \<and> a \<le> 0x39 then a - 0x30
      else if 0x41 \<le> a \<and> a \<le> 0x46 then a + 10 - 0x41
      else if 0x61 \<le> a \<and> a \<le> 0x66 then a + 10 - 0x61
      else a)"

definition strtohex :: "u8 \<Rightarrow> u8 \<Rightarrow> u8" where
  "strtohex a b = hex_digit_u8 a * 16 + hex_digit_u8 b"

end
