(* ===== verification/Function_Props.thy ===== *)
theory Function_Props
  imports Function CJSON_ParseProps
begin

text \<open>
  What the command interpreter promises.  Every property of the device that the single writes
  keep is kept by a whole command, whatever the packet says (\<open>command_invariant\<close>); what a
  command does to the plugs; and the packets that make it leave the memory it owns.
\<close>

section \<open>Invariants of a command\<close>

lemma AddNumber_u8: "\<exists>j. cJSON_AddNumberToObject obj name (u8_to_int w) = Inr j"
proof -
  have "INT_MIN \<le> u8_to_int w" "u8_to_int w \<le> INT_MAX"
    using u8_to_int_bounds [of w] unfolding INT_MIN_def INT_MAX_def by linarith+
  then show ?thesis by (simp add: cJSON_AddNumberToObject_def)
qed

locale setting_invariant =
  fixes P :: "device \<Rightarrow> bool"
  assumes task: "P d \<Longrightarrow> P (map_plug x (upd_task j (\<lambda>_. t)) d)"
    and name: "P d \<Longrightarrow> get_plug x d = Inr q \<Longrightarrow> set_string p (Device.p_name q) = Inr b \<Longrightarrow>
               P (map_plug x (\<lambda>r. r\<lparr>Device.p_name := b\<rparr>) d)"
begin

lemma task_analysis:
  "P d \<Longrightarrow> json_plug_task_analysis x y r j d = Inr (b, j', d') \<Longrightarrow> P d'"
  by (auto simp: json_plug_task_analysis_def store_task_def task split: option.splits)

lemma tasks_step: "plug_tasks_step x s (b, j, d) = Inr (b', j', d') \<Longrightarrow> P d \<Longrightarrow> P d'"
proof -
  assume "plug_tasks_step x s (b, j, d) = Inr (b', j', d')" and "P d"
  then have "P (snd (snd (b', j', d')))"
    unfolding plug_tasks_step_def
    by (elim foldM_invariant [where P = "\<lambda>s. P (snd (snd s))"])
       (auto simp: rmap_eq_Inr dest: task_analysis)
  then show ?thesis by simp
qed

lemma name_step: "plug_name_step x s j d = Inr (b, j', d') \<Longrightarrow> P d \<Longrightarrow> P d'"
  by (auto simp: plug_name_step_def Let_def name split: if_splits)

end

locale command_invariant = setting_invariant +
  assumes relay: "P d \<Longrightarrow> P (user_relay_set x y d)"
    and send: "P d \<Longrightarrow> user_udp_send arg d = Inr d' \<Longrightarrow> P d'"
    and setting: "P d \<Longrightarrow> apply_setting s d = Inr d' \<Longrightarrow> P d'"
begin

lemma on_step: "plug_on_step x p d = (b, d') \<Longrightarrow> P d \<Longrightarrow> P d'"
  by (auto simp: plug_on_step_def Let_def relay split: if_splits)

lemma plug_request: "plug_request x p j d = Inr (b, j', d') \<Longrightarrow> P d \<Longrightarrow> P d'"
  unfolding plug_request_def
  by (cases "plug_on_step x p d")
     (auto split: option.splits dest!: on_step name_step tasks_step)

lemma plug_analysis: "json_plug_analysis f x r j d = Inr (b, j', d') \<Longrightarrow> P d \<Longrightarrow> P d'"
  by (auto simp: json_plug_analysis_def split: option.splits dest: plug_request)

lemma plugs: "plugs_analysis f r j d = Inr (b, j', d') \<Longrightarrow> P d \<Longrightarrow> P d'"
proof -
  assume "plugs_analysis f r j d = Inr (b, j', d')" and "P d"
  then have "P (snd (snd (b, j', d')))"
    unfolding plugs_analysis_def
    by (elim foldM_invariant [where P = "\<lambda>s. P (snd (snd s))"])
       (auto simp: rmap_eq_Inr dest: plug_analysis)
  then show ?thesis by simp
qed

lemma print_send: "print_and_send f j d = Inr d' \<Longrightarrow> P d \<Longrightarrow> P d'"
  by (auto simp: print_and_send_def user_send_def dest: send)

lemma report: "report_step f r d = Inr d' \<Longrightarrow> P d \<Longrightarrow> P d'"
  by (auto simp: report_step_def split: if_splits dest: print_send)

lemma settings: "setting_step r j d = Inr (j', d') \<Longrightarrow> P d \<Longrightarrow> P d'"
  by (auto simp: setting_step_def split: option.splits dest: setting)

lemma command: "command_step f r d = Inr d' \<Longrightarrow> P d \<Longrightarrow> P d'"
  by (auto simp: command_step_def dest!: settings plugs print_send)

lemma cmd_received: "user_function_cmd_received f s d = Inr d' \<Longrightarrow> P d \<Longrightarrow> P d'"
  by (auto simp: user_function_cmd_received_def split: option.splits if_splits
      dest!: report command)

end

subsection \<open>Health\<close>

text \<open>
  The buffers are terminated and the arrays have their sizes, the relay pins agree with the
  records, and the queue in use is the last one created.
\<close>

definition healthy :: "device \<Rightarrow> bool" where
  "healthy d \<longleftrightarrow> globals_ok d \<and> relays_agree d \<and> queue_ok d"

lemma healthy_zero [simp]: "healthy (zero_device ps nq)"
proof -
  have "queue_ok (zero_device ps nq)" by (simp add: queue_ok_def queue_now_def zero_device_def)
  then show ?thesis by (simp add: healthy_def zero_device_ok relays_agree_zero)
qed

lemma map_plug_simps [simp]:
  "user_defaultconfig (map_plug x f d) = user_defaultconfig d"
  "u_config (map_plug x f d) = upd_plug (unat x) f (u_config d)"
  "deviceid (map_plug x f d) = deviceid d" "strMac (map_plug x f d) = strMac d"
  "strIp (map_plug x f d) = strIp d" "g_power (map_plug x f d) = g_power d"
  "key_time (map_plug x f d) = key_time d" "rtctimes (map_plug x f d) = rtctimes d"
  "tm_obj (map_plug x f d) = tm_obj d" "io (map_plug x f d) = io d"
  "udp_msgq (map_plug x f d) = udp_msgq d"
  by (simp_all add: map_plug_def)

lemma plug_on_map_plug:
  "globals_ok d \<Longrightarrow> i < PLUG_NUM \<Longrightarrow> (\<And>p. p_on (f p) = p_on p) \<Longrightarrow>
   plug_on (map_plug x f d) i = plug_on d i"
  by (simp add: plug_on_def globals_okD)

lemma healthy_map_plug:
  assumes "healthy d" "\<And>p. p_on (f p) = p_on p"
    and "unat x < PLUG_NUM \<Longrightarrow> plug_ok (f (plug (u_config d) ! unat x))"
  shows "healthy (map_plug x f d)"
proof -
  have g: "globals_ok d" using assms(1) by (simp add: healthy_def)
  then have "globals_ok (map_plug x f d)"
    using assms(3) by (simp add: globals_ok_def config_ok_upd_plug)
  moreover have "relays_agree (map_plug x f d)"
    using assms(1,2) g by (simp add: healthy_def relays_agree_def plug_on_map_plug driven_def)
  ultimately show ?thesis using assms(1) by (simp add: healthy_def queue_ok_def)
qed

lemma set_string_ok: "buf_ok n b \<Longrightarrow> set_string p b = Inr b' \<Longrightarrow> buf_ok n b'"
  by (auto simp: set_string_def split: option.splits if_splits dest: buf_ok_sprintf)

lemma healthy_task:
  assumes "healthy d" shows "healthy (map_plug x (upd_task j (\<lambda>_. t)) d)"
  by (rule healthy_map_plug) (use assms in \<open>simp_all add: healthy_def globals_ok_def config_ok_plug\<close>)

lemma healthy_name:
  assumes "healthy d" "get_plug x d = Inr q" "set_string p (Device.p_name q) = Inr b"
  shows "healthy (map_plug x (\<lambda>r. r\<lparr>Device.p_name := b\<rparr>) d)"
proof (rule healthy_map_plug [OF assms(1)])
  assume "unat x < PLUG_NUM"
  then have "plug_ok (plug (u_config d) ! unat x)"
    using assms(1) by (simp add: healthy_def globals_ok_def config_ok_plug)
  then show "plug_ok ((plug (u_config d) ! unat x)\<lparr>Device.p_name := b\<rparr>)"
    using assms(2,3) by (auto simp: plug_ok_def get_plug_def split: if_splits intro: set_string_ok)
qed simp

lemma apply_setting_shape:
  assumes "apply_setting s d = Inr d'"
  shows "\<exists>did ip port us pw.
    d' = d\<lparr>deviceid := did, u_config := (u_config d)\<lparr>mqtt_ip := ip, mqtt_port := port,
             mqtt_user := us, mqtt_password := pw\<rparr>\<rparr>
    \<and> set_string (cJSON_GetObjectItem s ''name'') (deviceid d) = Inr did
    \<and> set_string (cJSON_GetObjectItem s ''mqtt_uri'') (mqtt_ip (u_config d)) = Inr ip
    \<and> set_string (cJSON_GetObjectItem s ''mqtt_user'') (mqtt_user (u_config d)) = Inr us
    \<and> set_string (cJSON_GetObjectItem s ''mqtt_password'') (mqtt_password (u_config d)) = Inr pw"
  using assms by (auto simp: apply_setting_def Let_def)

lemma healthy_setting:
  assumes "healthy d" "apply_setting s d = Inr d'" shows "healthy d'"
proof -
  obtain did ip port us pw where
    d': "d' = d\<lparr>deviceid := did, u_config := (u_config d)\<lparr>mqtt_ip := ip, mqtt_port := port,
             mqtt_user := us, mqtt_password := pw\<rparr>\<rparr>"
    and s: "set_string (cJSON_GetObjectItem s ''name'') (deviceid d) = Inr did"
      "set_string (cJSON_GetObjectItem s ''mqtt_uri'') (mqtt_ip (u_config d)) = Inr ip"
      "set_string (cJSON_GetObjectItem s ''mqtt_user'') (mqtt_user (u_config d)) = Inr us"
      "set_string (cJSON_GetObjectItem s ''mqtt_password'') (mqtt_password (u_config d)) = Inr pw"
    using apply_setting_shape [OF assms(2)] by blast
  from assms(1) s [THEN set_string_ok [rotated]] show ?thesis
    unfolding d' healthy_def globals_ok_def config_ok_def
    by (simp add: relays_agree_def driven_def plug_on_def queue_ok_def)
qed

lemma healthy_relay: "healthy d \<Longrightarrow> healthy (user_relay_set x y d)"
  by (auto simp: healthy_def user_relay_set_ok relays_agree_set)
     (simp add: queue_ok_def user_relay_set_eq)

lemma healthy_send: "healthy d \<Longrightarrow> user_udp_send arg d = Inr d' \<Longrightarrow> healthy d'"
  using udp_send_ok udp_send_agree queue_ok_send by (auto simp: healthy_def)

interpretation health: command_invariant healthy
  by unfold_locales
     (auto intro: healthy_task healthy_name healthy_relay healthy_send healthy_setting)

subsection \<open>What no command touches\<close>

definition kept :: "device \<Rightarrow> device \<Rightarrow> bool" where
  "kept d d' \<longleftrightarrow> strMac d' = strMac d \<and> strIp d' = strIp d \<and> g_power d' = g_power d
     \<and> key_time d' = key_time d \<and> rtctimes d' = rtctimes d \<and> tm_obj d' = tm_obj d
     \<and> c_version (u_config d') = c_version (u_config d)
     \<and> mqtt_device_id (u_config d') = mqtt_device_id (u_config d)"

interpretation kept: command_invariant "kept d" for d
  by unfold_locales
     (auto simp: kept_def user_relay_set_eq udp_send_Inr dest!: apply_setting_shape)

subsection \<open>What the settings of a plug leave alone\<close>

definition on_kept :: "device \<Rightarrow> device \<Rightarrow> bool" where
  "on_kept d d' \<longleftrightarrow> globals_ok d' \<and> (\<forall>i < PLUG_NUM. plug_on d' i = plug_on d i)"

lemma globals_ok_map_plug:
  "globals_ok d \<Longrightarrow> (unat x < PLUG_NUM \<Longrightarrow> plug_ok (plug (u_config d) ! unat x) \<Longrightarrow>
     plug_ok (f (plug (u_config d) ! unat x))) \<Longrightarrow> globals_ok (map_plug x f d)"
  by (simp add: globals_ok_def config_ok_upd_plug)

interpretation on_kept: setting_invariant "on_kept d" for d
proof unfold_locales
  show "on_kept d (map_plug x (upd_task j (\<lambda>_. t)) e)" if "on_kept d e" for e x j t
    using that by (simp add: on_kept_def globals_ok_map_plug plug_on_map_plug)
  show "on_kept d (map_plug x (\<lambda>r. r\<lparr>Device.p_name := b\<rparr>) e)"
    if "on_kept d e" "get_plug x e = Inr q" "set_string p (Device.p_name q) = Inr b" for e x q p b
  proof -
    have "plug_ok ((plug (u_config e) ! unat x)\<lparr>Device.p_name := b\<rparr>)"
      if "plug_ok (plug (u_config e) ! unat x)"
      using that \<open>get_plug x e = Inr q\<close> \<open>set_string p (Device.p_name q) = Inr b\<close>
      by (auto simp: plug_ok_def get_plug_def split: if_splits intro: set_string_ok)
    with that(1) show ?thesis
      by (simp add: on_kept_def globals_ok_map_plug plug_on_map_plug)
  qed
qed

section \<open>What a command does to the plugs\<close>

text \<open>The value a command asks for: the number \<open>on\<close> of the object \<open>plug_i\<close>, as a byte.\<close>

definition wanted_on :: "cjson \<Rightarrow> nat \<Rightarrow> u8 option" where
  "wanted_on r i =
     (case cJSON_GetObjectItem r (plug_str (of_nat i)) of
        None \<Rightarrow> None
      | Some p \<Rightarrow> (case cJSON_GetObjectItem p ''on'' of
                     None \<Rightarrow> None
                   | Some n \<Rightarrow> if cJSON_IsNumber (Some n) then Some (int_to_u8 (cvalueint n))
                              else None))"

lemma plug_request_on:
  assumes "globals_ok d" "i < PLUG_NUM" "plug_request (of_nat i) p j d = Inr (b, j', d')"
  shows "globals_ok d' \<and> (\<forall>k < PLUG_NUM. plug_on d' k =
    (if k = i then (case cJSON_GetObjectItem p ''on'' of
                      None \<Rightarrow> plug_on d i
                    | Some n \<Rightarrow> if cJSON_IsNumber (Some n) then int_to_u8 (cvalueint n)
                               else plug_on d i)
     else plug_on d k))"
proof -
  define d1 where "d1 = snd (plug_on_step (of_nat i) p d)"
  obtain b1 where b1: "plug_on_step (of_nat i) p d = (b1, d1)" by (metis d1_def prod.collapse)
  have "on_kept d1 d1" using assms(1)
    by (auto simp: d1_def plug_on_step_def Let_def on_kept_def user_relay_set_ok)
  then have "on_kept d1 d'" using assms(3) unfolding plug_request_def b1
    by (auto split: option.splits dest!: on_kept.name_step on_kept.tasks_step)
  moreover have "\<forall>k < PLUG_NUM. plug_on d1 k =
    (if k = i then (case cJSON_GetObjectItem p ''on'' of
                      None \<Rightarrow> plug_on d i
                    | Some n \<Rightarrow> if cJSON_IsNumber (Some n) then int_to_u8 (cvalueint n)
                               else plug_on d i)
     else plug_on d k)"
    using assms(1,2)
    by (auto simp: d1_def plug_on_step_def Let_def plug_on_relay_set split: option.splits)
  ultimately show ?thesis by (simp add: on_kept_def)
qed

lemma plug_analysis_on:
  assumes "globals_ok d" "i < PLUG_NUM"
    "json_plug_analysis f (of_nat i) (Some r) (Some s) d = Inr (b, j, d')"
  shows "globals_ok d' \<and> j \<noteq> None \<and> (\<forall>k < PLUG_NUM. plug_on d' k =
    (if k = i then (case wanted_on r i of None \<Rightarrow> plug_on d i | Some y \<Rightarrow> y) else plug_on d k))"
  using assms plug_request_on [of d i]
  by (auto simp: json_plug_analysis_def wanted_on_def split: option.splits)

lemma plugs_loop_on:
  assumes "foldM (\<lambda>i (flag, json, d). rmap (\<lambda>(b, json', d'). (flag \<or> b, json', d'))
      (json_plug_analysis f (of_nat i) (Some r) json d)) ks (flag, Some s, d) = Inr (b, j, d')"
    and "globals_ok d" "set ks \<subseteq> {..<PLUG_NUM}"
  shows "globals_ok d' \<and> (\<forall>k < PLUG_NUM. plug_on d' k =
    (if k \<in> set ks then (case wanted_on r k of None \<Rightarrow> plug_on d k | Some y \<Rightarrow> y) else plug_on d k))"
  using assms
proof (induction ks arbitrary: flag s d)
  case (Cons i ks)
  from Cons.prems(1) obtain b1 j1 d1 where
    1: "json_plug_analysis f (of_nat i) (Some r) (Some s) d = Inr (b1, j1, d1)"
    and 2: "foldM (\<lambda>i (flag, json, d). rmap (\<lambda>(b, json', d'). (flag \<or> b, json', d'))
      (json_plug_analysis f (of_nat i) (Some r) json d)) ks (flag \<or> b1, j1, d1) = Inr (b, j, d')"
    by (auto simp: rmap_eq_Inr)
  from plug_analysis_on [OF Cons.prems(2) _ 1] Cons.prems(3)
  have o: "globals_ok d1" "\<And>k. k < PLUG_NUM \<Longrightarrow> plug_on d1 k =
    (if k = i then (case wanted_on r i of None \<Rightarrow> plug_on d i | Some y \<Rightarrow> y) else plug_on d k)"
    and "j1 \<noteq> None" by auto
  then obtain s1 where "j1 = Some s1" by auto
  with 2 Cons.IH [of "flag \<or> b1" s1 d1] o Cons.prems(3) show ?case
    by (auto split: option.splits)
qed simp

lemma plugs_analysis_on:
  assumes "plugs_analysis f (Some r) (Some s) d = Inr (b, j, d')" "globals_ok d" "k < PLUG_NUM"
  shows "plug_on d' k = (case wanted_on r k of None \<Rightarrow> plug_on d k | Some y \<Rightarrow> y)"
proof -
  have "set [0..<PLUG_NUM] \<subseteq> {..<PLUG_NUM}" by auto
  from plugs_loop_on [OF assms(1) [unfolded plugs_analysis_def] assms(2) this] assms(3)
  show ?thesis by simp
qed

section \<open>The command as a whole\<close>

lemma addressed_cong: "strMac d' = strMac d \<Longrightarrow> addressed r d' = addressed r d"
  by (simp only: addressed_def)

lemma report_step_kept: "report_step f r d = Inr d' \<Longrightarrow> same_state d d'"
  by (auto simp: report_step_def print_and_send_def user_send_def split: if_splits
      dest: udp_send_same)

lemma cmd_received_addressed:
  assumes "cJSON_Parse Unlimited s = Inr (Some r)" "addressed r d = Inr True"
  shows "user_function_cmd_received f s d =
    rbind (report_step f r d) (\<lambda>d1. command_step f r d1)"
proof (cases "report_step f r d")
  case (Inr d1)
  then have "addressed r d1 = Inr True"
    using report_step_kept [of f r d d1] assms(2) addressed_cong [of d1 d r]
    by (simp add: same_state_def)
  with Inr assms(1) show ?thesis by (simp add: user_function_cmd_received_def)
qed (use assms in \<open>simp add: user_function_cmd_received_def\<close>)

lemma setting_step_on:
  assumes "setting_step r j d = Inr (j', d')" "globals_ok d"
  shows "globals_ok d' \<and> plug_on d' = plug_on d"
proof -
  have "globals_ok d' \<and> plug_on d' = plug_on d" if "apply_setting s d = Inr d'" for s
    using apply_setting_shape [OF that] assms(2)
    by (auto simp: globals_ok_def config_ok_def plug_on_def fun_eq_iff intro: set_string_ok)
  then show ?thesis using assms by (auto simp: setting_step_def split: option.splits)
qed

lemma command_step_on:
  assumes "command_step f r d = Inr d'" "globals_ok d" "k < PLUG_NUM"
  shows "plug_on d' k = (case wanted_on r k of None \<Rightarrow> plug_on d k | Some y \<Rightarrow> y)"
proof -
  from assms(1) obtain j2 j3 d1 b j5 d2 j6 where
    1: "setting_step r j2 d = Inr (j3, d1)"
    and 2: "plugs_analysis f (Some r) (Some j3) d1 = Inr (b, Some j5, d2)"
    and 3: "print_and_send f j6 d2 = Inr d'"
    by (force simp: command_step_def deref_def split: option.splits elim!: rbind_InrE)
  have "plug_on d' = plug_on d2"
    using 3 by (auto simp: print_and_send_def user_send_def dest!: udp_send_same same_state_plug_on)
  with plugs_analysis_on [OF 2] setting_step_on [OF 1 assms(2)] assms(3) show ?thesis
    by (simp cong: option.case_cong)
qed

text \<open>
  C3. A command cannot damage the device: whatever the text is, if the interpreter returns,
  every buffer is still terminated and of its size, the relay pins agree with the records, the
  queue in use is the last one created, and the MAC and IP address, the clock, the button
  counter, the measured power and the format version are untouched.
\<close>

theorem command_keeps_health:
  assumes "healthy d" and "user_function_cmd_received f s d = Inr d'"
  shows "healthy d' \<and> kept d d'"
  using health.cmd_received [OF assms(2,1)] kept.cmd_received [OF assms(2)]
  by (simp add: kept_def)

text \<open>
  C2. The plugs do what they are told: after a command that is addressed to the device, plug
  \<open>k\<close> is in the state the number \<open>on\<close> of the object \<open>plug_k\<close> asks for, modulo 256, and in
  the state it had if there is no such number.
\<close>

theorem command_sets_plugs:
  assumes "globals_ok d" and "cJSON_Parse Unlimited s = Inr (Some r)" and "addressed r d = Inr True"
    and "user_function_cmd_received f s d = Inr d'" and "k < PLUG_NUM"
  shows "plug_on d' k = (case wanted_on r k of None \<Rightarrow> plug_on d k | Some y \<Rightarrow> y)"
proof -
  from assms(2-4) obtain d1 where 1: "report_step f r d = Inr d1" and 2: "command_step f r d1 = Inr d'"
    by (auto simp: cmd_received_addressed)
  have "globals_ok d1" "plug_on d1 = plug_on d"
    using report_step_kept [OF 1] assms(1) same_state_globals_ok same_state_plug_on by auto
  then show ?thesis using command_step_on [OF 2 _ assms(5)] by (simp cong: option.case_cong)
qed

text \<open>The packet \<open>{"name":"x","plug_1":{"on":1}}\<close> on a device that was just started.\<close>

definition ex_packet :: string where
  "ex_packet = map (\<lambda>c. if c = CHR ''!'' then CHR 0x22 else c) ''{!name!:!x!,!plug_1!:{!on!:1}}''"

definition ex_device :: device where "ex_device = zero_device (\<lambda>_. 0) Some"

definition ex_tree :: cjson where
  "ex_tree = CJ cJSON_Object None 0 0 None
     [CJ cJSON_String (Some ''x'') 0 0 (Some ''name'') [],
      CJ cJSON_Object None 0 0 (Some ''plug_1'') [CJ cJSON_Number None 1 1 (Some ''on'') []]]"

lemma ex_device_healthy: "healthy ex_device"
  by (simp add: healthy_def ex_device_def zero_device_ok relays_agree_zero)
     (simp add: queue_ok_def zero_device_def queue_now_def)

lemma ex_packet_parse: "cJSON_Parse Unlimited ex_packet = Inr (Some ex_tree)"
  by code_simp

lemma ex_packet_runs: "\<exists>d'. user_function_cmd_received 1 ex_packet ex_device = Inr d'"
proof -
  have "case user_function_cmd_received 1 ex_packet ex_device of Inl _ \<Rightarrow> False | Inr _ \<Rightarrow> True"
    by code_simp
  then show ?thesis by (simp split: sum.splits)
qed

lemma ex_tree_addressed: "addressed ex_tree d = Inr True"
  by (simp add: addressed_def ex_tree_def cJSON_GetObjectItem_def key_matches_def Let_def
      cJSON_strcasecmp_def cJSON_Is_defs ckind_def cJSON_types tolower_def)

lemma ex_tree_wanted: "wanted_on ex_tree 1 = Some 1"
  by code_simp

theorem command_keeps_health_witness:
  "\<exists>d'. user_function_cmd_received 1 ex_packet ex_device = Inr d' \<and> healthy d' \<and> kept ex_device d'"
  using ex_packet_runs command_keeps_health [OF ex_device_healthy] by blast

theorem command_sets_plugs_witness:
  "\<exists>d'. user_function_cmd_received 1 ex_packet ex_device = Inr d' \<and> plug_on d' 1 = 1"
proof -
  obtain d' where d': "user_function_cmd_received 1 ex_packet ex_device = Inr d'"
    using ex_packet_runs by blast
  have "globals_ok ex_device" using ex_device_healthy by (simp add: healthy_def)
  from command_sets_plugs [OF this ex_packet_parse ex_tree_addressed d', of 1] d'
  show ?thesis by (auto simp only: ex_tree_wanted PLUG_NUM_def option.case)
qed

subsection \<open>Packets for others\<close>

text \<open>
  The text of a member, read off the object itself: the first member whose name is \<open>s\<close> up to
  the case of the letters, if it is a string.
\<close>

definition text_member :: "cjson \<Rightarrow> string \<Rightarrow> string option" where
  "text_member r s =
     (case find (\<lambda>c. \<exists>k. cstring c = Some k \<and> map tolower (cstr k) = map tolower s) (cchild r) of
        None \<Rightarrow> None
      | Some c \<Rightarrow> if cJSON_IsString (Some c) then cvaluestring c else None)"

lemma strcasecmp_loop_eq:
  "NUL \<notin> set s \<Longrightarrow> strcasecmp_loop k s = 0 \<longleftrightarrow> map tolower (cstr k) = map tolower s"
proof (induction k arbitrary: s)
  case Nil
  have "tolower NUL = tolower (peek s) \<longleftrightarrow> s = []"
    using Nil tolower_NUL_iff [of "peek s"] by (cases s) (auto simp: tolower_def)
  then show ?case by (auto simp: cstr_def)
next
  case (Cons c k)
  show ?case
  proof (cases s)
    case Nil
    have "tolower c = tolower NUL \<longleftrightarrow> c = NUL"
      using tolower_NUL_iff [of c] by (auto simp: tolower_def)
    then show ?thesis by (auto simp: Nil cstr_def)
  next
    case (Cons x xs)
    then have x: "x \<noteq> NUL" "NUL \<notin> set xs" using Cons.prems by auto
    have n: "tolower c = tolower x \<Longrightarrow> c \<noteq> NUL" using x(1) tolower_NUL_iff [of x] by (auto simp: tolower_def)
    have "cstr (c # k) = (if c = NUL then [] else c # cstr k)" by (simp add: cstr_def)
    with n Cons.IH [OF x(2)] show ?thesis by (auto simp: Cons)
  qed
qed

lemma GetObjectItem_text:
  assumes "NUL \<notin> set s"
  shows "cJSON_GetObjectItem r s =
    find (\<lambda>c. \<exists>k. cstring c = Some k \<and> map tolower (cstr k) = map tolower s) (cchild r)"
proof -
  have "key_matches s = (\<lambda>c. \<exists>k. cstring c = Some k \<and> map tolower (cstr k) = map tolower s)"
    using strcasecmp_loop_eq [OF assms]
    by (auto simp: fun_eq_iff key_matches_def cJSON_strcasecmp_def split: option.split)
  then show ?thesis by (simp add: cJSON_GetObjectItem_def)
qed

lemma string_item_text:
  assumes "cJSON_Parse m p = Inr (Some r)" "NUL \<notin> set s"
  shows "string_item_is (cJSON_GetObjectItem r s) v = Inr (text_member r s = Some v)"
    and "(\<exists>c. cJSON_GetObjectItem r s = Some c \<and> cJSON_IsString (Some c)) \<longleftrightarrow> text_member r s \<noteq> None"
proof -
  have w: "\<exists>w. cvaluestring c = Some w" if "cJSON_GetObjectItem r s = Some c" "cJSON_IsString (Some c)" for c
  proof -
    have "c \<in> set (cchild r)" using that(1) by (auto simp: cJSON_GetObjectItem_def find_Some_iff)
    then show ?thesis using parsed_text [OF assms(1)] that(2) by blast
  qed
  then show "string_item_is (cJSON_GetObjectItem r s) v = Inr (text_member r s = Some v)"
    by (fastforce simp: string_item_is_def text_member_def deref_def GetObjectItem_text [OF assms(2)]
        split: option.split)
  show "(\<exists>c. cJSON_GetObjectItem r s = Some c \<and> cJSON_IsString (Some c)) \<longleftrightarrow> text_member r s \<noteq> None"
    using w by (auto simp: text_member_def GetObjectItem_text [OF assms(2)] split: option.splits)
qed

text \<open>A packet without a name and without the own MAC address stops behind the report.\<close>

lemma foreign_command:
  assumes "globals_ok d" "cJSON_Parse Unlimited s = Inr (Some r)"
    and "text_member r ''name'' = None" "text_member r ''mac'' \<noteq> Some (cstr (strMac d))"
  shows "user_function_cmd_received f s d =
      (if text_member r ''cmd'' = Some ''device report''
       then rbind (device_report d) (\<lambda>j. print_and_send f j d) else Inr d)"
    and "user_function_cmd_received f s d = Inr d' \<Longrightarrow>
      same_state d d' \<and> pin_level p (io d') = pin_level p (io d)"
proof -
  note t = string_item_text [OF assms(2)]
  have mac: "buf_str (strMac d) = Inr (cstr (strMac d))" using assms(1) by (auto dest: globals_okD buf_ok_str)
  have n: "NUL \<notin> set ''name''" "NUL \<notin> set ''mac''" "NUL \<notin> set ''cmd''" by simp_all
  have a: "addressed r e = Inr False" if "strMac e = strMac d" for e
    using t(2) [OF n(1)] t(1) [OF n(2), of "cstr (strMac d)"] assms(3,4) mac that
    by (auto simp: addressed_def Let_def)
  have rs: "report_step f r d = (if text_member r ''cmd'' = Some ''device report''
       then rbind (device_report d) (\<lambda>j. print_and_send f j d) else Inr d)"
    using t(1) [OF n(3)] by (simp add: report_step_def)
  have "user_function_cmd_received f s d = report_step f r d"
  proof (cases "report_step f r d")
    case (Inr e)
    then have "strMac e = strMac d" using report_step_kept [OF Inr] by (simp add: same_state_def)
    with Inr a show ?thesis by (simp add: user_function_cmd_received_def assms(2))
  qed (simp add: user_function_cmd_received_def assms(2))
  then show "user_function_cmd_received f s d =
      (if text_member r ''cmd'' = Some ''device report''
       then rbind (device_report d) (\<lambda>j. print_and_send f j d) else Inr d)" using rs by simp
  assume "user_function_cmd_received f s d = Inr d'"
  with \<open>user_function_cmd_received f s d = report_step f r d\<close>
  have r: "report_step f r d = Inr d'" by simp
  then have "pin_level p (io d') = pin_level p (io d)"
    by (auto simp: report_step_def print_and_send_def user_send_def split: if_splits dest: udp_send_pins)
  with report_step_kept [OF r] show "same_state d d' \<and> pin_level p (io d') = pin_level p (io d)" by simp
qed

text \<open>
  C37. Packets for others are ignored.  If a text is no JSON, or is JSON whose top level has no
  string called \<open>name\<close> and no string called \<open>mac\<close> that is the address of the device (names
  compared without case, the first of several counts), then nothing at all changes, unless the
  string \<open>cmd\<close> asks for a device report; then the report is sent, and configuration, names,
  addresses, clock and every pin stay as they are.
\<close>

theorem command_ignored:
  assumes "globals_ok d" and "cJSON_Parse Unlimited s = Inr jroot"
    and "jroot = None \<or> text_member (the jroot) ''name'' = None
           \<and> text_member (the jroot) ''mac'' \<noteq> Some (cstr (strMac d))"
  shows "(user_function_cmd_received f s d =
       (if jroot \<noteq> None \<and> text_member (the jroot) ''cmd'' = Some ''device report''
        then rbind (device_report d) (\<lambda>j. print_and_send f j d) else Inr d))
    \<and> (\<forall>d'. user_function_cmd_received f s d = Inr d' \<longrightarrow>
         same_state d d' \<and> (\<forall>p. pin_level p (io d') = pin_level p (io d)))"
proof (cases jroot)
  case None
  with assms(2) show ?thesis by (simp add: user_function_cmd_received_def)
next
  case (Some r)
  with assms foreign_command [of d s r f] show ?thesis by simp
qed

text \<open>
  Without a \<open>name\<close>, only the own MAC address is accepted: a command with the string \<open>v\<close>
  as its \<open>mac\<close> is for the device exactly if \<open>v\<close> is the address in \<open>strMac\<close>.  With a \<open>name\<close>
  any string will do.
\<close>

theorem addressed_spec:
  assumes "globals_ok d"
    and "cJSON_GetObjectItem r ''mac'' = Some c" "cJSON_IsString (Some c)" "cvaluestring c = Some v"
  shows "addressed r d =
    Inr ((\<exists>n. cJSON_GetObjectItem r ''name'' = Some n \<and> cJSON_IsString (Some n)) \<or> v = cstr (strMac d))"
proof -
  have "buf_str (strMac d) = Inr (cstr (strMac d))" using assms(1) by (auto dest: globals_okD buf_ok_str)
  with assms show ?thesis
    by (cases "cJSON_GetObjectItem r ''name''") (auto simp: addressed_def string_item_is_def Let_def)
qed

definition ex_foreign :: cjson where
  "ex_foreign = CJ cJSON_Object None 0 0 None
     [CJ cJSON_String (Some ''D0BAE4638EA3'') 0 0 (Some ''mac'') []]"

lemma ex_foreign_items:
  "cJSON_GetObjectItem ex_foreign ''mac'' = Some (CJ cJSON_String (Some ''D0BAE4638EA3'') 0 0 (Some ''mac'') [])"
  "cJSON_GetObjectItem ex_foreign ''name'' = None"
  by code_simp+

definition ex_foreign_packet :: string where
  "ex_foreign_packet = map (\<lambda>c. if c = CHR ''!'' then CHR 0x22 else c) ''{!mac!:!D0BAE4638EA3!}''"

theorem command_ignored_witness:
  "user_function_cmd_received 1 ex_foreign_packet ex_device = Inr ex_device"
proof -
  have g: "globals_ok ex_device" using ex_device_healthy by (simp add: healthy_def)
  have p: "cJSON_Parse Unlimited ex_foreign_packet = Inr (Some ex_foreign)" by code_simp
  have "text_member ex_foreign ''mac'' = Some ''D0BAE4638EA3''" "text_member ex_foreign ''name'' = None"
    "text_member ex_foreign ''cmd'' = None"
    by (simp_all add: text_member_def ex_foreign_def cJSON_Is_defs ckind_def cJSON_types tolower_def cstr_def)
  moreover have "cstr (strMac ex_device) = []" by code_simp
  ultimately show ?thesis using command_ignored [OF g p] by simp
qed

theorem addressed_spec_witness: "addressed ex_foreign ex_device = Inr False"
proof -
  have g: "globals_ok ex_device" using ex_device_healthy by (simp add: healthy_def)
  have "cstr (strMac ex_device) = []" by code_simp
  then show ?thesis using addressed_spec [OF g ex_foreign_items(1)]
    by (simp add: ex_foreign_items cJSON_Is_defs ckind_def cJSON_types)
qed

subsection \<open>Packets that leave the memory of the device\<close>

lemma command_setting_fault:
  assumes "globals_ok d" and "cJSON_Parse Unlimited s = Inr (Some r)" and "addressed r d = Inr True"
    and "string_item_is (cJSON_GetObjectItem r ''cmd'') ''device report'' = Inr False"
    and "\<And>j. setting_step r j d = Inl u"
  shows "user_function_cmd_received f s d = Inl u"
proof -
  have "buf_str (strMac d) = Inr (cstr (strMac d))" using assms(1) by (auto dest: globals_okD buf_ok_str)
  then have "command_step f r d = Inl u"
    using assms(5)
    by (cases "cJSON_GetObjectItem r ''version''")
       (simp_all add: command_step_def add_buf_def cJSON_AddStringToObject_def if_item_def)
  with assms show ?thesis by (simp add: cmd_received_addressed report_step_def)
qed

text \<open>
  A device name of 32 or more characters without a percent sign overflows the 32 bytes of
  \<open>deviceid\<close>: nothing limits the string that \<open>sprintf\<close> copies out of the packet.
\<close>

theorem long_name_overflows:
  assumes "globals_ok d" and "cJSON_Parse Unlimited s = Inr (Some r)" and "addressed r d = Inr True"
    and "string_item_is (cJSON_GetObjectItem r ''cmd'') ''device report'' = Inr False"
    and "cJSON_GetObjectItem r ''setting'' = Some c" "cJSON_GetObjectItem c ''name'' = Some n"
    and "cJSON_IsString (Some n)" "cvaluestring n = Some v" "CHR ''%'' \<notin> set v" "32 \<le> length v"
  shows "user_function_cmd_received f s d = Inl BufferOverflow"
proof (rule command_setting_fault [OF assms(1-4)])
  have "length (deviceid d) = 32" using assms(1) by (simp add: globals_ok_def buf_ok_def)
  then have "set_string (cJSON_GetObjectItem c ''name'') (deviceid d) = Inl BufferOverflow"
    using assms by (simp add: set_string_def sprintf_buf_plain strcpy_buf_overflow)
  then show "setting_step r j d = Inl BufferOverflow" for j
    using assms(5) by (simp add: setting_step_def apply_setting_def)
qed

definition ex_long_packet :: string where
  "ex_long_packet = map (\<lambda>c. if c = CHR ''!'' then CHR 0x22 else c)
     (''{!name!:!!,!setting!:{!name!:!'' @ replicate 32 (CHR ''A'') @ ''!}}'')"

definition ex_long_setting :: cjson where
  "ex_long_setting = CJ cJSON_Object None 0 0 (Some ''setting'')
     [CJ cJSON_String (Some (replicate 32 (CHR ''A''))) 0 0 (Some ''name'') []]"

definition ex_long_tree :: cjson where
  "ex_long_tree = CJ cJSON_Object None 0 0 None
     [CJ cJSON_String (Some []) 0 0 (Some ''name'') [], ex_long_setting]"

lemma ex_long_parse: "cJSON_Parse Unlimited ex_long_packet = Inr (Some ex_long_tree)"
  by code_simp

lemma ex_long_items:
  "cJSON_GetObjectItem ex_long_tree ''setting'' = Some ex_long_setting"
  "cJSON_GetObjectItem ex_long_setting ''name'' =
     Some (CJ cJSON_String (Some (replicate 32 (CHR ''A''))) 0 0 (Some ''name'') [])"
  "string_item_is (cJSON_GetObjectItem ex_long_tree ''cmd'') ''device report'' = Inr False"
  "addressed ex_long_tree ex_device = Inr True"
  by code_simp+

theorem long_name_overflows_witness:
  "user_function_cmd_received 1 ex_long_packet ex_device = Inl BufferOverflow"
  by (rule long_name_overflows [OF _ ex_long_parse ex_long_items(4,3,1,2),
        where v = "replicate 32 (CHR ''A'')"])
     (use ex_device_healthy in \<open>simp_all add: healthy_def cJSON_Is_defs ckind_def cJSON_types\<close>)

text \<open>
  An \<open>ota\<close> setting that is not a string dereferences NULL: the test for a string guards
  only the update that is commented out, and the answer copies \<open>valuestring\<close> in any case.
\<close>

theorem ota_number_null_deref:
  assumes "globals_ok d" and "cJSON_Parse Unlimited s = Inr (Some r)" and "addressed r d = Inr True"
    and "string_item_is (cJSON_GetObjectItem r ''cmd'') ''device report'' = Inr False"
    and "cJSON_GetObjectItem r ''setting'' = Some c" "apply_setting c d = Inr d1"
    and "cJSON_GetObjectItem c ''ota'' = Some n" "cvaluestring n = None"
  shows "user_function_cmd_received f s d = Inl NullDeref"
  by (rule command_setting_fault [OF assms(1-4)])
     (use assms in \<open>simp add: setting_step_def setting_json_def if_item_def cJSON_AddStringToObject_def\<close>)

definition ex_ota_packet :: string where
  "ex_ota_packet = map (\<lambda>c. if c = CHR ''!'' then CHR 0x22 else c) ''{!name!:!!,!setting!:{!ota!:1}}''"

definition ex_ota_setting :: cjson where
  "ex_ota_setting = CJ cJSON_Object None 0 0 (Some ''setting'')
     [CJ cJSON_Number None 1 1 (Some ''ota'') []]"

definition ex_ota_tree :: cjson where
  "ex_ota_tree = CJ cJSON_Object None 0 0 None
     [CJ cJSON_String (Some []) 0 0 (Some ''name'') [], ex_ota_setting]"

lemma ex_ota_parse: "cJSON_Parse Unlimited ex_ota_packet = Inr (Some ex_ota_tree)"
  by code_simp

lemma ex_ota_items:
  "cJSON_GetObjectItem ex_ota_tree ''setting'' = Some ex_ota_setting"
  "cJSON_GetObjectItem ex_ota_setting ''ota'' = Some (CJ cJSON_Number None 1 1 (Some ''ota'') [])"
  "string_item_is (cJSON_GetObjectItem ex_ota_tree ''cmd'') ''device report'' = Inr False"
  "addressed ex_ota_tree ex_device = Inr True"
  by code_simp+

lemma ex_ota_applies: "\<exists>d1. apply_setting ex_ota_setting ex_device = Inr d1"
proof -
  have "case apply_setting ex_ota_setting ex_device of Inl _ \<Rightarrow> False | Inr _ \<Rightarrow> True"
    by code_simp
  then show ?thesis by (simp split: sum.splits)
qed

theorem ota_number_null_deref_witness:
  "user_function_cmd_received 1 ex_ota_packet ex_device = Inl NullDeref"
proof -
  obtain d1 where "apply_setting ex_ota_setting ex_device = Inr d1" using ex_ota_applies by blast
  moreover have "globals_ok ex_device" using ex_device_healthy by (simp add: healthy_def)
  ultimately show ?thesis
    using ota_number_null_deref [OF _ ex_ota_parse ex_ota_items(4,3,1) _ ex_ota_items(2)] by simp
qed

end
