(* ===== verification/Httpd.thy ===== *)
theory Httpd
  imports CJSON_Roundtrip CJSON_Ops Function_Props
begin

text \<open>
  The web server of \<open>src/httpd.c\<close>: the table of pages, the dispatcher the SDK calls with the
  URL of a request, and the pages \<open>/styles.css\<close>, \<open>/switch\<close> and \<open>/status\<close>.

  The response buffer belongs to the SDK; the text a page writes into it is a result.  How
  many bytes a block of \<open>malloc(n)\<close> really has is a parameter of the model, \<open>room n\<close>: the C
  standard promises \<open>n\<close>, an allocator may round up.
\<close>

section \<open>Decoding a URL\<close>

text \<open>\<open>strtol(s, NULL, 16)\<close>.\<close>

definition is_hex :: "char \<Rightarrow> bool" where
  "is_hex c \<longleftrightarrow> is_digit c \<or> (97 \<le> code (tolower c) \<and> code (tolower c) \<le> 102)"

definition hex_value :: "char \<Rightarrow> int" where
  "hex_value c = (if is_digit c then int (digit_val c) else int (code (tolower c)) - 87)"

definition is_space :: "char \<Rightarrow> bool" where
  "is_space c \<longleftrightarrow> code c = 32 \<or> (9 \<le> code c \<and> code c \<le> 13)"

definition hex_prefix :: "string \<Rightarrow> string" where
  "hex_prefix s =
     (case s of z # x # c # _ \<Rightarrow>
        if z = CHR ''0'' \<and> tolower x = CHR ''x'' \<and> is_hex c then drop 2 s else s
      | _ \<Rightarrow> s)"

definition hex_digits :: "string \<Rightarrow> int" where
  "hex_digits s = foldl (\<lambda>v c. 16 * v + hex_value c) 0 (takeWhile is_hex (hex_prefix s))"

definition strtol16 :: "string \<Rightarrow> int" where
  "strtol16 s =
     (case dropWhile is_space s of
        c # t \<Rightarrow> if c = CHR ''-'' then - hex_digits t
                  else if c = CHR ''+'' then hex_digits t else hex_digits (c # t)
      | [] \<Rightarrow> 0)"

text \<open>
  The loop of \<open>convert_ascii\<close> on the memory from \<open>in\<close> on.  \<open>out\<close> never overtakes \<open>in\<close>, so what
  is written is never read again.
\<close>

fun convert_ascii :: "string \<Rightarrow> string res" where
  "convert_ascii [] = Inl OutOfBounds"
| "convert_ascii (c # m) =
     (if c = NUL then Inr []
      else if c = CHR ''%''
           then (case m of
                   a # b # m' \<Rightarrow>
                     rmap ((#) (u8_char (int_to_u8 (strtol16 (cstr [a, b]))))) (convert_ascii m')
                 | _ \<Rightarrow> Inl OutOfBounds)
      else rmap ((#) c) (convert_ascii m))"

section \<open>The arguments of a request\<close>

fun strstr :: "string \<Rightarrow> string \<Rightarrow> bool" where
  "strstr [] p \<longleftrightarrow> p = []"
| "strstr (c # s) p \<longleftrightarrow> starts_with p (c # s) \<or> strstr s p"

definition slot_value :: "string \<Rightarrow> nat \<Rightarrow> string option" where
  "slot_value url i =
     (if strstr url (''slot'' @ [digit_char i] @ ''=0'') then Some ''0''
      else if strstr url (''slot'' @ [digit_char i] @ ''=1'') then Some ''1'' else None)"

text \<open>The six blocks of the function, which stop at the first slot that is missing.\<close>

fun arg_slots :: "string \<Rightarrow> nat list \<Rightarrow> string option list \<Rightarrow> int \<times> string option list" where
  "arg_slots url [] slots = (0, slots)"
| "arg_slots url (i # is) slots =
     (case slot_value url i of
        None \<Rightarrow> (1, slots)
      | Some v \<Rightarrow> arg_slots url is (slots[i := Some v]))"

definition httpd_arg_find :: "string \<Rightarrow> string option list \<Rightarrow> int \<times> string option list" where
  "httpd_arg_find url slots =
     (if CHR ''?'' \<notin> set url then (1, slots) else arg_slots url [0, 1, 2, 3, 4, 5] slots)"

section \<open>The pages\<close>

text \<open>Double quotes in a literal are written as exclamation marks.\<close>

definition dquoted :: "string \<Rightarrow> string" where
  "dquoted = map (\<lambda>c. if c = CHR ''!'' then CHR 0x22 else c)"

text \<open>\<open>sprintf\<close> with one-letter directives, whose arguments are already text.\<close>

fun fmt_args :: "string \<Rightarrow> string list \<Rightarrow> string" where
  "fmt_args [] as = []"
| "fmt_args (c # s) as =
     (if c = CHR ''%''
      then (case (s, as) of (_ # s', a # as') \<Rightarrow> a @ fmt_args s' as' | _ \<Rightarrow> [])
      else c # fmt_args s as)"

definition crlf :: string where "crlf = [CHR 0x0D, CHR 0x0A]"

definition http_header :: string where
  "http_header = ''HTTP/1.1 200 OK'' @ crlf @ ''Server: HTTPD'' @ crlf @ ''Connection: close'' @ crlf @ crlf"

definition css_page :: string where
  "css_page =
     ''* {font-family:sans-serif; font-size:12pt;}'' @ crlf
     @ ''h1 {font-size:16pt; color:black;}'' @ crlf
     @ ''h6 {font-size:10pt; color:black; text-align:center;}'' @ crlf
     @ ''.button-menu {background-color:#ffffff; color:blue; margin: 10px; text-decoration:none}'' @ crlf
     @ ''.button-link {padding:5px 15px; background-color:#0077dd; color:#fff; border:solid 1px #fff; text-decoration:none}'' @ crlf
     @ ''.button-menu:hover {background:#ddddff;}'' @ crlf
     @ ''.button-link:hover {background:#369;}'' @ crlf
     @ ''th {padding:10px; background-color:black; color:#ffffff;}'' @ crlf
     @ ''td {padding:7px;}'' @ crlf
     @ ''table {color:black;}'' @ crlf"

definition switch_format :: string where
  "switch_format = dquoted
     ''{!plug_0!:{!on!:%s},!plug_1!:{!on!:%s},!plug_2!:{!on!:%s},!plug_3!:{!on!:%s},!plug_4!:{!on!:%s},!plug_5!:{!on!:%s}}''"

definition switch_sample :: string where
  "switch_sample = dquoted
     ''{!plug_0!:{!on!:1},!plug_1!:{!on!:0},!plug_2!:{!on!:1},!plug_3!:{!on!:1},!plug_4!:{!on!:1},!plug_5!:{!on!:1}}''"

definition status_format :: string where
  "status_format = dquoted
     ''{!slot0!:%d,!slot1!:%d,!slot2!:%d,!slot3!:%d,!slot4!:%d,!slot5!:%d,!power!:%s}''"

definition status_sample :: string where
  "status_sample = dquoted
     ''{!slot0!:0,!slot1!:0,!slot2!:0,!slot3!:0,!slot4!:0,!slot5!:0,!power!:}''"

text \<open>\<open>sprintf\<close> into a fresh block of \<open>malloc(n)\<close>.\<close>

definition malloc_text :: "(nat \<Rightarrow> nat) \<Rightarrow> nat \<Rightarrow> string \<Rightarrow> string res" where
  "malloc_text room n s = (if length s + 1 \<le> room n then Inr s else Inl BufferOverflow)"

definition styles_cbk :: "string \<Rightarrow> device \<Rightarrow> (string \<times> device) res" where
  "styles_cbk url d = Inr (css_page, d)"

definition switch_cbk :: "(nat \<Rightarrow> nat) \<Rightarrow> string \<Rightarrow> device \<Rightarrow> (string \<times> device) res" where
  "switch_cbk room url d =
     (let (ret, slots) = httpd_arg_find url (replicate 6 None)
      in if 0 < ret then Inr (''ret > 0'', d)
         else rbind (malloc_text room (length switch_sample)
                       (fmt_args switch_format (map the slots))) (\<lambda>send_buf.
              rbind (cJSON_Parse Unlimited send_buf) (\<lambda>jroot.
              rbind (plugs_analysis 1 jroot (Some cJSON_CreateObject) d) (\<lambda>(_, _, d').
                Inr (send_buf, d')))))"

definition power_text :: "u32 \<Rightarrow> string" where
  "power_text p = fmt_args ''%d.%d'' [dec_nat (unat (p div 10)), dec_nat (unat (p mod 10))]"

definition status_text :: "device \<Rightarrow> string" where
  "status_text d =
     fmt_args status_format
       (map (\<lambda>i. dec_nat (unat (plug_on d i))) [0..<PLUG_NUM] @ [power_text (g_power d)])"

definition status_cbk :: "(nat \<Rightarrow> nat) \<Rightarrow> string \<Rightarrow> device \<Rightarrow> (string \<times> device) res" where
  "status_cbk room url d =
     rbind (malloc_text room 16 (power_text (g_power d))) (\<lambda>power_temp_buf.
     rbind (malloc_text room (length status_sample + length power_temp_buf) (status_text d)) (\<lambda>send_buf.
       Inr (send_buf, d)))"

section \<open>The table of pages\<close>

datatype page = Styles | Switch | Status

type_synonym httpd_pages = "(string \<times> page) option list"

definition HTTPD_MAX_PAGES :: nat where "HTTPD_MAX_PAGES = 10"

definition no_pages :: httpd_pages where "no_pages = replicate HTTPD_MAX_PAGES None"

text \<open>The first entry without a URL.\<close>

fun free_page :: "httpd_pages \<Rightarrow> nat option" where
  "free_page [] = None"
| "free_page (p # ps) = (if p = None then Some 0 else map_option Suc (free_page ps))"

definition httpd_add_page :: "string \<Rightarrow> page \<Rightarrow> httpd_pages \<Rightarrow> int \<times> httpd_pages" where
  "httpd_add_page url callback pages =
     (case free_page pages of
        None \<Rightarrow> (- 1, pages)
      | Some i \<Rightarrow> (0, pages[i := Some (url, callback)]))"

text \<open>The part of the URL a page is found by: at most 49 characters, up to the question mark.\<close>

definition page_path :: "string \<Rightarrow> string" where
  "page_path url = takeWhile (\<lambda>c. c \<noteq> CHR ''?'') (take 49 url)"

text \<open>The search ends at an entry without a URL; a full table has none.\<close>

fun find_page :: "string \<Rightarrow> httpd_pages \<Rightarrow> page option res" where
  "find_page path [] = Inl OutOfBounds"
| "find_page path (p # ps) =
     (case p of
        None \<Rightarrow> Inr None
      | Some (url, callback) \<Rightarrow> if url = path then Inr (Some callback) else find_page path ps)"

fun run_page :: "page \<Rightarrow> (nat \<Rightarrow> nat) \<Rightarrow> string \<Rightarrow> device \<Rightarrow> (string \<times> device) res" where
  "run_page Styles room = styles_cbk"
| "run_page Switch room = switch_cbk room"
| "run_page Status room = status_cbk room"

definition httpd_callback ::
  "(nat \<Rightarrow> nat) \<Rightarrow> httpd_pages \<Rightarrow> string \<Rightarrow> device \<Rightarrow> (int \<times> string option \<times> device) res" where
  "httpd_callback room pages url d =
     rbind (find_page (page_path url) pages) (\<lambda>p.
       case p of
         None \<Rightarrow> Inr (- 1, None, d)
       | Some c \<Rightarrow> rbind (run_page c room url d) (\<lambda>(text, d').
                     Inr (0, Some (http_header @ text), d')))"

definition httpd_init :: httpd_pages where
  "httpd_init =
     snd (httpd_add_page ''/status'' Status (snd (httpd_add_page ''/switch'' Switch
       (snd (httpd_add_page ''/styles.css'' Styles no_pages)))))"

end
