(* ===== verification/Httpd_Props.thy ===== *)
theory Httpd_Props
  imports Httpd
begin

text \<open>
  What the web server promises: the first page registered under a path answers, the table
  holds ten, a switch request sets the six plugs it names, and both JSON pages write one byte
  more than they allocate.
\<close>

section \<open>The table\<close>

definition pages_of :: "(string \<times> page) list \<Rightarrow> httpd_pages" where
  "pages_of ps = fold (\<lambda>(u, c) t. snd (httpd_add_page u c t)) ps no_pages"

definition table :: "(string \<times> page) list \<Rightarrow> nat \<Rightarrow> httpd_pages" where
  "table ps k = map Some ps @ replicate k None"

lemma free_page_table: "free_page (table ps k) = (if k = 0 then None else Some (length ps))"
  unfolding table_def by (induction ps) (cases k; simp)+

lemma find_page_table:
  "find_page path (table ps k) =
     (case map_of ps path of
        Some c \<Rightarrow> Inr (Some c)
      | None \<Rightarrow> if k = 0 then Inl OutOfBounds else Inr None)"
  unfolding table_def by (induction ps) (cases k; auto)+

lemma add_page_table:
  "httpd_add_page u c (table ps k) =
     (if k = 0 then (- 1, table ps k) else (0, table (ps @ [(u, c)]) (k - 1)))"
proof (cases k)
  case (Suc j)
  then have "(table ps k)[length ps := Some (u, c)] = table (ps @ [(u, c)]) j"
    by (simp add: table_def list_update_append)
  then show ?thesis using Suc by (simp add: httpd_add_page_def free_page_table)
qed (simp add: httpd_add_page_def free_page_table)

lemma fold_add_table:
  "fold (\<lambda>(u, c) t. snd (httpd_add_page u c t)) ps (table qs k) =
   table (qs @ take k ps) (k - length ps)"
proof (induction ps arbitrary: qs k)
  case (Cons p ps)
  then show ?case by (cases p; cases k) (simp_all add: add_page_table)
qed simp

lemma pages_of_table: "pages_of ps = table (take 10 ps) (10 - length ps)"
proof -
  have "no_pages = table [] 10" by (simp add: no_pages_def HTTPD_MAX_PAGES_def table_def)
  then show ?thesis using fold_add_table [of ps "[]" 10] by (simp add: pages_of_def)
qed

definition page_at :: "string \<Rightarrow> httpd_pages \<Rightarrow> page option" where
  "page_at path t = (case find_page path t of Inl _ \<Rightarrow> None | Inr p \<Rightarrow> p)"

lemma page_at_table: "page_at path (table ps k) = map_of ps path"
  by (simp add: page_at_def find_page_table split: option.split)

interpretation pages: first_wins "\<lambda>u c t. snd (httpd_add_page u c t)" page_at "\<lambda>u c. c" "(=)"
  "\<lambda>t. \<exists>ps k. t = table ps (Suc k)"
proof unfold_locales
  fix t k k' v assume "\<exists>ps k. t = table ps (Suc k)"
  then obtain ps j where "t = table ps (Suc j)" by blast
  then show "page_at k (snd (httpd_add_page k' v t)) =
      (case page_at k t of Some w \<Rightarrow> Some w | None \<Rightarrow> if k' = k then Some v else None)"
    by (simp add: add_page_table page_at_table map_add_def split: option.split)
qed

text \<open>
  C20. The dispatcher: of the pages that were registered, the first one whose path is the URL up
  to the question mark answers, behind the header; if there is none the answer is -1 and the
  device is as before.  Only the first ten registrations count, and with ten of them an
  unknown path runs off the table.
\<close>

theorem httpd_dispatch:
  "httpd_callback room (pages_of ps) url d =
     (case map_of (take 10 ps) (page_path url) of
        Some c \<Rightarrow> rmap (\<lambda>(text, d'). (0, Some (http_header @ text), d')) (run_page c room url d)
      | None \<Rightarrow> if 10 \<le> length ps then Inl OutOfBounds else Inr (- 1, None, d))"
  by (auto simp: httpd_callback_def pages_of_table find_page_table rmap_def
      split: option.split intro!: arg_cong2 [where f = rbind])

lemma httpd_init_pages:
  "httpd_init = pages_of [(''/styles.css'', Styles), (''/switch'', Switch), (''/status'', Status)]"
  by (simp add: httpd_init_def pages_of_def)

section \<open>Switching\<close>

definition bit_text :: "bool \<Rightarrow> string" where
  "bit_text b = (if b then ''1'' else ''0'')"

text \<open>The request the documentation of the page shows, for six bits.\<close>

definition switch_url :: "bool list \<Rightarrow> string" where
  "switch_url bs =
     fmt_args ''/switch?slot0=%s&slot1=%s&slot2=%s&slot3=%s&slot4=%s&slot5=%s'' (map bit_text bs)"

definition switch_text :: "bool list \<Rightarrow> string" where
  "switch_text bs = fmt_args switch_format (map bit_text bs)"

definition switch_tree :: "bool list \<Rightarrow> cjson" where
  "switch_tree bs =
     CJ cJSON_Object None 0 0 None
       (map (\<lambda>i. CJ cJSON_Object None 0 0 (Some (plug_str (of_nat i)))
                [CJ cJSON_Number None (of_bool (bs ! i)) (of_bool (bs ! i)) (Some ''on'') []])
          [0..<6])"

lemma six_bits:
  assumes "length bs = 6"
  obtains b0 b1 b2 b3 b4 b5 where "bs = [b0, b1, b2, b3, b4, b5]"
  using assms by (auto simp: numeral_eq_Suc length_Suc_conv)

lemma starts_with_Cons:
  "starts_with (c # p) (d # s) \<longleftrightarrow> c = d \<and> starts_with p s"
  "\<not> starts_with (c # p) []" "starts_with [] s"
  by (auto simp: starts_with_def)

lemma digit_chars:
  "digit_char 0 = CHR ''0''" "digit_char 1 = CHR ''1''" "digit_char 2 = CHR ''2''"
  "digit_char 3 = CHR ''3''" "digit_char 4 = CHR ''4''" "digit_char 5 = CHR ''5''"
  by code_simp+

lemma switch_slots:
  "slot_value (switch_url [b0, b1, b2, b3, b4, b5]) 0 = Some (bit_text b0)"
  "slot_value (switch_url [b0, b1, b2, b3, b4, b5]) 1 = Some (bit_text b1)"
  "slot_value (switch_url [b0, b1, b2, b3, b4, b5]) 2 = Some (bit_text b2)"
  "slot_value (switch_url [b0, b1, b2, b3, b4, b5]) 3 = Some (bit_text b3)"
  "slot_value (switch_url [b0, b1, b2, b3, b4, b5]) 4 = Some (bit_text b4)"
  "slot_value (switch_url [b0, b1, b2, b3, b4, b5]) 5 = Some (bit_text b5)"
  unfolding slot_value_def switch_url_def digit_chars
  by (simp_all add: starts_with_Cons bit_text_def)

lemma switch_args:
  assumes "length bs = 6"
  shows "httpd_arg_find (switch_url bs) (replicate 6 None) = (0, map (\<lambda>b. Some (bit_text b)) bs)"
proof -
  obtain b0 b1 b2 b3 b4 b5 where bs: "bs = [b0, b1, b2, b3, b4, b5]" by (rule six_bits [OF assms])
  have "CHR ''?'' \<in> set (switch_url bs)" by (simp add: switch_url_def bs)
  then show ?thesis using switch_slots [of b0 b1 b2 b3 b4 b5]
    by (simp add: httpd_arg_find_def bs numeral_eq_Suc)
qed

lemma switch_path: "length bs = 6 \<Longrightarrow> page_path (switch_url bs) = ''/switch''"
  by (erule six_bits) (simp add: page_path_def switch_url_def)

lemma switch_length: "length bs = 6 \<Longrightarrow> length (switch_text bs) = length switch_sample"
  by (erule six_bits)
     (simp add: switch_text_def switch_format_def switch_sample_def dquoted_def bit_text_def)

lemma plug_str_lower:
  assumes "i < 6"
  shows "NUL \<notin> set (plug_str (of_nat i))"
    and "map tolower (plug_str (of_nat i)) = ''plug_'' @ [digit_char i]"
proof -
  have "list_all (\<lambda>i. NUL \<notin> set (plug_str (of_nat i)) \<and>
      map tolower (plug_str (of_nat i)) = ''plug_'' @ [digit_char i]) [0..<6]"
    by code_simp
  then show "NUL \<notin> set (plug_str (of_nat i))"
    and "map tolower (plug_str (of_nat i)) = ''plug_'' @ [digit_char i]"
    using assms by (simp_all add: list_all_iff)
qed

lemma plug_str_facts:
  assumes "i < 6" "j < 6"
  shows "NUL \<notin> set (plug_str (of_nat i))"
    and "strcasecmp_loop (plug_str (of_nat j)) (plug_str (of_nat i)) = 0 \<longleftrightarrow> j = i"
proof -
  have "digit_val (digit_char i) = i" "digit_val (digit_char j) = j" using assms by simp_all
  then have "digit_char j = digit_char i \<longleftrightarrow> j = i" by metis
  then show "strcasecmp_loop (plug_str (of_nat j)) (plug_str (of_nat i)) = 0 \<longleftrightarrow> j = i"
    using assms by (simp add: strcasecmp_loop_0_iff plug_str_lower)
qed (rule plug_str_lower(1) [OF assms(1)])

lemma switch_canonical: "canonical (switch_tree bs)"
  by (auto simp: switch_tree_def cJSON_types name_ok_def INT_MIN_def INT_MAX_def plug_str_facts)

lemma member_text:
  "object_text (Suc (Suc 0)) False [(string_text ''on'', render_number (of_bool b) (of_bool b))] =
   dquoted ''{!on!:'' @ bit_text b @ ''}''"
proof -
  have "object_text (Suc (Suc 0)) False [(string_text ''on'', render_number 1 1)] = dquoted ''{!on!:1}''"
    "object_text (Suc (Suc 0)) False [(string_text ''on'', render_number 0 0)] = dquoted ''{!on!:0}''"
    by code_simp+
  then show ?thesis by (cases b) (simp_all add: bit_text_def dquoted_def)
qed

lemma plug_names:
  "map (\<lambda>i. string_text (plug_str (of_nat i))) [0..<6] =
   map dquoted [''!plug_0!'', ''!plug_1!'', ''!plug_2!'', ''!plug_3!'', ''!plug_4!'', ''!plug_5!'']"
  by code_simp

lemma switch_render:
  assumes "length bs = 6" shows "switch_text bs = render 0 False (switch_tree bs)"
proof -
  let ?v = "\<lambda>i. dquoted ''{!on!:'' @ bit_text (bs ! i) @ ''}''"
  obtain b0 b1 b2 b3 b4 b5 where bs: "bs = [b0, b1, b2, b3, b4, b5]"
    using assms by (auto simp: numeral_eq_Suc length_Suc_conv)
  have "render 0 False (switch_tree bs) =
     object_text 1 False (map (\<lambda>i. (string_text (plug_str (of_nat i)), ?v i)) [0..<6])"
    unfolding switch_tree_def
    by (simp add: render_simps(4,7) o_def member_text del: render.simps)
  also have "map (\<lambda>i. (string_text (plug_str (of_nat i)), ?v i)) [0..<6] =
     zip (map (\<lambda>i. string_text (plug_str (of_nat i))) [0..<6]) (map ?v [0..<6])"
    by (simp add: zip_map_map zip_same_conv_map o_def del: upt_rec_numeral)
  also have "object_text 1 False \<dots> = switch_text bs"
    unfolding plug_names
    by (simp add: bs upt_rec switch_text_def switch_format_def dquoted_def object_text_def)
  finally show ?thesis by simp
qed

lemma switch_parse:
  assumes "length bs = 6"
  shows "cJSON_Parse Unlimited (switch_text bs) = Inr (Some (switch_tree bs))"
proof -
  have "cstring (switch_tree bs) = None" by (simp add: switch_tree_def)
  from parse_render [OF switch_canonical this, of False]
  show ?thesis using switch_render [OF assms] by (simp add: cJSON_Parse_def)
qed

text \<open>The member of a plug, and what the interpreter reads from it.\<close>

lemma switch_member:
  assumes "i < 6"
  shows "cJSON_GetObjectItem (switch_tree bs) (plug_str (of_nat i)) =
    Some (CJ cJSON_Object None 0 0 (Some (plug_str (of_nat i)))
            [CJ cJSON_Number None (of_bool (bs ! i)) (of_bool (bs ! i)) (Some ''on'') []])"
proof -
  have "find (key_matches (plug_str (of_nat i))) (map f js) = Some (f i)"
    if "i \<in> set js" "set js \<subseteq> {..<6}" "\<And>j. cstring (f j) = Some (plug_str (of_nat j))" for f js
    using that assms
    by (induction js) (auto simp: key_matches_def cJSON_strcasecmp_def plug_str_facts)
  note f = this [of "[0..<6]" "\<lambda>i. CJ cJSON_Object None 0 0 (Some (plug_str (of_nat i)))
      [CJ cJSON_Number None (of_bool (bs ! i)) (of_bool (bs ! i)) (Some ''on'') []]"]
  have "set [0..<6] \<subseteq> {..<6}" by auto
  then show ?thesis using f assms by (simp add: cJSON_GetObjectItem_def switch_tree_def)
qed

lemma on_member:
  "cJSON_GetObjectItem (CJ k None 0 0 nm [CJ cJSON_Number None i v (Some ''on'') []]) ''on'' =
     Some (CJ cJSON_Number None i v (Some ''on'') [])"
  "cJSON_GetObjectItem (CJ k None 0 0 nm [CJ cJSON_Number None i v (Some ''on'') []]) ''setting'' = None"
proof -
  have "strcasecmp_loop ''on'' ''on'' = 0" "strcasecmp_loop ''on'' ''setting'' \<noteq> 0" by code_simp+
  then show "cJSON_GetObjectItem (CJ k None 0 0 nm [CJ cJSON_Number None i v (Some ''on'') []]) ''on'' =
     Some (CJ cJSON_Number None i v (Some ''on'') [])"
    "cJSON_GetObjectItem (CJ k None 0 0 nm [CJ cJSON_Number None i v (Some ''on'') []]) ''setting'' = None"
    by (simp_all add: cJSON_GetObjectItem_def key_matches_def cJSON_strcasecmp_def)
qed

lemma switch_wanted: "i < 6 \<Longrightarrow> wanted_on (switch_tree bs) i = Some (of_bool (bs ! i))"
  by (simp add: wanted_on_def switch_member on_member cJSON_IsNumber_def is_kind_def ckind_def
      int_to_u8_def) (simp add: cJSON_Number_def)

text \<open>A plug whose member has no settings is analysed without a fault.\<close>

lemma analysis_returns:
  assumes "globals_ok d" "i < PLUG_NUM" "cJSON_GetObjectItem r (plug_str (of_nat i)) = Some p"
    and "cJSON_GetObjectItem p ''setting'' = None"
  shows "\<exists>b j d'. json_plug_analysis f (of_nat i) (Some r) (Some s) d = Inr (b, Some j, d') \<and> globals_ok d'"
proof -
  obtain b d1 where s: "plug_on_step (of_nat i) p d = (b, d1)" by fastforce
  then have g: "globals_ok d1" using assms(1)
    by (auto simp: plug_on_step_def Let_def user_relay_set_ok split: if_splits)
  then have "get_plug (of_nat i) d1 = Inr (plug (u_config d1) ! i)"
    using assms(2) by (simp add: get_plug_def globals_okD)
  moreover obtain j1 where
    "cJSON_AddNumberToObject cJSON_CreateObject ''on'' (u8_to_int (p_on (plug (u_config d1) ! i))) = Inr j1"
    using AddNumber_u8 by blast
  ultimately show ?thesis using s g assms(3,4) by (simp add: json_plug_analysis_def plug_request_def)
qed

lemma plugs_loop_returns:
  assumes "globals_ok d" "set ks \<subseteq> {..<PLUG_NUM}"
    and "\<And>i. i < PLUG_NUM \<Longrightarrow> \<exists>p. cJSON_GetObjectItem r (plug_str (of_nat i)) = Some p
           \<and> cJSON_GetObjectItem p ''setting'' = None"
  shows "\<exists>b j d'. foldM (\<lambda>i (flag, json, d). rmap (\<lambda>(b, json', d'). (flag \<or> b, json', d'))
      (json_plug_analysis f (of_nat i) (Some r) json d)) ks (flag, Some s, d) = Inr (b, j, d')"
  using assms(1,2)
proof (induction ks arbitrary: flag s d)
  case (Cons i ks)
  then have i: "i < PLUG_NUM" by simp
  obtain p where "cJSON_GetObjectItem r (plug_str (of_nat i)) = Some p"
    "cJSON_GetObjectItem p ''setting'' = None" using assms(3) [OF i] by blast
  from analysis_returns [OF Cons.prems(1) i this] obtain b1 j1 d1 where
    "json_plug_analysis f (of_nat i) (Some r) (Some s) d = Inr (b1, Some j1, d1)" "globals_ok d1"
    by blast
  then show ?case using Cons.IH [of d1 "flag \<or> b1" j1] Cons.prems(2) by simp
qed simp

lemma switch_returns:
  assumes "globals_ok d"
  shows "\<exists>b j d'. plugs_analysis f (Some (switch_tree bs)) (Some s) d = Inr (b, j, d')"
  unfolding plugs_analysis_def
  by (rule plugs_loop_returns [OF assms]) (auto simp: switch_member on_member PLUG_NUM_def)

text \<open>
  C7. The switch page does what its URL says.  For a request for six bits the page builds a
  command that the interpreter accepts and that sets plug \<open>k\<close> to bit \<open>k\<close> of the URL and keeps
  the device healthy.  Whatever the allocator is, the request then either runs this command and
  answers with it, if the block \<open>malloc\<close> gave for the answer has room for its terminating NUL,
  or writes the NUL behind the block: the code asks for the length of the answer without it.
\<close>

theorem switch_page_sets_plugs:
  assumes "healthy d" "length bs = 6"
  shows "\<exists>r flag answer d'.
       cJSON_Parse Unlimited (switch_text bs) = Inr (Some r)
     \<and> plugs_analysis 1 (Some r) (Some cJSON_CreateObject) d = Inr (flag, answer, d')
     \<and> (\<forall>k < PLUG_NUM. plug_on d' k = of_bool (bs ! k)) \<and> healthy d'
     \<and> httpd_callback room httpd_init (switch_url bs) d =
         (if length switch_sample < room (length switch_sample)
          then Inr (0, Some (http_header @ switch_text bs), d') else Inl BufferOverflow)"
proof -
  have g: "globals_ok d" using assms(1) by (simp add: healthy_def)
  obtain b j d' where r: "plugs_analysis 1 (Some (switch_tree bs)) (Some cJSON_CreateObject) d = Inr (b, j, d')"
    using switch_returns [OF g] by blast
  have "switch_cbk room (switch_url bs) d =
      (if length switch_sample < room (length switch_sample) then Inr (switch_text bs, d') else Inl BufferOverflow)"
    using assms(2) switch_length switch_parse r
    by (simp add: switch_cbk_def switch_args malloc_text_def o_def switch_text_def [symmetric])
  then have "httpd_callback room httpd_init (switch_url bs) d =
      (if length switch_sample < room (length switch_sample)
       then Inr (0, Some (http_header @ switch_text bs), d') else Inl BufferOverflow)"
    by (simp add: httpd_init_pages httpd_callback_def pages_of_table find_page_table
        switch_path [OF assms(2)])
  moreover have "plug_on d' k = of_bool (bs ! k)" if "k < PLUG_NUM" for k
    using plugs_analysis_on [OF r g that] switch_wanted [of k bs] that by (simp add: PLUG_NUM_def)
  moreover have "healthy d'" using health.plugs [OF r assms(1)] .
  ultimately show ?thesis using switch_parse [OF assms(2)] r by blast
qed

theorem switch_page_sets_plugs_witness:
  "\<exists>d'. httpd_callback (\<lambda>n. n + 8) httpd_init (switch_url [True, False, True, True, False, True])
          (zero_device (\<lambda>_. 0) (\<lambda>_. None)) =
        Inr (0, Some (http_header @ switch_text [True, False, True, True, False, True]), d')
      \<and> plug_on d' 3 = 1"
proof -
  from switch_page_sets_plugs [OF healthy_zero, of "[True, False, True, True, False, True]" "\<lambda>_. 0" "\<lambda>_. None" "\<lambda>n. n + 8"]
  obtain d' where d': "httpd_callback (\<lambda>n. n + 8) httpd_init (switch_url [True, False, True, True, False, True])
          (zero_device (\<lambda>_. 0) (\<lambda>_. None)) =
        Inr (0, Some (http_header @ switch_text [True, False, True, True, False, True]), d')"
    and p: "\<forall>k < PLUG_NUM. plug_on d' k = of_bool ([True, False, True, True, False, True] ! k)" by auto
  from p have "plug_on d' 3 = 1" by (simp add: PLUG_NUM_def)
  with d' show ?thesis by blast
qed

lemma status_length: "length status_sample + length (power_text (g_power d)) \<le> length (status_text d)"
proof -
  have "length (status_text d) = length status_sample - 6 + length (power_text (g_power d))
      + sum_list (map (\<lambda>i. length (dec_nat (unat (plug_on d i)))) [0..<6])"
    by (simp add: status_text_def status_format_def status_sample_def dquoted_def PLUG_NUM_def upt_rec)
  moreover have "6 \<le> sum_list (map (\<lambda>i. length (dec_nat (unat (plug_on d i)))) [0..<6])"
    using sum_list_mono [of "[0..<6]" "\<lambda>_. 1" "\<lambda>i. length (dec_nat (unat (plug_on d i)))"]
    by (simp add: Suc_le_eq sum_list_triv)
  moreover have "6 \<le> length status_sample" by (simp add: status_sample_def dquoted_def)
  ultimately show ?thesis by linarith
qed

text \<open>
  C39. Both JSON pages write behind their block: with an allocator that gives exactly the bytes
  it was asked for, every switch request for six bits and every status request overflows.
\<close>

theorem pages_overflow:
  assumes "length bs = 6" "\<And>n. room n = n"
  shows "httpd_callback room httpd_init (switch_url bs) d = Inl BufferOverflow
       \<and> httpd_callback room httpd_init ''/status'' d = Inl BufferOverflow"
proof -
  have "switch_cbk room (switch_url bs) d = Inl BufferOverflow"
    using assms(1,2) switch_length [of bs]
    by (simp add: switch_cbk_def switch_args malloc_text_def o_def switch_text_def [symmetric])
  moreover have "status_cbk room ''/status'' d = Inl BufferOverflow"
    using status_length [of d] by (simp add: status_cbk_def malloc_text_def assms(2))
  moreover have "page_path ''/status'' = ''/status''" by (simp add: page_path_def)
  ultimately show ?thesis
    by (simp add: httpd_init_pages httpd_callback_def pages_of_table find_page_table
        switch_path [OF assms(1)])
qed

theorem pages_overflow_witness:
  "httpd_callback (\<lambda>n. n) httpd_init (switch_url [True, True, True, True, True, True])
     (zero_device (\<lambda>_. 0) (\<lambda>_. None)) = Inl BufferOverflow"
  using pages_overflow [of "[True, True, True, True, True, True]" "\<lambda>n. n"] by simp

text \<open>
  The status page: if every block has one byte to spare and no plug has a value of two
  digits, the answer is the record of the six plugs and the power in tenths, and nothing
  changes.
\<close>

theorem status_page:
  assumes "\<And>n. n < room n" "\<forall>i < PLUG_NUM. plug_on d i < 10"
  shows "httpd_callback room httpd_init ''/status'' d =
           Inr (0, Some (http_header @ status_text d), d)"
proof -
  have p: "length (power_text w) < 16" for w
  proof -
    have "unat (w div 10) < 10 ^ 9" using unsigned_less [of w, where ?'a = nat]
      by (simp add: unat_div)
    then have "length (dec_nat (unat (w div 10))) \<le> 9" by (rule length_dec_nat_le) simp
    moreover have "unat (w mod 10) < 10 ^ 1" by (simp add: unat_mod)
    then have "length (dec_nat (unat (w mod 10))) \<le> 1" by (rule length_dec_nat_le) simp
    ultimately show ?thesis by (simp add: power_text_def)
  qed
  have "length (dec_nat (unat (plug_on d i))) = 1" if "i < 6" for i
  proof -
    have "unat (plug_on d i) < 10" using assms(2) that by (simp add: PLUG_NUM_def word_less_nat_alt)
    then show ?thesis by (simp add: dec_nat_small)
  qed
  then have "length (status_text d) = length status_sample + length (power_text (g_power d))"
    by (simp add: status_text_def status_format_def status_sample_def dquoted_def PLUG_NUM_def upt_rec)
  then have "status_cbk room ''/status'' d = Inr (status_text d, d)"
    using assms(1) [of 16] p [of "g_power d"]
      assms(1) [of "length status_sample + length (power_text (g_power d))"]
    by (simp add: status_cbk_def malloc_text_def)
  moreover have "page_path ''/status'' = ''/status''" by (simp add: page_path_def)
  ultimately show ?thesis
    by (simp add: httpd_init_pages httpd_callback_def pages_of_table find_page_table)
qed

theorem status_page_witness:
  "httpd_callback (\<lambda>n. n + 8) httpd_init ''/status'' (zero_device (\<lambda>_. 0) (\<lambda>_. None)) =
     Inr (0, Some (http_header @ status_text (zero_device (\<lambda>_. 0) (\<lambda>_. None))),
          zero_device (\<lambda>_. 0) (\<lambda>_. None))"
  by (rule status_page) (simp_all add: plug_on_def zero_device_def zero_config_def zero_plug_def)

section \<open>Decoding\<close>

text \<open>Every byte written as a percent sign and two hexadecimal digits.\<close>

definition url_encode :: "string \<Rightarrow> string" where
  "url_encode s = concat (map (\<lambda>c. [CHR ''%'', hex_digit (code c div 16), hex_digit (code c mod 16)]) s)"

lemma code_hex_digit: "n < 16 \<Longrightarrow> code (hex_digit n) = (if n < 10 then 48 + n else 87 + n)"
  by (simp add: hex_digit_def)

lemma hex_digit_facts:
  assumes "n < 16"
  shows "is_hex (hex_digit n)" "hex_value (hex_digit n) = int n" "\<not> is_space (hex_digit n)"
    "hex_digit n \<noteq> CHR ''-''" "hex_digit n \<noteq> CHR ''+''" "hex_digit n \<noteq> NUL"
proof -
  note c = code_hex_digit [OF assms]
  have l: "tolower (hex_digit n) = hex_digit n" using assms by (simp add: tolower_def c)
  show "is_hex (hex_digit n)" "hex_value (hex_digit n) = int n" "\<not> is_space (hex_digit n)"
    using assms by (auto simp: is_hex_def hex_value_def is_space_def is_digit_def digit_val_def l c)
  have "code (hex_digit n) \<noteq> code (CHR ''-'')" "code (hex_digit n) \<noteq> code (CHR ''+'')"
    "code (hex_digit n) \<noteq> code NUL" using assms by (simp_all add: c)
  then show "hex_digit n \<noteq> CHR ''-''" "hex_digit n \<noteq> CHR ''+''" "hex_digit n \<noteq> NUL" by auto
qed

lemma strtol16_byte:
  assumes "n < 256"
  shows "strtol16 (cstr [hex_digit (n div 16), hex_digit (n mod 16)]) = int n"
proof -
  have b: "n div 16 < 16" "n mod 16 < 16" using assms by (simp_all add: less_mult_imp_div_less)
  have "cstr [hex_digit (n div 16), hex_digit (n mod 16)] = [hex_digit (n div 16), hex_digit (n mod 16)]"
    using hex_digit_facts(6) [OF b(1)] hex_digit_facts(6) [OF b(2)] by (intro cstr_id) auto
  moreover have "16 * int (n div 16) + int (n mod 16) = int n"
    using mult_div_mod_eq [of 16 n] by linarith
  ultimately show ?thesis
    by (simp only: strtol16_def)
       (simp add: hex_digit_facts [OF b(1)] hex_digit_facts [OF b(2)] hex_digits_def hex_prefix_def)
qed

text \<open>
  \<open>convert_ascii\<close> undoes percent encoding byte by byte, and a percent sign as the last
  character of a text makes it read behind the end.
\<close>

theorem convert_decodes:
  "convert_ascii (url_encode s @ [NUL]) = Inr s \<and> convert_ascii ([CHR ''%'', NUL]) = Inl OutOfBounds"
proof -
  have d: "u8_char (int_to_u8 (strtol16 (cstr [hex_digit (code c div 16), hex_digit (code c mod 16)]))) = c" for c
    using u8_char_u8 [of c] by (simp add: strtol16_byte int_to_u8_def char_u8_def)
  have "convert_ascii (url_encode s @ [NUL]) = Inr s"
    by (induction s) (simp_all add: url_encode_def d)
  then show ?thesis by simp
qed

end
