(* ===== verification/Clock.thy ===== *)
theory Clock
  imports Function_Props
begin

text \<open>
  The clock of \<open>src/user_rtc.c\<close>: seconds since 1970 in \<open>rtctimes\<close>, advanced by a timer every
  second and set from the network time, and the broken-down local time (eight hours ahead).

  \<open>gmtime\<close> returns a pointer to one static object, so \<open>t_t\<close> of the task thread and
  \<open>user_time_t\<close> of the timer point at the same \<open>struct tm\<close>, here \<open>tm_obj\<close>; every call
  overwrites it.  \<open>int\<close> arithmetic that leaves the range is the fault \<open>SignedOverflow\<close>.
\<close>

definition int_add :: "int \<Rightarrow> int \<Rightarrow> int res" where
  "int_add a b =
     (if INT_MIN \<le> a + b \<and> a + b \<le> INT_MAX then Inr (a + b) else Inl SignedOverflow)"

text \<open>The C library function, on the fields that are read.  1970 began on a Thursday.\<close>

definition gmtime :: "int \<Rightarrow> tm" where
  "gmtime t = \<lparr>tm_sec = t mod 60, tm_min = t div 60 mod 60, tm_hour = t div 3600 mod 24,
               tm_wday = (t div 86400 + 4) mod 7\<rparr>"

definition TIME_ZONE :: int where "TIME_ZONE = 8 * 3600"

definition rtctime_timeout_handler :: "device \<Rightarrow> device res" where
  "rtctime_timeout_handler d =
     rbind (int_add (rtctimes d) 1) (\<lambda>n.
     rbind (int_add n TIME_ZONE) (\<lambda>t.
       Inr (d\<lparr>rtctimes := n, tm_obj := gmtime t\<rparr>)))"

text \<open>\<open>time_mm\<close> is what \<open>hfntp_get_time\<close> returned.\<close>

definition update_rtctime :: "int \<Rightarrow> device \<Rightarrow> bool \<times> device" where
  "update_rtctime time_mm d =
     (if time_mm < 0 then (False, d) else (True, d\<lparr>rtctimes := time_mm\<rparr>))"

definition printtime :: "device \<Rightarrow> device res" where
  "printtime d = rbind (int_add (rtctimes d) TIME_ZONE) (\<lambda>t. Inr (d\<lparr>tm_obj := gmtime t\<rparr>))"

section \<open>The calendar\<close>

definition tm_ok :: "tm \<Rightarrow> bool" where
  "tm_ok m \<longleftrightarrow> 0 \<le> tm_sec m \<and> tm_sec m < 60 \<and> 0 \<le> tm_min m \<and> tm_min m < 60
     \<and> 0 \<le> tm_hour m \<and> tm_hour m < 24 \<and> 0 \<le> tm_wday m \<and> tm_wday m < 7"

lemma gmtime_ok: "tm_ok (gmtime t)"
  by (simp add: tm_ok_def gmtime_def)

text \<open>Seconds since the last Sunday midnight, and back.\<close>

definition week_second :: "tm \<Rightarrow> int" where
  "week_second m = ((tm_wday m * 24 + tm_hour m) * 60 + tm_min m) * 60 + tm_sec m"

lemma week_second_gmtime: "week_second (gmtime t) = (t + 4 * 86400) mod (86400 * 7)"
proof -
  let ?s = "t + 4 * 86400"
  have d: "?s div 86400 = t div 86400 + 4" and m: "?s mod 86400 = t mod 86400"
    using mod_mult_self1 [of t 4 86400] by simp_all
  have h: "t mod 86400 = 3600 * (t div 3600 mod 24) + t mod 3600"
    using zmod_zmult2_eq [of 24 t 3600] by simp
  have n: "t mod 3600 = 60 * (t div 60 mod 60) + t mod 60"
    using zmod_zmult2_eq [of 60 t 60] by simp
  have "week_second (gmtime t) = 86400 * ((t div 86400 + 4) mod 7)
      + (3600 * (t div 3600 mod 24) + (60 * (t div 60 mod 60) + t mod 60))"
    by (simp only: week_second_def gmtime_def tm.simps)
       (simp only: distrib_right mult.assoc mult.commute mult.left_commute; simp)
  also have "\<dots> = 86400 * (?s div 86400 mod 7) + ?s mod 86400"
    by (simp only: d m h n)
  also have "\<dots> = ?s mod (86400 * 7)"
    by (rule zmod_zmult2_eq [symmetric]) simp
  finally show ?thesis .
qed

section \<open>Ticks\<close>

primrec ticks :: "nat \<Rightarrow> device \<Rightarrow> device res" where
  "ticks 0 d = Inr d"
| "ticks (Suc n) d = rbind (rtctime_timeout_handler d) (ticks n)"

text \<open>The device with its clock at \<open>t\<close>.\<close>

definition clock_at :: "int \<Rightarrow> device \<Rightarrow> device" where
  "clock_at t d = d\<lparr>rtctimes := t, tm_obj := gmtime (t + TIME_ZONE)\<rparr>"

lemma clock_at_simps [simp]:
  "rtctimes (clock_at t d) = t" "tm_obj (clock_at t d) = gmtime (t + TIME_ZONE)"
  "u_config (clock_at t d) = u_config d" "io (clock_at t d) = io d"
  "clock_at t (clock_at s d) = clock_at t d"
  by (simp_all add: clock_at_def)

lemma tick_in_range:
  assumes "0 \<le> rtctimes d" "rtctimes d + 1 + TIME_ZONE \<le> INT_MAX"
  shows "rtctime_timeout_handler d = Inr (clock_at (rtctimes d + 1) d)"
  using assms
  by (simp add: rtctime_timeout_handler_def int_add_def clock_at_def TIME_ZONE_def INT_MIN_def
      INT_MAX_def)

lemma ticks_in_range:
  "\<lbrakk>0 \<le> rtctimes d; rtctimes d + int (Suc n) + TIME_ZONE \<le> INT_MAX\<rbrakk> \<Longrightarrow>
   ticks (Suc n) d = Inr (clock_at (rtctimes d + int (Suc n)) d)"
proof (induction n arbitrary: d)
  case 0
  then show ?case by (simp add: tick_in_range)
next
  case (Suc n)
  have t: "rtctime_timeout_handler d = Inr (clock_at (rtctimes d + 1) d)"
    using Suc.prems by (intro tick_in_range) simp_all
  have "ticks (Suc n) (clock_at (rtctimes d + 1) d) =
      Inr (clock_at (rtctimes d + 1 + int (Suc n)) (clock_at (rtctimes d + 1) d))"
    using Suc.IH [of "clock_at (rtctimes d + 1) d"] Suc.prems by simp
  moreover have "rtctimes d + 1 + int (Suc n) = rtctimes d + int (Suc (Suc n))" by simp
  ultimately show ?case
    by (subst ticks.simps(2)) (simp only: t rbind_Inr clock_at_simps)
qed

section \<open>Properties\<close>

text \<open>
  C34. The clock keeps time: after \<open>n\<close> timer ticks the counter has advanced by \<open>n\<close>, and the
  broken-down time is the local time of the counter, with every field in its range and the
  second of the week advanced by \<open>n\<close>.
\<close>

theorem clock_keeps_time:
  assumes "0 \<le> rtctimes d" "rtctimes d + int n + 28800 \<le> INT_MAX" "0 < n"
  shows "\<exists>d'. ticks n d = Inr d' \<and> rtctimes d' = rtctimes d + int n \<and> tm_ok (tm_obj d')
    \<and> week_second (tm_obj d') = (week_second (gmtime (rtctimes d + 28800)) + int n) mod 604800
    \<and> u_config d' = u_config d \<and> io d' = io d"
proof -
  obtain k where n: "n = Suc k" using assms(3) by (cases n) auto
  have w: "week_second (gmtime (rtctimes d + int n + 28800)) =
      (week_second (gmtime (rtctimes d + 28800)) + int n) mod 604800"
  proof -
    have "rtctimes d + int n + 28800 + 4 * 86400 = rtctimes d + 28800 + 4 * 86400 + int n" by simp
    then show ?thesis by (simp only: week_second_gmtime) (simp add: mod_add_left_eq)
  qed
  have "ticks n d = Inr (clock_at (rtctimes d + int n) d)"
    unfolding n by (rule ticks_in_range) (use assms n in \<open>simp_all add: TIME_ZONE_def\<close>)
  with w show ?thesis
    by (intro exI [of _ "clock_at (rtctimes d + int n) d"]) (simp add: TIME_ZONE_def gmtime_ok)
qed

theorem clock_keeps_time_witness:
  "\<exists>d'. ticks 3600 (ex_device\<lparr>rtctimes := 1546272000\<rparr>) = Inr d' \<and> rtctimes d' = 1546275600"
  using clock_keeps_time [of "ex_device\<lparr>rtctimes := 1546272000\<rparr>" 3600] by (auto simp: INT_MAX_def)

text \<open>
  The clock stops in 2038: once local time would pass the largest \<open>int\<close>, eight hours
  before \<open>rtctimes\<close> itself would, the next tick overflows a signed addition.
\<close>

theorem clock_overflows:
  assumes "INT_MAX - 28800 \<le> rtctimes d" "rtctimes d \<le> INT_MAX"
  shows "rtctime_timeout_handler d = Inl SignedOverflow"
  using assms
  by (auto simp: rtctime_timeout_handler_def int_add_def INT_MAX_def INT_MIN_def TIME_ZONE_def)

theorem clock_overflows_witness:
  "rtctime_timeout_handler (ex_device\<lparr>rtctimes := 2147454847\<rparr>) = Inl SignedOverflow"
  by (rule clock_overflows) (simp_all add: INT_MAX_def)

end
