(* ===== verification/Key.thy ===== *)
theory Key
  imports Clock
begin

text \<open>
  The button of \<open>src/user_gpio.c\<close>: the timer handler that counts how long it is held, and the
  edge interrupt that acts when it is released.

  \<open>hfgpio_fpin_is_high(KEY)\<close> is \<open>pins d KEY\<close>; the button pulls the pin low.  The handler reads
  the clock of the system twice (\<open>t1\<close>, \<open>t2\<close>, in milliseconds).
\<close>

definition key_pressed :: "device \<Rightarrow> bool" where
  "key_pressed d \<longleftrightarrow> pins d KEY = 0"

text \<open>\<open>hour = (t/1000)/3600\<close> and \<open>min = (t/1000 - hour*3600)/60\<close> in unsigned arithmetic.\<close>

definition set_clock :: "u32 \<Rightarrow> u32 \<Rightarrow> device \<Rightarrow> device" where
  "set_clock t1 t2 d =
     (let h = (t1 div 1000) div 3600; m = (t2 div 1000 - h * 3600) div 60
      in d\<lparr>g_hour := sint h, g_min := sint m\<rparr>)"

definition report_command :: string where
  "report_command = map (\<lambda>c. if c = CHR ''!'' then CHR 0x22 else c) ''{!cmd!:!device report!}''"

text \<open>What happens when the button has been held for \<open>key_time\<close> periods.\<close>

definition held :: "device \<Rightarrow> device res" where
  "held d =
     (let n = key_time d
      in if n < 10 then Inr (d\<lparr>key_last := key_continue d\<rparr>)
         else if n = 50 then printtime d
         else if n = 100 then Inr d
         else if n = 180
              then rbind (user_function_cmd_received 1 report_command d) (\<lambda>e. Inr (user_led_set 0 e))
         else if n = 190 then Inr (user_led_set 1 d)
         else if n = 203
              then rbind (user_function_cmd_received 1 report_command (user_led_set 0 d)) (\<lambda>e.
                     Inr (emit SmartLinkStart e))
         else Inr d)"

definition key_timeout_handler :: "u32 \<Rightarrow> u32 \<Rightarrow> device \<Rightarrow> device res" where
  "key_timeout_handler t1 t2 d =
     (let d1 = (set_clock t1 t2 d)\<lparr>key_continue := 0xFE OR int_to_u8 (pins d KEY)\<rparr>
      in if key_pressed d1
         then rbind (held (d1\<lparr>key_time := key_time d1 + 1\<rparr>)) (\<lambda>d2.
              Inr (if 204 < key_time d2 then d2\<lparr>key_time := 189\<rparr> else d2))
         else Inr (if \<not> relay_out d1 then user_led_set 0 d1 else d1))"

definition key_rising_irq_handler :: "device \<Rightarrow> device" where
  "key_rising_irq_handler d =
     (let n = key_time d;
          d1 = (if n < 2 then d
                else if n < 20 then (if pins d KEY \<noteq> 0 then key_short_press d else d)
                else d)
      in d1\<lparr>key_time := 0\<rparr>)"

section \<open>The counter\<close>

lemma set_clock_simps [simp]:
  "key_time (set_clock t1 t2 d) = key_time d" "pins (set_clock t1 t2 d) = pins d"
  "io (set_clock t1 t2 d) = io d" "u_config (set_clock t1 t2 d) = u_config d"
  "user_defaultconfig (set_clock t1 t2 d) = user_defaultconfig d"
  "deviceid (set_clock t1 t2 d) = deviceid d" "strMac (set_clock t1 t2 d) = strMac d"
  "strIp (set_clock t1 t2 d) = strIp d" "udp_msgq (set_clock t1 t2 d) = udp_msgq d"
  by (simp_all add: set_clock_def Let_def)

lemma led_simps [simp]:
  "key_time (user_led_set x d) = key_time d" "pins (user_led_set x d) = pins d"
  "io (user_led_set x d) = io d @ [Pin LED (x \<noteq> 0)]"
  by (simp_all add: user_led_set_eq)

lemma printtime_shape: "printtime d = Inr d' \<Longrightarrow> \<exists>m. d' = d\<lparr>tm_obj := m\<rparr>"
  by (auto simp: printtime_def)

text \<open>Commands start no SmartLink, and leave the pins alone.\<close>

definition smartlinks :: "device \<Rightarrow> nat" where
  "smartlinks d = length (filter (\<lambda>e. e = SmartLinkStart) (io d))"

interpretation quiet: command_invariant "\<lambda>d'. smartlinks d' = k \<and> pins d' = ps" for k ps
  by unfold_locales
     (auto simp: smartlinks_def user_relay_set_eq udp_send_Inr map_plug_def
       dest!: apply_setting_shape)

lemma held_shape:
  assumes "held d = Inr d'"
  shows "key_time d' = key_time d \<and> pins d' = pins d
    \<and> smartlinks d' = smartlinks d + (if key_time d = 203 then 1 else 0)"
proof -
  have c: "key_time e' = key_time e \<and> smartlinks e' = smartlinks e \<and> pins e' = pins e"
    if "user_function_cmd_received f s e = Inr e'" for f s e e'
    using kept.cmd_received [OF that, of e] quiet.cmd_received [OF that, of "smartlinks e" "pins e"]
    by (simp add: kept_def)
  show ?thesis using assms unfolding held_def Let_def
    by (auto split: if_splits dest!: printtime_shape c simp: smartlinks_def)
qed

text \<open>The next value of the counter while the button is down.\<close>

definition next_count :: "u8 \<Rightarrow> u8" where
  "next_count n = (if 204 < n + 1 then 189 else n + 1)"

lemma handler_pressed:
  assumes "key_timeout_handler t1 t2 d = Inr d'" "key_pressed d"
  shows "key_time d' = next_count (key_time d) \<and> pins d' = pins d
    \<and> smartlinks d' = smartlinks d + (if key_time d + 1 = 203 then 1 else 0)"
proof -
  let ?d1 = "(set_clock t1 t2 d)\<lparr>key_continue := 0xFE OR int_to_u8 (pins d KEY)\<rparr>"
  have "key_pressed ?d1" using assms(2) by (simp add: key_pressed_def)
  then obtain d2 where 2: "held (?d1\<lparr>key_time := key_time d + 1\<rparr>) = Inr d2"
    and d': "d' = (if 204 < key_time d2 then d2\<lparr>key_time := 189\<rparr> else d2)"
    using assms(1) by (auto simp: key_timeout_handler_def Let_def)
  from held_shape [OF 2] d' show ?thesis by (auto simp: next_count_def smartlinks_def)
qed

text \<open>Holding the button for a run of periods, each with the clock readings of its handler.\<close>

definition hold :: "(u32 \<times> u32) list \<Rightarrow> device \<Rightarrow> device res" where
  "hold ts d = foldM (\<lambda>(t1, t2). key_timeout_handler t1 t2) ts d"

text \<open>The counter after \<open>n\<close> periods: up to 204, then around the last sixteen values.\<close>

definition hold_count :: "nat \<Rightarrow> nat" where
  "hold_count n = (if n < 189 then n else 189 + (n - 189) mod 16)"

lemma hold_count_le: "hold_count n \<le> 204"
proof -
  have "(n - 189) mod 16 \<le> 15" using mod_less_divisor [of 16 "n - 189"] by linarith
  then show ?thesis by (simp add: hold_count_def)
qed

lemma next_count_hold: "next_count (of_nat (hold_count n)) = of_nat (hold_count (Suc n))"
proof -
  have le: "hold_count n \<le> 204" by (rule hold_count_le)
  then have u: "unat (of_nat (hold_count n) + 1 :: u8) = hold_count n + 1"
    by (simp add: unat_word_ariths unat_of_nat)
  have "204 < (of_nat (hold_count n) + 1 :: u8) \<longleftrightarrow> hold_count n = 204"
    using u le by (auto simp: word_less_nat_alt)
  moreover have "hold_count (Suc n) = (if hold_count n = 204 then 189 else hold_count n + 1)"
  proof (cases "n < 189")
    case False
    then have "Suc n - 189 = Suc (n - 189)" by simp
    with False show ?thesis by (auto simp: hold_count_def mod_Suc)
  qed (auto simp: hold_count_def)
  ultimately show ?thesis by (simp add: next_count_def)
qed

definition starts_upto :: "nat \<Rightarrow> nat" where
  "starts_upto n = (if n < 203 then 0 else (n - 203) div 16 + 1)"

lemma starts_upto_Suc: "starts_upto (Suc n) = starts_upto n + (if hold_count (Suc n) = 203 then 1 else 0)"
proof -
  consider "Suc n < 203" | "Suc n = 203" | k where "n = 203 + k"
    by (metis Suc_leI le_Suc_ex linorder_not_less linorder_neqE_nat not_less_eq)
  then show ?thesis
  proof cases
    case 1
    then show ?thesis by (auto simp: starts_upto_def hold_count_def)
  next
    case 2
    then have n: "n = 202" by simp
    show ?thesis by (simp add: n starts_upto_def hold_count_def)
  next
    case 3
    have "(15 + k) mod 16 = 14 \<longleftrightarrow> Suc k mod 16 = 0" by presburger
    moreover have "Suc k div 16 = k div 16 + (if Suc k mod 16 = 0 then 1 else 0)"
      by (simp add: div_Suc)
    ultimately show ?thesis using 3 by (auto simp: starts_upto_def hold_count_def)
  qed
qed

lemma hold_from:
  assumes "foldM (\<lambda>(t1, t2). key_timeout_handler t1 t2) ts d = Inr d'" "key_pressed d"
    "key_time d = of_nat (hold_count n)"
  shows "key_time d' = of_nat (hold_count (n + length ts)) \<and> key_pressed d'
    \<and> smartlinks d' + starts_upto n = smartlinks d + starts_upto (n + length ts)"
  using assms
proof (induction ts arbitrary: d n)
  case (Cons t ts)
  obtain t1 t2 where t: "t = (t1, t2)" by (cases t)
  with Cons.prems(1) obtain e where e: "key_timeout_handler t1 t2 d = Inr e"
    and r: "foldM (\<lambda>(t1, t2). key_timeout_handler t1 t2) ts e = Inr d'" by auto
  from handler_pressed [OF e Cons.prems(2)] Cons.prems(3)
  have k: "key_time e = of_nat (hold_count (Suc n))" and p: "pins e = pins d"
    and s: "smartlinks e = smartlinks d + (if of_nat (hold_count n) + 1 = (203 :: u8) then 1 else 0)"
    by (simp_all add: next_count_hold)
  have "of_nat (hold_count n) + 1 = (203 :: u8) \<longleftrightarrow> hold_count (Suc n) = 203"
  proof -
    have "unat (of_nat (hold_count n) + 1 :: u8) = hold_count n + 1"
      using hold_count_le [of n] by (simp add: unat_word_ariths unat_of_nat)
    moreover have "hold_count (Suc n) = (if hold_count n = 204 then 189 else hold_count n + 1)"
    proof (cases "n < 189")
      case False
      then have "Suc n - 189 = Suc (n - 189)" by simp
      with False show ?thesis by (auto simp: hold_count_def mod_Suc)
    qed (auto simp: hold_count_def)
    ultimately show ?thesis by (auto simp: word_unat_eq_iff)
  qed
  with s have s': "smartlinks e + starts_upto n = smartlinks d + starts_upto (Suc n)"
    by (simp add: starts_upto_Suc)
  have "key_pressed e" using p Cons.prems(2) by (simp add: key_pressed_def)
  from Cons.IH [OF r this k] s' show ?case by simp
qed simp

section \<open>The relays while the button is held\<close>

text \<open>The packet the button sends to the interpreter, as a tree.\<close>

definition command_tree :: cjson where
  "command_tree = CJ cJSON_Object None 0 0 None
     [CJ cJSON_String (Some ''device report'') 0 0 (Some ''cmd'') []]"

lemma parse_command: "cJSON_Parse Unlimited report_command = Inr (Some command_tree)"
  by code_simp

lemma command_texts:
  "text_member command_tree ''name'' = None" "text_member command_tree ''mac'' = None"
  "text_member command_tree ''cmd'' = Some ''device report''"
  by (simp_all add: text_member_def command_tree_def cJSON_Is_defs ckind_def cJSON_types tolower_def cstr_def)

text \<open>Nothing about the relays has changed between two states.\<close>

definition plugs_kept :: "device \<Rightarrow> device \<Rightarrow> bool" where
  "plugs_kept d d' \<longleftrightarrow> globals_ok d' \<and> u_config d' = u_config d \<and> user_defaultconfig d' = user_defaultconfig d
     \<and> (\<forall>i < PLUG_NUM. pin_level (relay ! i) (io d') = pin_level (relay ! i) (io d))"

lemma plugs_kept_led [simp]: "plugs_kept d (user_led_set x e) = plugs_kept d e"
  by (simp add: plugs_kept_def user_led_set_eq relay_not_LED globals_ok_def)

lemma plugs_kept_report:
  assumes "user_function_cmd_received f report_command e = Inr e'" "plugs_kept d e"
  shows "plugs_kept d e'"
proof -
  have "globals_ok e" using assms(2) by (simp add: plugs_kept_def)
  from foreign_command(2) [OF this parse_command _ _ assms(1)] have
    s: "same_state e e'" "\<And>p. pin_level p (io e') = pin_level p (io e)" by (simp_all add: command_texts)
  from s(1) have "globals_ok e' = globals_ok e" "u_config e' = u_config e"
    "user_defaultconfig e' = user_defaultconfig e"
    by (simp_all add: same_state_globals_ok) (simp_all add: same_state_def)
  with assms(2) s(2) show ?thesis by (simp add: plugs_kept_def)
qed

lemma plugs_kept_held: "held e = Inr e' \<Longrightarrow> plugs_kept d e \<Longrightarrow> plugs_kept d e'"
proof -
  have l: "plugs_kept d (e\<lparr>key_last := x\<rparr>) = plugs_kept d e" "plugs_kept d (e\<lparr>tm_obj := m\<rparr>) = plugs_kept d e"
    "plugs_kept d (emit SmartLinkStart e) = plugs_kept d e" for e x m
    by (simp_all add: plugs_kept_def globals_ok_def)
  assume "held e = Inr e'" "plugs_kept d e"
  then show "plugs_kept d e'" unfolding held_def Let_def
    by (auto split: if_splits dest!: printtime_shape dest: plugs_kept_report simp: l)
qed

lemma plugs_kept_handler:
  assumes "key_timeout_handler t1 t2 e = Inr e'" "plugs_kept d e"
  shows "plugs_kept d e'"
proof -
  have l: "plugs_kept d (e\<lparr>key_time := k\<rparr>) = plugs_kept d e" "plugs_kept d (e\<lparr>key_continue := k\<rparr>) = plugs_kept d e"
    "plugs_kept d (set_clock t1 t2 e) = plugs_kept d e" for e k
    by (simp_all add: plugs_kept_def globals_ok_def)
  from assms show ?thesis unfolding key_timeout_handler_def Let_def
    by (auto split: if_splits simp: l dest!: plugs_kept_held [of _ _ d])
qed

lemma plugs_kept_hold: "hold ts d = Inr d' \<Longrightarrow> globals_ok d \<Longrightarrow> plugs_kept d d'"
  unfolding hold_def
  by (rule foldM_invariant [where P = "plugs_kept d"]) (auto simp: plugs_kept_def [of d d] dest: plugs_kept_handler)

lemma plugs_kept_plugs:
  assumes "plugs_kept d d'"
  shows "plug_on d' = plug_on d" "relays_agree d' = relays_agree d"
    "i < PLUG_NUM \<Longrightarrow> driven (relay ! i) d' = driven (relay ! i) d"
  using assms by (simp_all add: plugs_kept_def plug_on_def relays_agree_def driven_def fun_eq_iff)

section \<open>Properties\<close>

text \<open>
  C30. The counter never gets stuck or wraps: while the button is held from 0, it is \<open>n\<close> after
  \<open>n\<close> periods up to 204 and then runs through 189 to 204 again and again, and SmartLink is
  started when it passes 203, so once after 203 periods and again every sixteen.
\<close>

theorem hold_counts:
  assumes "hold ts d = Inr d'" "key_pressed d" "key_time d = 0"
  shows "unat (key_time d') = hold_count (length ts) \<and> unat (key_time d') \<le> 204
    \<and> smartlinks d' = smartlinks d + starts_upto (length ts)"
proof -
  have "key_time d = of_nat (hold_count 0)" using assms(3) by (simp add: hold_count_def)
  from hold_from [OF assms(1) [unfolded hold_def] assms(2) this]
  have "key_time d' = of_nat (hold_count (length ts))"
    and s: "smartlinks d' = smartlinks d + starts_upto (length ts)"
    by (simp_all add: starts_upto_def)
  moreover have "unat (of_nat (hold_count (length ts)) :: u8) = hold_count (length ts)"
    using hold_count_le [of "length ts"] by (simp add: unat_of_nat)
  ultimately show ?thesis using hold_count_le by simp
qed

theorem hold_counts_witness:
  "\<exists>d'. hold (replicate 9 (0, 0)) ex_device = Inr d' \<and> unat (key_time d') = 9"
proof -
  have "case hold (replicate 9 (0, 0)) ex_device of Inl _ \<Rightarrow> False | Inr _ \<Rightarrow> True" by code_simp
  then obtain d' where "hold (replicate 9 (0, 0)) ex_device = Inr d'" by (auto split: sum.splits)
  moreover have "key_pressed ex_device" "key_time ex_device = 0"
    by (simp_all add: key_pressed_def ex_device_def zero_device_def)
  ultimately show ?thesis using hold_counts by (fastforce simp: hold_count_def)
qed



end
