(* ===== verification/Rtc.thy ===== *)
theory Rtc
  imports Clock
begin

text \<open>
  The timer tasks of \<open>rtc_thread_func\<close> in \<open>src/user_rtc.c\<close>: one turn of its endless loop.

  The local variables of the thread that live across turns are a record.  \<open>task_flag\<close> is an
  array of \<open>char\<close>, so its -1 is 255.  \<open>time_mm\<close>, the input of a turn, is what
  \<open>hfntp_get_time\<close> answers if it is asked.
\<close>

section \<open>The loop body\<close>

record rtc =
  task_flag :: "u8 list"
  ntptime_succeed :: bool

text \<open>\<open>{ -1, -1, -1, -1, -1}\<close>: five initialisers for six plugs.\<close>

definition rtc_start :: rtc where
  "rtc_start = \<lparr>task_flag = replicate 5 (int_to_u8 (- 1)) @ [0], ntptime_succeed = False\<rparr>"

text \<open>\<open>t=1546272000; t_t=gmtime(&t)\<close>.\<close>

definition rtc_first_time :: "device \<Rightarrow> device" where
  "rtc_first_time d = d\<lparr>tm_obj := gmtime 1546272000\<rparr>"

definition rtc_sync :: "int \<Rightarrow> rtc \<Rightarrow> device \<Rightarrow> rtc \<times> device" where
  "rtc_sync time_mm r d =
     (if tm_min (tm_obj d) mod 10 = 0
      then if \<not> ntptime_succeed r
           then (let (ok, d') = update_rtctime time_mm d in (r\<lparr>ntptime_succeed := ok\<rparr>, d'))
           else (r, d)
      else (r\<lparr>ntptime_succeed := False\<rparr>, d))"

text \<open>\<open>1 << (t_t->tm_wday - 1)\<close> as a mask for the \<open>repeat\<close> byte.\<close>

definition weekday_bit :: "int \<Rightarrow> u8 res" where
  "weekday_bit wday = (if wday - 1 < 0 then Inl BadShift else Inr (push_bit (nat (wday - 1)) 1))"

definition task_due :: "tm \<Rightarrow> user_plug_task_config_t \<Rightarrow> bool res" where
  "task_due now t =
     (if tm_sec now = 0 \<and> tm_min now = u8_to_int (t_minute t) \<and> tm_hour now = u8_to_int (t_hour t)
      then if t_repeat t = 0 then Inr True
           else rmap (\<lambda>b. t_repeat t AND b \<noteq> 0) (weekday_bit (tm_wday now))
      else Inr False)"

text \<open>The body of the two loops, on the flag \<open>update_user_config_flag\<close>, \<open>task_flag\<close> and the device.\<close>

type_synonym scan = "bool \<times> u8 list \<times> device"

definition task_step :: "nat \<Rightarrow> nat \<Rightarrow> scan \<Rightarrow> scan res" where
  "task_step i j s =
     (case s of (upd, flags, d) \<Rightarrow>
        rbind (get_task (of_nat i) (of_nat j) d) (\<lambda>t.
          if t_on t = 0 then Inr s
          else rbind (task_due (tm_obj d) t) (\<lambda>due.
            if \<not> due then Inr s
            else let (upd1, d1) = (if plug_on d i \<noteq> t_action t
                                   then (True, user_relay_set (of_nat i) (t_action t) d)
                                   else (upd, d))
                 in Inr (if t_repeat t = 0
                         then (True, flags[i := of_nat j],
                               map_plug (of_nat i) (upd_task j (\<lambda>t. t\<lparr>t_on := 0\<rparr>)) d1)
                         else (upd1, flags, d1)))))"

definition plug_tasks :: "nat \<Rightarrow> scan \<Rightarrow> scan res" where
  "plug_tasks i = foldM (task_step i) [0..<PLUG_TIME_TASK_NUM]"

definition scan_tasks :: "scan \<Rightarrow> scan res" where
  "scan_tasks = foldM plug_tasks [0..<PLUG_NUM]"

text \<open>The answer for one plug: the test \<open>task_flag[i] >= 0\<close> is on an unsigned \<open>char\<close>.\<close>

definition rtc_plug_json :: "u8 list \<Rightarrow> nat \<Rightarrow> device \<Rightarrow> cjson res" where
  "rtc_plug_json flags i d =
     rbind (get_plug (of_nat i) d) (\<lambda>p.
     rbind (cJSON_AddNumberToObject cJSON_CreateObject ''on'' (u8_to_int (p_on p))) (\<lambda>j.
       if 0 \<le> u8_to_int (flags ! i)
       then rbind (get_task (of_nat i) (flags ! i) d) (\<lambda>t.
            rbind (task_json t) (\<lambda>tj.
              Inr (cJSON_AddItemToObject j ''setting''
                     (Some (cJSON_AddItemToObject cJSON_CreateObject (task_str (flags ! i)) (Some tj))))))
       else Inr j))"

definition rtc_plug_step :: "nat \<Rightarrow> cjson \<times> u8 list \<times> device \<Rightarrow> (cjson \<times> u8 list \<times> device) res" where
  "rtc_plug_step i s =
     (case s of (json, flags, d) \<Rightarrow>
        rbind (rtc_plug_json flags i d) (\<lambda>j.
          Inr (cJSON_AddItemToObject json (plug_str (of_nat i)) (Some j),
               if 0 \<le> u8_to_int (flags ! i) then flags[i := int_to_u8 (- 1)] else flags, d)))"

definition rtc_report :: "u8 list \<Rightarrow> device \<Rightarrow> (u8 list \<times> device) res" where
  "rtc_report flags d =
     rbind (add_buf cJSON_CreateObject ''mac'' (strMac d)) (\<lambda>json.
     rbind (foldM rtc_plug_step [0..<PLUG_NUM] (json, flags, d)) (\<lambda>(json', flags', d').
       rmap (Pair flags') (print_and_send 0 json' d')))"

definition rtc_turn :: "int \<Rightarrow> rtc \<Rightarrow> device \<Rightarrow> (rtc \<times> device) res" where
  "rtc_turn time_mm r d =
     (let (r1, d1) = rtc_sync time_mm r d
      in rbind (scan_tasks (False, task_flag r1, d1)) (\<lambda>(upd, flags, d2).
           if upd then rmap (\<lambda>(flags', d3). (r1\<lparr>task_flag := flags'\<rparr>, d3)) (rtc_report flags d2)
           else Inr (r1\<lparr>task_flag := flags\<rparr>, d2)))"

section \<open>When a task is due\<close>

text \<open>
  The code reads the byte \<open>repeat\<close> this way: 0 is once, bit 0 is Monday, bit 5 Saturday.  The
  comment in \<open>src/appmain.h\<close> has it otherwise: bit 7 is once, and bits 6 to 0 are Sunday to
  Monday (\<open>once_bit_ignored\<close>, \<open>task_due_spec\<close>).
\<close>

lemma weekday_bit_Inr: "weekday_bit w = Inr b \<longleftrightarrow> 1 \<le> w \<and> b = push_bit (nat (w - 1)) 1"
  by (auto simp: weekday_bit_def)

lemma and_exp_bit: "(x :: u8) AND 2 ^ n \<noteq> 0 \<longleftrightarrow> bit x n"
  by (simp add: and_exp_eq_0_iff_not_bit)

definition at_time :: "tm \<Rightarrow> user_plug_task_config_t \<Rightarrow> bool" where
  "at_time now t \<longleftrightarrow> tm_sec now = 0 \<and> tm_min now = u8_to_int (t_minute t)
     \<and> tm_hour now = u8_to_int (t_hour t)"

lemma task_due_weekday:
  assumes "1 \<le> tm_wday now"
  shows "task_due now t =
    Inr (at_time now t \<and> (t_repeat t = 0 \<or> bit (t_repeat t) (nat (tm_wday now - 1))))"
  using assms by (auto simp: task_due_def at_time_def weekday_bit_def and_exp_bit)

lemma task_due_sunday:
  assumes "tm_wday now = 0"
  shows "task_due now t =
    (if at_time now t \<and> t_repeat t \<noteq> 0 then Inl BadShift else Inr (at_time now t \<and> t_repeat t = 0))"
  using assms by (auto simp: task_due_def at_time_def weekday_bit_def)

text \<open>
  When a task is due.  From Monday to Saturday a task is due at second 0 of its minute, if
  it is a one-time task or the bit of the weekday is set (bit 0 for Monday); on Sunday a
  one-time task is due as well, but the weekday mask of a repeating one is computed by a shift
  by -1, whatever its bits are, so the seventh bit is never looked at.
\<close>

theorem task_due_spec:
  assumes "0 \<le> tm_wday now"
  shows "task_due now t =
    (if tm_wday now = 0 \<and> at_time now t \<and> t_repeat t \<noteq> 0 then Inl BadShift
     else Inr (at_time now t \<and> (t_repeat t = 0 \<or> bit (t_repeat t) (nat (tm_wday now - 1)))))"
proof (cases "tm_wday now = 0")
  case False
  with assms show ?thesis by (simp add: task_due_weekday)
qed (auto simp: task_due_sunday)

theorem task_due_spec_witness:
  "task_due (gmtime 345600) \<lparr>t_hour = 0, t_minute = 0, t_repeat = 0x01, t_action = 1, t_on = 1\<rparr> = Inr True
   \<and> task_due (gmtime 259200) \<lparr>t_hour = 0, t_minute = 0, t_repeat = 0x40, t_action = 1, t_on = 1\<rparr>
     = Inl BadShift"
  using task_due_spec [of "gmtime 345600" "\<lparr>t_hour = 0, t_minute = 0, t_repeat = 0x01, t_action = 1, t_on = 1\<rparr>"]
    task_due_spec [of "gmtime 259200" "\<lparr>t_hour = 0, t_minute = 0, t_repeat = 0x40, t_action = 1, t_on = 1\<rparr>"]
  by (simp add: gmtime_def at_time_def u8_to_int_def bit_simps)

section \<open>What a scan does\<close>

lemma rtc_sync_tm: "rtc_sync time_mm r d = (r', d') \<Longrightarrow> tm_obj d' = tm_obj d"
  by (auto simp: rtc_sync_def update_rtctime_def split: if_splits)

lemma get_task_ok:
  "globals_ok d \<Longrightarrow> i < PLUG_NUM \<Longrightarrow> j < PLUG_TIME_TASK_NUM \<Longrightarrow>
   get_task (of_nat i) (of_nat j) d = Inr (p_task (plug (u_config d) ! i) ! j)"
proof -
  assume a: "globals_ok d" "i < PLUG_NUM" "j < PLUG_TIME_TASK_NUM"
  then have "plug_ok (plug (u_config d) ! i)" by (simp add: globals_ok_def config_ok_plug)
  moreover have "unat (of_nat j :: u8) = j" using a by (simp add: unat_of_nat sizes)
  ultimately show ?thesis using a by (simp add: get_task_def get_plug_def globals_okD plug_ok_def)
qed

lemma get_task_flag:
  assumes "globals_ok d" "i < PLUG_NUM"
  shows "get_task (of_nat i) y d =
    (if unat y < PLUG_TIME_TASK_NUM then Inr (p_task (plug (u_config d) ! i) ! unat y)
     else Inl OutOfBounds)"
proof -
  have "plug_ok (plug (u_config d) ! i)" using assms by (simp add: globals_ok_def config_ok_plug)
  then show ?thesis using assms by (simp add: get_task_def get_plug_def globals_okD plug_ok_def)
qed

definition task_at :: "device \<Rightarrow> nat \<Rightarrow> nat \<Rightarrow> user_plug_task_config_t" where
  "task_at d i j = p_task (plug (u_config d) ! i) ! j"

text \<open>
  When a task acts, in the words of the configuration: it is switched on, its minute has just
  begun, and it is a one-time task or today, from Monday to Saturday, is one of its days.
\<close>

definition fires :: "device \<Rightarrow> user_plug_task_config_t \<Rightarrow> bool" where
  "fires d t \<longleftrightarrow> t_on t \<noteq> 0 \<and> at_time (tm_obj d) t \<and>
     (t_repeat t = 0 \<or> 1 \<le> tm_wday (tm_obj d) \<and> bit (t_repeat t) (nat (tm_wday (tm_obj d) - 1)))"

lemma fires_due: "fires d t \<longleftrightarrow> t_on t \<noteq> 0 \<and> task_due (tm_obj d) t = Inr True"
  by (auto simp: fires_def task_due_def at_time_def rmap_eq_Inr weekday_bit_Inr and_exp_bit)

text \<open>The bit the comment has for one-time tasks is no bit of any day.\<close>

lemma bit_once: "bit (0x80 :: u8) n \<longleftrightarrow> n = 7"
  using bit_push_bit_iff [of 7 "1 :: 8 word" n] by (auto simp: bit_simps push_bit_eq_mult)

lemma once_bit_ignored: "t_repeat t = 0x80 \<Longrightarrow> tm_wday (tm_obj d) < 7 \<Longrightarrow> \<not> fires d t"
proof
  assume r: "t_repeat t = 0x80" and w: "tm_wday (tm_obj d) < 7" and f: "fires d t"
  then have "bit (0x80 :: u8) (nat (tm_wday (tm_obj d) - 1))" by (auto simp: fires_def)
  then have "nat (tm_wday (tm_obj d) - 1) = 7" by (simp only: bit_once)
  with w show False by simp
qed

text \<open>
  What makes the thread report: a one-time task that fires, or a task that fires and changes
  its plug.
\<close>

definition reports :: "device \<Rightarrow> nat \<Rightarrow> user_plug_task_config_t \<Rightarrow> bool" where
  "reports d i t \<longleftrightarrow> fires d t \<and> (t_repeat t = 0 \<or> t_action t \<noteq> plug_on d i)"

text \<open>
  A repeating task whose minute begins on a Sunday: its weekday mask is a shift by -1.
\<close>

definition bad_weekday :: "device \<Rightarrow> user_plug_task_config_t \<Rightarrow> bool" where
  "bad_weekday d t \<longleftrightarrow>
     t_on t \<noteq> 0 \<and> at_time (tm_obj d) t \<and> t_repeat t \<noteq> 0 \<and> tm_wday (tm_obj d) < 1"

lemma task_at_relay_set [simp]:
  "globals_ok d \<Longrightarrow> i < PLUG_NUM \<Longrightarrow> task_at (user_relay_set x y d) i j = task_at d i j"
  by (simp add: task_at_def user_relay_set_eq globals_okD)

lemma task_at_map_plug:
  assumes "globals_ok d" "i < PLUG_NUM" "k < PLUG_NUM" "j < PLUG_TIME_TASK_NUM" "l < PLUG_TIME_TASK_NUM"
  shows "task_at (map_plug (of_nat i) (upd_task j f) d) k l =
    (if k = i \<and> l = j then f (task_at d i j) else task_at d k l)"
proof -
  have "plug_ok (plug (u_config d) ! i)" using assms by (simp add: globals_ok_def config_ok_plug)
  then show ?thesis using assms by (simp add: task_at_def globals_okD plug_ok_def)
qed

lemma tm_obj_map_plug [simp]: "fires (map_plug x f d) t = fires d t" "fires (user_relay_set x y d) t = fires d t"
  by (simp_all add: fires_def)

text \<open>One task: what happens to the plugs, the tasks and the flags.\<close>

lemma task_step_spec:
  assumes "globals_ok d" "i < PLUG_NUM" "j < PLUG_TIME_TASK_NUM"
    and "task_step i j (upd, flags, d) = Inr (upd', flags', d')"
  shows "globals_ok d' \<and> tm_obj d' = tm_obj d
    \<and> (upd' \<longleftrightarrow> upd \<or> reports d i (task_at d i j))
    \<and> (\<forall>k < PLUG_NUM. plug_on d' k =
         (if k = i \<and> fires d (task_at d i j) then t_action (task_at d i j) else plug_on d k))
    \<and> (\<forall>k < PLUG_NUM. \<forall>l < PLUG_TIME_TASK_NUM. task_at d' k l =
         (if k = i \<and> l = j \<and> fires d (task_at d i j) \<and> t_repeat (task_at d i j) = 0
          then (task_at d i j)\<lparr>t_on := 0\<rparr> else task_at d k l))
    \<and> flags' = (if fires d (task_at d i j) \<and> t_repeat (task_at d i j) = 0
                then flags[i := of_nat j] else flags)"
proof -
  let ?t = "task_at d i j"
  have g: "get_task (of_nat i) (of_nat j) d = Inr ?t" using get_task_ok [OF assms(1-3)] by (simp add: task_at_def)
  show ?thesis
  proof (cases "fires d ?t")
    case False
    with assms(4) g have "(upd', flags', d') = (upd, flags, d)"
      by (auto simp: task_step_def fires_due split: if_splits)
    with False assms show ?thesis by (simp add: reports_def)
  next
    case True
    define d1 where "d1 = (if plug_on d i \<noteq> t_action ?t then user_relay_set (of_nat i) (t_action ?t) d else d)"
    have d1: "globals_ok d1" "tm_obj d1 = tm_obj d"
      "\<And>k. k < PLUG_NUM \<Longrightarrow> plug_on d1 k = (if k = i then t_action ?t else plug_on d k)"
      "\<And>k l. k < PLUG_NUM \<Longrightarrow> task_at d1 k l = task_at d k l"
      using assms by (auto simp: d1_def user_relay_set_ok plug_on_relay_set)
    from True assms(4) g have
      "(upd' \<longleftrightarrow> upd \<or> t_repeat ?t = 0 \<or> t_action ?t \<noteq> plug_on d i)
       \<and> flags' = (if t_repeat ?t = 0 then flags[i := of_nat j] else flags)
       \<and> d' = (if t_repeat ?t = 0 then map_plug (of_nat i) (upd_task j (\<lambda>t. t\<lparr>t_on := 0\<rparr>)) d1 else d1)"
      by (auto simp: task_step_def fires_due d1_def Let_def split: if_splits)
    moreover have "globals_ok (map_plug (of_nat i) (upd_task j (\<lambda>t. t\<lparr>t_on := 0\<rparr>)) d1)"
      by (rule globals_ok_map_plug) (simp_all add: d1)
    ultimately show ?thesis using True assms d1
      by (auto simp: plug_on_map_plug task_at_map_plug reports_def)
  qed
qed

lemma task_step_bad:
  assumes "globals_ok d" "i < PLUG_NUM" "j < PLUG_TIME_TASK_NUM" "bad_weekday d (task_at d i j)"
  shows "task_step i j (upd, flags, d) = Inl BadShift"
  using assms get_task_ok [OF assms(1-3)]
  by (auto simp: task_step_def task_due_def weekday_bit_def bad_weekday_def at_time_def task_at_def)

lemma task_step_returns:
  assumes "globals_ok d" "i < PLUG_NUM" "j < PLUG_TIME_TASK_NUM" "\<not> bad_weekday d (task_at d i j)"
  shows "\<exists>upd' flags' d'. task_step i j (upd, flags, d) = Inr (upd', flags', d')"
proof -
  let ?t = "task_at d i j"
  have g: "get_task (of_nat i) (of_nat j) d = Inr ?t" using get_task_ok [OF assms(1-3)] by (simp add: task_at_def)
  have "\<exists>b. task_due (tm_obj d) ?t = Inr b" if "t_on ?t \<noteq> 0"
    using that assms(4) by (auto simp: task_due_def weekday_bit_def at_time_def bad_weekday_def)
  with g have "\<exists>s'. task_step i j (upd, flags, d) = Inr s'"
    by (cases "t_on ?t = 0") (auto simp: task_step_def Let_def split: prod.split)
  then show ?thesis by (metis prod_cases3)
qed

text \<open>All tasks of one plug.  The last task that fires wins.\<close>

definition fired_on :: "device \<Rightarrow> nat \<Rightarrow> nat list \<Rightarrow> u8 \<Rightarrow> u8" where
  "fired_on d i js v =
     foldl (\<lambda>v j. if fires d (task_at d i j) then t_action (task_at d i j) else v) v js"

lemma fired_on_cong:
  assumes "tm_obj d' = tm_obj d" "\<And>j. j \<in> set js \<Longrightarrow> task_at d' i j = task_at d i j"
  shows "fired_on d' i js v = fired_on d i js v"
proof -
  have "fires d' t = fires d t" for t using assms(1) by (simp add: fires_def)
  then show ?thesis unfolding fired_on_def using assms(2)
    by (intro foldl_cong) auto
qed

lemma plug_tasks_from:
  assumes "foldM (task_step i) js (upd, flags, d) = Inr (upd', flags', d')"
    and "globals_ok d" "i < PLUG_NUM" "set js \<subseteq> {..<PLUG_TIME_TASK_NUM}" "distinct js"
  shows "globals_ok d' \<and> tm_obj d' = tm_obj d
    \<and> (upd' \<longleftrightarrow> upd \<or> (\<exists>j \<in> set js. reports d i (task_at d i j)))
    \<and> (\<forall>k. k \<noteq> i \<or> (\<forall>j \<in> set js. \<not> (fires d (task_at d i j) \<and> t_repeat (task_at d i j) = 0)) \<longrightarrow>
         flags' ! k = flags ! k)
    \<and> (\<forall>k < PLUG_NUM. plug_on d' k = (if k = i then fired_on d i js (plug_on d i) else plug_on d k))
    \<and> (\<forall>k < PLUG_NUM. \<forall>l < PLUG_TIME_TASK_NUM. task_at d' k l =
         (if k = i \<and> l \<in> set js \<and> fires d (task_at d i l) \<and> t_repeat (task_at d i l) = 0
          then (task_at d i l)\<lparr>t_on := 0\<rparr> else task_at d k l))"
  using assms
proof (induction js arbitrary: upd flags d)
  case Nil
  then show ?case by (simp add: fired_on_def)
next
  case (Cons j js)
  from Cons.prems(1) obtain u f e where
    1: "task_step i j (upd, flags, d) = Inr (u, f, e)"
    and 2: "foldM (task_step i) js (u, f, e) = Inr (upd', flags', d')" by auto
  have j: "j < PLUG_TIME_TASK_NUM" using Cons.prems by auto
  note s = task_step_spec [OF Cons.prems(2,3) j 1]
  from s have ge: "globals_ok e" and te: "tm_obj e = tm_obj d" by blast+
  have ta: "task_at e i l = task_at d i l" if "l \<in> set js" for l
  proof -
    have "l < PLUG_TIME_TASK_NUM" "l \<noteq> j" using that Cons.prems(4,5) by auto
    with s Cons.prems(3) show ?thesis by simp
  qed
  have fo: "fired_on e i js v = fired_on d i js v" for v using fired_on_cong [OF te ta] .
  have fi: "fires e t = fires d t" for t using te by (simp add: fires_def)
  from Cons.IH [OF 2 ge Cons.prems(3)] Cons.prems
  have ih: "globals_ok d' \<and> tm_obj d' = tm_obj e
    \<and> (upd' \<longleftrightarrow> u \<or> (\<exists>j \<in> set js. reports e i (task_at e i j)))
    \<and> (\<forall>k. k \<noteq> i \<or> (\<forall>j \<in> set js. \<not> (fires e (task_at e i j) \<and> t_repeat (task_at e i j) = 0)) \<longrightarrow>
         flags' ! k = f ! k)
    \<and> (\<forall>k < PLUG_NUM. plug_on d' k = (if k = i then fired_on e i js (plug_on e i) else plug_on e k))
    \<and> (\<forall>k < PLUG_NUM. \<forall>l < PLUG_TIME_TASK_NUM. task_at d' k l =
         (if k = i \<and> l \<in> set js \<and> fires e (task_at e i l) \<and> t_repeat (task_at e i l) = 0
          then (task_at e i l)\<lparr>t_on := 0\<rparr> else task_at e k l))"
    by simp
  have "plug_on d' k = (if k = i then fired_on d i (j # js) (plug_on d i) else plug_on d k)"
    if "k < PLUG_NUM" for k
    using ih s that Cons.prems(3) by (simp add: fo) (simp add: fired_on_def)
  moreover have "task_at d' k l =
      (if k = i \<and> l \<in> set (j # js) \<and> fires d (task_at d i l) \<and> t_repeat (task_at d i l) = 0
       then (task_at d i l)\<lparr>t_on := 0\<rparr> else task_at d k l)"
    if "k < PLUG_NUM" "l < PLUG_TIME_TASK_NUM" for k l
    using ih s that Cons.prems(3,5) by (cases "l = j") (auto simp: fi ta)
  moreover have "globals_ok d'" and "tm_obj d' = tm_obj d" using ih te by simp_all
  moreover have "upd' \<longleftrightarrow> upd \<or> (\<exists>l \<in> set (j # js). reports d i (task_at d i l))"
  proof -
    have "plug_on e i = (if fires d (task_at d i j) then t_action (task_at d i j) else plug_on d i)"
      and "u \<longleftrightarrow> upd \<or> reports d i (task_at d i j)" using s Cons.prems(3) by auto
    then have "u \<or> reports e i (task_at d i l) \<longleftrightarrow> u \<or> reports d i (task_at d i l)" for l
      by (auto simp: reports_def fi)
    then show ?thesis using ih ta \<open>u \<longleftrightarrow> upd \<or> reports d i (task_at d i j)\<close> by auto
  qed
  moreover have "flags' ! k = flags ! k"
    if "k \<noteq> i \<or> (\<forall>l \<in> set (j # js). \<not> (fires d (task_at d i l) \<and> t_repeat (task_at d i l) = 0))" for k
    using ih s that by (auto simp: fi ta)
  ultimately show ?case by blast
qed

lemma plug_tasks_returns:
  assumes "globals_ok d" "i < PLUG_NUM" "set js \<subseteq> {..<PLUG_TIME_TASK_NUM}" "distinct js"
  shows "if \<exists>j \<in> set js. bad_weekday d (task_at d i j)
    then foldM (task_step i) js (upd, flags, d) = Inl BadShift
    else \<exists>upd' flags' d'. foldM (task_step i) js (upd, flags, d) = Inr (upd', flags', d')"
  using assms
proof (induction js arbitrary: upd flags d)
  case (Cons j js)
  then have j: "j < PLUG_TIME_TASK_NUM" by auto
  show ?case
  proof (cases "bad_weekday d (task_at d i j)")
    case False
    obtain u f e where s: "task_step i j (upd, flags, d) = Inr (u, f, e)"
      using task_step_returns [OF Cons.prems(1,2) j False] by blast
    note sp = task_step_spec [OF Cons.prems(1,2) j s]
    then have e: "globals_ok e" and te: "tm_obj e = tm_obj d" by blast+
    have "task_at e i l = task_at d i l" if "l \<in> set js" for l
    proof -
      have "l < PLUG_TIME_TASK_NUM" "l \<noteq> j" using that Cons.prems(3,4) by auto
      with sp Cons.prems(2) show ?thesis by simp
    qed
    then have "(\<exists>l \<in> set (j # js). bad_weekday d (task_at d i l)) \<longleftrightarrow>
        (\<exists>l \<in> set js. bad_weekday e (task_at e i l))"
      using False te by (auto simp: bad_weekday_def)
    then show ?thesis using Cons.IH [OF e Cons.prems(2), of u f] Cons.prems(3,4) s by simp
  qed (use task_step_bad [OF Cons.prems(1,2) j] in auto)
qed simp

lemma plug_tasks_spec:
  assumes "plug_tasks i (upd, flags, d) = Inr (upd', flags', d')" "globals_ok d" "i < PLUG_NUM"
  shows "globals_ok d' \<and> tm_obj d' = tm_obj d
    \<and> (upd' \<longleftrightarrow> upd \<or> (\<exists>j < PLUG_TIME_TASK_NUM. reports d i (task_at d i j)))
    \<and> (\<forall>k. k \<noteq> i \<or> (\<forall>j < PLUG_TIME_TASK_NUM. \<not> (fires d (task_at d i j) \<and> t_repeat (task_at d i j) = 0)) \<longrightarrow>
         flags' ! k = flags ! k)
    \<and> (\<forall>k < PLUG_NUM. plug_on d' k =
         (if k = i then fired_on d i [0..<PLUG_TIME_TASK_NUM] (plug_on d i) else plug_on d k))
    \<and> (\<forall>k < PLUG_NUM. \<forall>l < PLUG_TIME_TASK_NUM. task_at d' k l =
         (if k = i \<and> fires d (task_at d i l) \<and> t_repeat (task_at d i l) = 0
          then (task_at d i l)\<lparr>t_on := 0\<rparr> else task_at d k l))"
proof -
  have "set [0..<PLUG_TIME_TASK_NUM] \<subseteq> {..<PLUG_TIME_TASK_NUM}" "distinct [0..<PLUG_TIME_TASK_NUM]"
    by auto
  from plug_tasks_from [OF assms(1) [unfolded plug_tasks_def] assms(2,3) this] show ?thesis
    by (simp add: Ball_def Bex_def)
qed

lemma scan_from:
  assumes "foldM plug_tasks ks (upd, flags, d) = Inr (upd', flags', d')"
    and "globals_ok d" "set ks \<subseteq> {..<PLUG_NUM}" "distinct ks"
  shows "globals_ok d' \<and> tm_obj d' = tm_obj d
    \<and> (upd' \<longleftrightarrow> upd \<or> (\<exists>k \<in> set ks. \<exists>j < PLUG_TIME_TASK_NUM. reports d k (task_at d k j)))
    \<and> (\<forall>k < PLUG_NUM. (\<forall>j < PLUG_TIME_TASK_NUM. \<not> (fires d (task_at d k j) \<and> t_repeat (task_at d k j) = 0)) \<longrightarrow>
         flags' ! k = flags ! k)
    \<and> (\<forall>k < PLUG_NUM. plug_on d' k =
         (if k \<in> set ks then fired_on d k [0..<PLUG_TIME_TASK_NUM] (plug_on d k) else plug_on d k))
    \<and> (\<forall>k < PLUG_NUM. \<forall>l < PLUG_TIME_TASK_NUM. task_at d' k l =
         (if k \<in> set ks \<and> fires d (task_at d k l) \<and> t_repeat (task_at d k l) = 0
          then (task_at d k l)\<lparr>t_on := 0\<rparr> else task_at d k l))"
  using assms
proof (induction ks arbitrary: upd flags d)
  case (Cons i ks)
  from Cons.prems(1) obtain u f e where
    1: "plug_tasks i (upd, flags, d) = Inr (u, f, e)"
    and 2: "foldM plug_tasks ks (u, f, e) = Inr (upd', flags', d')" by auto
  have i: "i < PLUG_NUM" using Cons.prems by auto
  note s = plug_tasks_spec [OF 1 Cons.prems(2) i]
  let ?once = "\<lambda>e k j. fires e (task_at e k j) \<and> t_repeat (task_at e k j) = 0"
  let ?last = "\<lambda>e k. fired_on e k [0..<PLUG_TIME_TASK_NUM] (plug_on e k)"
  from s have ge: "globals_ok e" and te: "tm_obj e = tm_obj d"
    and su: "u \<longleftrightarrow> upd \<or> (\<exists>j < PLUG_TIME_TASK_NUM. reports d i (task_at d i j))"
    and sf: "\<And>k. k \<noteq> i \<or> (\<forall>j < PLUG_TIME_TASK_NUM. \<not> ?once d i j) \<Longrightarrow> f ! k = flags ! k"
    and so: "\<And>k. k < PLUG_NUM \<Longrightarrow> plug_on e k = (if k = i then ?last d i else plug_on d k)"
    and st: "\<And>k l. k < PLUG_NUM \<Longrightarrow> l < PLUG_TIME_TASK_NUM \<Longrightarrow>
      task_at e k l = (if k = i \<and> ?once d i l then (task_at d i l)\<lparr>t_on := 0\<rparr> else task_at d k l)"
    by blast+
  have fi: "fires e t = fires d t" for t using te by (simp add: fires_def)
  have fo: "fired_on e k [0..<PLUG_TIME_TASK_NUM] v = fired_on d k [0..<PLUG_TIME_TASK_NUM] v"
    if "k < PLUG_NUM" "k \<noteq> i" for k v
    by (rule fired_on_cong [OF te]) (use st that in auto)
  from Cons.prems have ks: "set ks \<subseteq> {..<PLUG_NUM}" "distinct ks" "i \<notin> set ks" by auto
  from Cons.IH [OF 2 ge ks(1,2)] have gd: "globals_ok d'" and td: "tm_obj d' = tm_obj e"
    and hu: "upd' \<longleftrightarrow> u \<or> (\<exists>k \<in> set ks. \<exists>j < PLUG_TIME_TASK_NUM. reports e k (task_at e k j))"
    and hf: "\<And>k. k < PLUG_NUM \<Longrightarrow> (\<forall>j < PLUG_TIME_TASK_NUM. \<not> ?once e k j) \<Longrightarrow> flags' ! k = f ! k"
    and ho: "\<And>k. k < PLUG_NUM \<Longrightarrow> plug_on d' k = (if k \<in> set ks then ?last e k else plug_on e k)"
    and ht: "\<And>k l. k < PLUG_NUM \<Longrightarrow> l < PLUG_TIME_TASK_NUM \<Longrightarrow>
      task_at d' k l = (if k \<in> set ks \<and> ?once e k l then (task_at e k l)\<lparr>t_on := 0\<rparr> else task_at e k l)"
    by blast+
  have other: "task_at e k j = task_at d k j \<and> plug_on e k = plug_on d k"
    if "k \<in> set ks" "j < PLUG_TIME_TASK_NUM" for k j
  proof -
    have "k < PLUG_NUM" "k \<noteq> i" using that ks by auto
    then show ?thesis using so st that(2) by simp
  qed
  have "upd' \<longleftrightarrow> upd \<or> (\<exists>k \<in> set (i # ks). \<exists>j < PLUG_TIME_TASK_NUM. reports d k (task_at d k j))"
  proof -
    have "reports e k (task_at e k j) = reports d k (task_at d k j)"
      if "k \<in> set ks" "j < PLUG_TIME_TASK_NUM" for k j
      using other [OF that] by (simp add: reports_def fi)
    then show ?thesis unfolding hu su by auto
  qed
  moreover have "flags' ! k = flags ! k"
    if k: "k < PLUG_NUM" and n: "\<forall>j < PLUG_TIME_TASK_NUM. \<not> ?once d k j" for k
  proof -
    have "\<forall>j < PLUG_TIME_TASK_NUM. \<not> ?once e k j" using n st [OF k] by (auto simp: fi)
    then show ?thesis using hf [OF k] sf [of k] n by auto
  qed
  moreover have "plug_on d' k = (if k \<in> set (i # ks) then ?last d k else plug_on d k)"
    if k: "k < PLUG_NUM" for k
    using ho [OF k] so [OF k] fo [OF k] ks(3) by auto
  moreover have "task_at d' k l =
      (if k \<in> set (i # ks) \<and> ?once d k l then (task_at d k l)\<lparr>t_on := 0\<rparr> else task_at d k l)"
    if k: "k < PLUG_NUM" and l: "l < PLUG_TIME_TASK_NUM" for k l
    using ht [OF k l] st [OF k l] ks(3) by (auto simp: fi)
  moreover have "globals_ok d'" "tm_obj d' = tm_obj d" using gd td te by simp_all
  ultimately show ?case by blast
qed simp

lemma scan_returns:
  assumes "globals_ok d" "set ks \<subseteq> {..<PLUG_NUM}" "distinct ks"
  shows "if \<exists>i \<in> set ks. \<exists>j < PLUG_TIME_TASK_NUM. bad_weekday d (task_at d i j)
    then foldM plug_tasks ks (upd, flags, d) = Inl BadShift
    else \<exists>upd' flags' d'. foldM plug_tasks ks (upd, flags, d) = Inr (upd', flags', d')"
  using assms
proof (induction ks arbitrary: upd flags d)
  case (Cons i ks)
  then have i: "i < PLUG_NUM" by auto
  have "set [0..<PLUG_TIME_TASK_NUM] \<subseteq> {..<PLUG_TIME_TASK_NUM}" "distinct [0..<PLUG_TIME_TASK_NUM]"
    by auto
  note r = plug_tasks_returns [OF Cons.prems(1) i this, of upd flags, folded plug_tasks_def]
  show ?case
  proof (cases "\<exists>j < PLUG_TIME_TASK_NUM. bad_weekday d (task_at d i j)")
    case True
    with r show ?thesis by (auto split: if_splits)
  next
    case False
    with r obtain u f e where s: "plug_tasks i (upd, flags, d) = Inr (u, f, e)"
      by (auto split: if_splits)
    note sp = plug_tasks_spec [OF s Cons.prems(1) i]
    then have e: "globals_ok e" and te: "tm_obj e = tm_obj d" by blast+
    have "bad_weekday e (task_at e k l) = bad_weekday d (task_at d k l)"
      if "k \<in> set ks" "l < PLUG_TIME_TASK_NUM" for k l
    proof -
      have "k < PLUG_NUM" "k \<noteq> i" using that Cons.prems(2,3) by auto
      with sp that(2) te show ?thesis by (simp add: bad_weekday_def)
    qed
    then have "(\<exists>k \<in> set ks. \<exists>j < PLUG_TIME_TASK_NUM. bad_weekday e (task_at e k j)) \<longleftrightarrow>
        (\<exists>k \<in> set ks. \<exists>j < PLUG_TIME_TASK_NUM. bad_weekday d (task_at d k j))"
      by (intro bex_cong ex_cong1) auto
    with False have "(\<exists>k \<in> set (i # ks). \<exists>j < PLUG_TIME_TASK_NUM. bad_weekday d (task_at d k j)) \<longleftrightarrow>
        (\<exists>k \<in> set ks. \<exists>j < PLUG_TIME_TASK_NUM. bad_weekday e (task_at e k j))"
      by auto
    then show ?thesis using Cons.IH [OF e, of u f] Cons.prems(2,3) s by simp
  qed
qed simp

section \<open>Properties\<close>

text \<open>
  C22. The timers switch what they should.  A scan of the tasks of a sound configuration that
  finds no repeating task to compare with a Sunday returns; then every plug is in the state of
  the last of its five tasks that is switched on and due, or unchanged if there is none; the
  tasks without a repeat byte that fired are switched off and no other task has changed; and a
  report is due exactly if such a task fired or a task has changed its plug.  Due means: second
  0 of its minute, with the byte 0 or the bit of the weekday set, bit 0 for Monday to bit 5 for
  Saturday.  If a repeating task meets its minute on a Sunday, the scan shifts by -1.
\<close>

theorem scan_tasks_spec:
  assumes "globals_ok d"
  shows "if \<exists>i < PLUG_NUM. \<exists>j < PLUG_TIME_TASK_NUM. bad_weekday d (task_at d i j)
    then scan_tasks (upd, flags, d) = Inl BadShift
    else \<exists>upd' flags' d'. scan_tasks (upd, flags, d) = Inr (upd', flags', d')
      \<and> (upd' \<longleftrightarrow> upd \<or> (\<exists>i < PLUG_NUM. \<exists>j < PLUG_TIME_TASK_NUM. reports d i (task_at d i j)))
      \<and> (\<forall>i < PLUG_NUM. plug_on d' i =
           foldl (\<lambda>v t. if fires d t then t_action t else v) (plug_on d i)
             (map (task_at d i) [0..<PLUG_TIME_TASK_NUM]))
      \<and> (\<forall>i < PLUG_NUM. \<forall>j < PLUG_TIME_TASK_NUM. task_at d' i j =
           (if fires d (task_at d i j) \<and> t_repeat (task_at d i j) = 0
            then (task_at d i j)\<lparr>t_on := 0\<rparr> else task_at d i j))"
proof -
  have "set [0..<PLUG_NUM] \<subseteq> {..<PLUG_NUM}" "distinct [0..<PLUG_NUM]" by auto
  note r = scan_returns [OF assms this, of upd flags, folded scan_tasks_def]
    and sp = scan_from [OF _ assms this, of upd flags, folded scan_tasks_def]
  show ?thesis
  proof (cases "\<exists>i < PLUG_NUM. \<exists>j < PLUG_TIME_TASK_NUM. bad_weekday d (task_at d i j)")
    case False
    with r obtain upd' flags' d' where s: "scan_tasks (upd, flags, d) = Inr (upd', flags', d')"
      by (auto split: if_splits)
    from False sp [OF s] s show ?thesis by (simp add: fired_on_def foldl_map Bex_def)
  qed (use r in \<open>auto split: if_splits\<close>)
qed

definition ex_task :: user_plug_task_config_t where
  "ex_task = \<lparr>t_hour = 8, t_minute = 0, t_repeat = 0, t_action = 1, t_on = 1\<rparr>"

text \<open>Eight o'clock on a Tuesday, with a one-time task for it in plug 2.\<close>

definition ex_rtc_device :: device where
  "ex_rtc_device = map_plug 2 (upd_task 0 (\<lambda>_. ex_task)) (ex_device\<lparr>tm_obj := gmtime 1546329600\<rparr>)"

lemma ex_rtc_device_ok: "globals_ok ex_rtc_device"
proof -
  have "globals_ok ex_device" using ex_device_healthy by (simp add: healthy_def)
  then have "globals_ok (ex_device\<lparr>tm_obj := m\<rparr>)" for m by (simp add: globals_ok_def)
  then show ?thesis unfolding ex_rtc_device_def by (rule globals_ok_map_plug) simp
qed

lemma ex_rtc_weekday: "\<not> bad_weekday ex_rtc_device t"
  by (simp add: bad_weekday_def ex_rtc_device_def gmtime_def)

lemma ex_rtc_fires:
  "fires ex_rtc_device (task_at ex_rtc_device 2 0)" "t_repeat (task_at ex_rtc_device 2 0) = 0"
  "t_on (task_at ex_rtc_device 0 j) = 0 \<or> 5 \<le> j"
  "foldl (\<lambda>v t. if fires ex_rtc_device t then t_action t else v) (plug_on ex_rtc_device 2)
      (map (task_at ex_rtc_device 2) [0..<PLUG_TIME_TASK_NUM]) = 1"
proof -
  have "\<forall>j \<in> {0..<5}. t_on (task_at ex_rtc_device 0 j) = 0" by code_simp
  then show "t_on (task_at ex_rtc_device 0 j) = 0 \<or> 5 \<le> j" by auto
qed code_simp+

theorem scan_tasks_spec_witness:
  "\<exists>flags' d'. scan_tasks (False, task_flag rtc_start, ex_rtc_device) = Inr (True, flags', d')
     \<and> plug_on d' 2 = 1 \<and> t_on (task_at d' 2 0) = 0"
proof -
  have "reports ex_rtc_device 2 (task_at ex_rtc_device 2 0)"
    using ex_rtc_fires(1,2) by (simp add: reports_def)
  then have "\<exists>i < PLUG_NUM. \<exists>j < PLUG_TIME_TASK_NUM. reports ex_rtc_device i (task_at ex_rtc_device i j)"
    by (intro exI [of _ 2] exI [of _ 0] conjI) (simp_all add: sizes)
  then obtain flags' d' where
    "scan_tasks (False, task_flag rtc_start, ex_rtc_device) = Inr (True, flags', d')"
    "\<forall>i < PLUG_NUM. plug_on d' i = foldl (\<lambda>v t. if fires ex_rtc_device t then t_action t else v)
       (plug_on ex_rtc_device i) (map (task_at ex_rtc_device i) [0..<PLUG_TIME_TASK_NUM])"
    "\<forall>i < PLUG_NUM. \<forall>j < PLUG_TIME_TASK_NUM. task_at d' i j =
       (if fires ex_rtc_device (task_at ex_rtc_device i j) \<and> t_repeat (task_at ex_rtc_device i j) = 0
        then (task_at ex_rtc_device i j)\<lparr>t_on := 0\<rparr> else task_at ex_rtc_device i j)"
    using scan_tasks_spec [OF ex_rtc_device_ok, of False "task_flag rtc_start"] ex_rtc_weekday
    by auto
  then show ?thesis using ex_rtc_fires by (simp add: sizes)
qed

lemma task_json_Inr: "\<exists>j. task_json t = Inr j"
proof -
  have "rbind (cJSON_AddNumberToObject obj name (u8_to_int w)) f = f (the_elem (set_option
      (case cJSON_AddNumberToObject obj name (u8_to_int w) of Inl _ \<Rightarrow> None | Inr j \<Rightarrow> Some j)))"
    for obj name w and f :: "cjson \<Rightarrow> cjson res"
    using AddNumber_u8 [of obj name w] by auto
  then show ?thesis unfolding task_json_def using AddNumber_u8 by simp
qed

lemma rtc_plug_json_cases:
  assumes "globals_ok d" "i < PLUG_NUM"
  shows "rtc_plug_json flags i d = Inl OutOfBounds \<and> PLUG_TIME_TASK_NUM \<le> unat (flags ! i)
    \<or> (\<exists>j. rtc_plug_json flags i d = Inr j) \<and> unat (flags ! i) < PLUG_TIME_TASK_NUM"
proof -
  have "get_plug (of_nat i) d = Inr (plug (u_config d) ! i)"
    using assms by (simp add: get_plug_def globals_okD)
  moreover obtain j where "cJSON_AddNumberToObject cJSON_CreateObject ''on''
      (u8_to_int (p_on (plug (u_config d) ! i))) = Inr j" using AddNumber_u8 by blast
  moreover obtain tj where "task_json (p_task (plug (u_config d) ! i) ! unat (flags ! i)) = Inr tj"
    using task_json_Inr by blast
  ultimately show ?thesis
    using get_task_flag [OF assms, of "flags ! i"]
    by (cases "unat (flags ! i) < PLUG_TIME_TASK_NUM") (auto simp: rtc_plug_json_def)
qed

lemma rtc_loop_fault:
  assumes "globals_ok d" "i \<in> set ks" "set ks \<subseteq> {..<PLUG_NUM}" "distinct ks"
    "PLUG_TIME_TASK_NUM \<le> unat (flags ! i)"
  shows "foldM rtc_plug_step ks (json, flags, d) = Inl OutOfBounds"
  using assms
proof (induction ks arbitrary: json flags)
  case (Cons k ks)
  have k: "k < PLUG_NUM" using Cons.prems by auto
  from rtc_plug_json_cases [OF Cons.prems(1) k, of flags] show ?case
  proof
    assume "(\<exists>j. rtc_plug_json flags k d = Inr j) \<and> unat (flags ! k) < PLUG_TIME_TASK_NUM"
    then obtain j where j: "rtc_plug_json flags k d = Inr j" and "unat (flags ! k) < PLUG_TIME_TASK_NUM"
      by blast
    then have "k \<noteq> i" using Cons.prems(5) by auto
    let ?flags = "flags[k := int_to_u8 (- 1)]"
    have "foldM rtc_plug_step ks (cJSON_AddItemToObject json (plug_str (of_nat k)) (Some j), ?flags, d)
        = Inl OutOfBounds"
      by (rule Cons.IH) (use Cons.prems \<open>k \<noteq> i\<close> in auto)
    moreover have "rtc_plug_step k (json, flags, d) =
        Inr (cJSON_AddItemToObject json (plug_str (of_nat k)) (Some j), ?flags, d)"
      by (simp add: rtc_plug_step_def j)
    ultimately show ?thesis by simp
  qed (simp add: rtc_plug_step_def)
qed simp

text \<open>Building the answer resets every flag.\<close>

lemma rtc_loop_flags:
  assumes "foldM rtc_plug_step ks (json, flags, d) = Inr (json', flags', d')"
  shows "d' = d \<and> length flags' = length flags
    \<and> (\<forall>k < length flags. flags' ! k = (if k \<in> set ks then int_to_u8 (- 1) else flags ! k))"
  using assms
proof (induction ks arbitrary: json flags)
  case (Cons k ks)
  from Cons.prems obtain json1 where
    "foldM rtc_plug_step ks (json1, flags[k := int_to_u8 (- 1)], d) = Inr (json', flags', d')"
    by (auto simp: rtc_plug_step_def [of k])
  from Cons.IH [OF this] show ?case by (auto simp: nth_list_update)
qed simp

lemma task_step_length:
  assumes "task_step i j s = Inr t"
  shows "length (fst (snd t)) = length (fst (snd s))"
proof -
  obtain upd flags d where s: "s = (upd, flags, d)" by (metis prod_cases3)
  from assms show ?thesis unfolding s task_step_def Let_def
    by (auto split: if_splits)
qed

lemma scan_length:
  assumes "scan_tasks (upd, flags, d) = Inr (upd', flags', d')"
  shows "length flags' = length flags"
proof -
  let ?P = "\<lambda>s :: scan. length (fst (snd s)) = length flags"
  have "?P t" if "?P s" "plug_tasks i s = Inr t" for i s t
    using foldM_invariant [OF that(2) [unfolded plug_tasks_def], of ?P] that(1)
    by (simp add: task_step_length)
  then have "?P (upd', flags', d')"
    using foldM_invariant [OF assms [unfolded scan_tasks_def], of ?P] by simp
  then show ?thesis by simp
qed

lemma rtc_sync_cases:
  assumes "rtc_sync time_mm r d = (r', d')"
  obtains n where "d' = d\<lparr>rtctimes := n\<rparr>" "task_flag r' = task_flag r"
proof (cases "tm_min (tm_obj d) mod 10 = 0 \<and> \<not> ntptime_succeed r \<and> \<not> time_mm < 0")
  case True
  with assms show thesis by (intro that [of time_mm]) (auto simp: rtc_sync_def update_rtctime_def)
next
  case False
  with assms show thesis
    by (intro that [of "rtctimes d"]) (auto simp: rtc_sync_def update_rtctime_def split: if_splits)
qed

lemma rtc_sync_same:
  assumes "rtc_sync time_mm r d = (r', d')"
  shows "task_flag r' = task_flag r" "globals_ok d' = globals_ok d" "task_at d' = task_at d"
    "fires d' = fires d" "reports d' = reports d" "bad_weekday d' = bad_weekday d"
  using assms
  by (auto elim!: rtc_sync_cases simp: globals_ok_def task_at_def fires_def reports_def bad_weekday_def
      plug_on_def fun_eq_iff)

text \<open>The states of the thread between two turns, whatever the other threads do meanwhile.\<close>

inductive thread_state :: "rtc \<Rightarrow> bool" where
  start: "thread_state rtc_start"
| turn: "thread_state r \<Longrightarrow> globals_ok d \<Longrightarrow> rtc_turn time_mm r d = Inr (r', d') \<Longrightarrow> thread_state r'"

lemma no_bad_weekdayE:
  assumes "globals_ok d" "\<forall>i < PLUG_NUM. \<forall>j < PLUG_TIME_TASK_NUM. \<not> bad_weekday d (task_at d i j)"
  obtains upd' flags' d' where "scan_tasks (upd, flags, d) = Inr (upd', flags', d')"
proof -
  have "set [0..<PLUG_NUM] \<subseteq> {..<PLUG_NUM}" "distinct [0..<PLUG_NUM]" by auto
  from scan_returns [OF assms(1) this, of upd flags, folded scan_tasks_def] assms(2)
  have "\<exists>upd' flags' d'. scan_tasks (upd, flags, d) = Inr (upd', flags', d')"
    by (auto split: if_split_asm)
  then show thesis using that by blast
qed

text \<open>A scan that reports nothing leaves the flags alone.\<close>

lemma quiet_scan_flags:
  assumes "scan_tasks (False, flags, d) = Inr (False, flags', d')" "globals_ok d" "k < PLUG_NUM"
  shows "flags' ! k = flags ! k"
proof -
  have "set [0..<PLUG_NUM] \<subseteq> {..<PLUG_NUM}" "distinct [0..<PLUG_NUM]" by auto
  note sp = scan_from [OF assms(1) [unfolded scan_tasks_def] assms(2) this]
  then have "\<forall>k \<in> set [0..<PLUG_NUM]. \<forall>j < PLUG_TIME_TASK_NUM. \<not> reports d k (task_at d k j)" by blast
  then have "\<forall>j < PLUG_TIME_TASK_NUM. \<not> (fires d (task_at d k j) \<and> t_repeat (task_at d k j) = 0)"
    using assms(3) by (auto simp: reports_def)
  with sp assms(3) show ?thesis by blast
qed

lemma thread_flags: "thread_state r \<Longrightarrow> length (task_flag r) = PLUG_NUM \<and> (\<forall>k < 5. task_flag r ! k = 255)"
proof (induction rule: thread_state.induct)
  case start
  show ?case by (simp add: rtc_start_def int_to_u8_def PLUG_NUM_def nth_append)
next
  case (turn r d time_mm r' d')
  obtain r1 d1 where y: "rtc_sync time_mm r d = (r1, d1)" by fastforce
  note same = rtc_sync_same [OF y]
  with turn.hyps(3) y obtain upd flags d2 where
    s: "scan_tasks (False, task_flag r, d1) = Inr (upd, flags, d2)"
    and rest: "(if upd then rmap (\<lambda>(flags', d3). (r1\<lparr>task_flag := flags'\<rparr>, d3)) (rtc_report flags d2)
           else Inr (r1\<lparr>task_flag := flags\<rparr>, d2)) = Inr (r', d')"
    by (auto simp: rtc_turn_def)
  have l: "length flags = PLUG_NUM" using scan_length [OF s] turn.IH by simp
  show ?case
  proof (cases upd)
    case True
    with rest obtain json json' flags' e where "foldM rtc_plug_step [0..<PLUG_NUM] (json, flags, d2) = Inr (json', flags', e)"
      and "task_flag r' = flags'" by (auto simp: rtc_report_def rmap_eq_Inr)
    with rtc_loop_flags [OF this(1)] l show ?thesis
      by (auto simp: PLUG_NUM_def int_to_u8_def)
  next
    case False
    have "flags ! k = task_flag r ! k" if "k < PLUG_NUM" for k
      using quiet_scan_flags [of "task_flag r" d1 flags d2 k] s False same(2) turn.hyps(2) that by simp
    then show ?thesis using False rest l turn.IH by (auto simp: PLUG_NUM_def)
  qed
qed

text \<open>
  C5. A timer that switches something crashes the thread.  In every state of the thread between
  two turns, a turn that has something to report (a task without a repeat byte that fires, or a
  task that fires and changes its plug) reads a task behind the end of the array, unless
  such a one-time task fires on each of the first five plugs in that very turn: the answer is
  built for all six plugs, and -1 in the unsigned \<open>char\<close> \<open>task_flag\<close> is the index 255.
\<close>

theorem rtc_turn_out_of_bounds:
  assumes "thread_state r" "globals_ok d"
    and "\<forall>i < 6. \<forall>j < 5. \<not> bad_weekday d (task_at d i j)"
    and "i < 6" "j < 5" "fires d (task_at d i j)"
    and "t_repeat (task_at d i j) = 0 \<or> t_action (task_at d i j) \<noteq> plug_on d i"
    and "k < 5" "\<forall>j < 5. \<not> (fires d (task_at d k j) \<and> t_repeat (task_at d k j) = 0)"
  shows "rtc_turn time_mm r d = Inl OutOfBounds"
proof -
  have six: "PLUG_NUM = 6" "PLUG_TIME_TASK_NUM = 5" by (simp_all add: PLUG_NUM_def sizes)
  obtain r1 d1 where y: "rtc_sync time_mm r d = (r1, d1)" by fastforce
  note same = rtc_sync_same [OF y]
  have sub: "set [0..<PLUG_NUM] \<subseteq> {..<PLUG_NUM}" "distinct [0..<PLUG_NUM]" by auto
  have g: "globals_ok d1" using same assms(2) by simp
  have "\<forall>i < PLUG_NUM. \<forall>j < PLUG_TIME_TASK_NUM. \<not> bad_weekday d1 (task_at d1 i j)"
    using assms(3) same six by simp
  then obtain upd flags d2 where s: "scan_tasks (False, task_flag r, d1) = Inr (upd, flags, d2)"
    by (rule no_bad_weekdayE [OF g])
  note sp = scan_from [OF s [unfolded scan_tasks_def] g sub]
  have upd using sp assms(4-7) same six by (auto simp: reports_def)
  have "flags ! k = 255"
    using sp thread_flags [OF assms(1)] assms(8,9) same six by auto
  then have "foldM rtc_plug_step [0..<PLUG_NUM] (json, flags, d2) = Inl OutOfBounds" for json
  proof (intro rtc_loop_fault [where i = k])
    show "globals_ok d2" using sp by blast
    show "PLUG_TIME_TASK_NUM \<le> unat (flags ! k)" using \<open>flags ! k = 255\<close> by (simp add: sizes)
  qed (use assms(8) in \<open>auto simp: PLUG_NUM_def\<close>)
  moreover have "buf_str (strMac d2) = Inr (cstr (strMac d2))"
    using sp by (auto dest: globals_okD buf_ok_str)
  ultimately have "rtc_report flags d2 = Inl OutOfBounds"
    by (simp add: rtc_report_def add_buf_def cJSON_AddStringToObject_def)
  with y s \<open>upd\<close> same show ?thesis by (simp add: rtc_turn_def)
qed

theorem rtc_turn_out_of_bounds_witness: "rtc_turn 0 rtc_start ex_rtc_device = Inl OutOfBounds"
proof (rule rtc_turn_out_of_bounds [where i = 2 and j = 0 and k = 0])
  show "thread_state rtc_start" by (rule thread_state.start)
  show "\<forall>j < 5. \<not> (fires ex_rtc_device (task_at ex_rtc_device 0 j) \<and> t_repeat (task_at ex_rtc_device 0 j) = 0)"
    using ex_rtc_fires(3) by (fastforce simp: fires_def)
qed (simp_all add: ex_rtc_device_ok ex_rtc_weekday ex_rtc_fires)

end
