(* ===== verification/AppMain.thy ===== *)
theory AppMain
  imports Httpd_Props Key Rtc
begin

text \<open>
  Start-up, \<open>src/app_main.c\<close>: the pin table, the stored device type with its checksum and the
  AT command that reads and writes it, the handler of system events, the installation of the
  button (\<open>key_init\<close> of \<open>src/user_gpio.c\<close>) and \<open>app_main\<close> itself.

  The SDK keeps the stored bytes (\<open>hffile_userbin_read\<close>, \<open>hffile_userbin_write\<close>); they are
  parameters of the commands, \<open>rd\<close> and \<open>wr\<close> on a file of any type.
\<close>

section \<open>The pin table\<close>

text \<open>Capabilities and pins of the module, as the table of the firmware refers to them.\<close>

definition F_GPIO :: u32 where "F_GPIO = 0x30000"
definition F_IT :: u32 where "F_IT = 0x810000"
definition F_PWM :: u32 where "F_PWM = 0x1000000"
definition F_ADC :: u32 where "F_ADC = 0x2000000"

definition LPx30_GPIO1 :: u32 where "LPx30_GPIO1 = F_GPIO OR F_IT OR 21"
definition LPx30_GPIO2 :: u32 where "LPx30_GPIO2 = F_GPIO OR F_IT OR 22"
definition LPx30_GPIO3 :: u32 where "LPx30_GPIO3 = F_GPIO OR F_IT OR F_PWM OR 23"
definition LPx30_GPIO5 :: u32 where "LPx30_GPIO5 = F_GPIO OR F_IT OR 14"
definition LPx30_GPIO7 :: u32 where "LPx30_GPIO7 = F_GPIO OR F_IT OR 12"
definition LPx30_GPIO8 :: u32 where "LPx30_GPIO8 = F_GPIO OR F_IT OR F_ADC OR 13"
definition LPx30_GPIO22 :: u32 where "LPx30_GPIO22 = F_GPIO OR F_IT OR F_PWM OR 34"
definition LPx30_GPIO23 :: u32 where "LPx30_GPIO23 = F_GPIO OR F_IT OR F_PWM OR 33"
definition LPx30_GPIO24 :: u32 where "LPx30_GPIO24 = F_GPIO OR F_IT OR F_PWM OR 32"
definition LPx30_GPIO25 :: u32 where "LPx30_GPIO25 = F_GPIO OR F_IT OR F_PWM OR 31"
definition LPx30_GPADC0 :: u32 where "LPx30_GPADC0 = F_GPIO OR F_IT OR F_ADC OR 11"
definition HFM_NOPIN :: u32 where "HFM_NOPIN = 0"

definition hf_gpio_fid_to_pid_map_table :: "u32 list" where
  "hf_gpio_fid_to_pid_map_table =
     replicate 6 HFM_NOPIN @ [LPx30_GPIO2, HFM_NOPIN, LPx30_GPIO1, HFM_NOPIN]
     @ replicate 4 HFM_NOPIN @ replicate 4 HFM_NOPIN @ replicate 5 HFM_NOPIN @ replicate 6 HFM_NOPIN
     @ [LPx30_GPIO22, LPx30_GPIO24, LPx30_GPIO8, LPx30_GPIO23, LPx30_GPADC0, LPx30_GPIO3,
        LPx30_GPIO5, LPx30_GPIO25, LPx30_GPIO7]"

section \<open>The stored device type\<close>

definition checksum :: "string \<Rightarrow> u8" where
  "checksum p = sum_list (map char_u8 p)"

text \<open>On the 21 bytes that were read: \<open>None\<close> is the return value -1.\<close>

definition dev_param_read :: "string \<Rightarrow> string option res" where
  "dev_param_read type =
     (if char_u8 (type ! 0) = 0x5A
      then rbind (buf_str (drop 2 type)) (\<lambda>p.
           if 18 < length p then Inr None
           else if char_u8 (type ! 1) = checksum p then Inr (Some p) else Inr None)
      else Inr None)"

text \<open>The 21 bytes that are written; \<open>junk\<close> is what the uninitialised array held.\<close>

definition dev_param_write :: "string \<Rightarrow> string \<Rightarrow> string res" where
  "dev_param_write junk wechat_type =
     rbind (strcpy_buf (drop 2 junk) wechat_type) (\<lambda>rest.
       Inr (u8_char 0x5A # u8_char (checksum wechat_type) # rest))"

text \<open>The return value, the text written to \<open>rsp\<close> if any, and the file.\<close>

definition hf_atcmd_set_type ::
  "('f \<Rightarrow> string) \<Rightarrow> (string \<Rightarrow> 'f \<Rightarrow> 'f) \<Rightarrow> string \<Rightarrow> string list \<Rightarrow> 'f \<Rightarrow> (int \<times> string option \<times> 'f) res"
where
  "hf_atcmd_set_type rd wr junk argv f =
     (case argv of
        [] \<Rightarrow> rbind (dev_param_read (rd f)) (\<lambda>t. Inr (0, Some (''='' @ (case t of None \<Rightarrow> [] | Some s \<Rightarrow> s)), f))
      | [a] \<Rightarrow> if length a < 18
               then rbind (dev_param_write junk a) (\<lambda>bytes. Inr (0, None, wr bytes f))
               else Inr (- 4, None, f)
      | _ \<Rightarrow> Inr (- 3, None, f))"

definition hf_cmd_get_version :: "string \<Rightarrow> string \<Rightarrow> string list \<Rightarrow> int \<times> string option" where
  "hf_cmd_get_version date time argv =
     (if argv = [] then (0, Some (''=Airkiss 2('' @ date @ '' '' @ time @ '')'')) else (- 3, None))"

section \<open>System events\<close>

datatype event =
    HFE_WIFI_STA_CONNECTED
  | HFE_WIFI_STA_DISCONNECTED
  | HFE_CONFIG_RELOAD
  | HFE_DHCP_OK u32
  | HFE_SMTLK_OK "string option"
  | HFE_WPS_OK string
  | HFE_OTHER

text \<open>The library's dotted quad of an address in network byte order.\<close>

definition inet_ntoa :: "u32 \<Rightarrow> string" where
  "inet_ntoa a =
     dec_nat (unat a mod 256) @ ''.'' @ dec_nat (unat a div 256 mod 256) @ ''.''
     @ dec_nat (unat a div 65536 mod 256) @ ''.'' @ dec_nat (unat a div 16777216)"

text \<open>What is only printed for debugging is left out.\<close>

definition sys_event_callback :: "event \<Rightarrow> device \<Rightarrow> (int \<times> device) res" where
  "sys_event_callback e d =
     (case e of
        HFE_DHCP_OK ip \<Rightarrow> rbind (strcpy_buf (strIp d) (inet_ntoa ip)) (\<lambda>b. Inr (0, d\<lparr>strIp := b\<rparr>))
      | HFE_SMTLK_OK pwd \<Rightarrow> Inr (1, d)
      | _ \<Rightarrow> Inr (0, d))"

section \<open>Start-up\<close>

text \<open>
  What the SDK answers during start-up: whether the pin table is accepted, the stored bytes,
  whether the mutex and the interrupt could be set up, and the MAC address.
\<close>

record boot =
  fmap_ok :: bool
  userbin :: string
  mutex_ok :: bool
  irq_ok :: bool
  mac_address :: string

text \<open>A timer that cannot be created is only reported.\<close>

definition key_init :: "boot \<Rightarrow> device \<Rightarrow> device res" where
  "key_init b d = (if \<not> mutex_ok b \<or> \<not> irq_ok b then Inr d else appRestoreDefault d)"

text \<open>
  \<open>None\<close> is the endless loop that reports a bad pin table.  Creating the threads and timers
  has no effect of its own; what they do is in their theories.  The two loops that wait for
  SmartLink and for the network are taken to end, and only the announcement of \<open>Mdns\<close> follows
  the second.
\<close>

definition app_main :: "boot \<Rightarrow> device \<Rightarrow> (httpd_pages \<times> device) res option" where
  "app_main b d =
     (if \<not> fmap_ok b then None
      else Some (
        rbind (dev_param_read (userbin b)) (\<lambda>wechat_type.
        rbind (key_init b (set_pin LED True d)) (\<lambda>d1.
        rbind (strcpy_buf (strMac d1) (mac_address b)) (\<lambda>mac.
          Inr (httpd_init, set_pin LED False (d1\<lparr>strMac := mac\<rparr>)))))))"

section \<open>The device type survives\<close>

lemma write_read:
  assumes "length junk = 21" "length t \<le> 18" "NUL \<notin> set t"
  shows "\<exists>b. dev_param_write junk t = Inr b \<and> length b = 21 \<and> dev_param_read b = Inr (Some t)"
proof -
  have "strcpy_buf (drop 2 junk) t = Inr (t @ NUL # drop (length t + 1) (drop 2 junk))"
    using assms by (simp add: strcpy_buf_def)
  then show ?thesis using assms by (simp add: dev_param_write_def dev_param_read_def buf_str_def)
qed

text \<open>
  The AT command stores what it is given: if reading gives back the bytes last written, a
  type of fewer than 18 characters is accepted whatever garbage the buffer held, and the next
  query answers with exactly that type; a longer one is refused and nothing is written.
\<close>

theorem at_type_roundtrip:
  assumes "\<And>b f. length b = 21 \<Longrightarrow> rd (wr b f) = b" "length junk = 21" "NUL \<notin> set t"
  shows "(if length t < 18
          then \<exists>f'. hf_atcmd_set_type rd wr junk [t] f = Inr (0, None, f')
                    \<and> hf_atcmd_set_type rd wr junk [] f' = Inr (0, Some (''='' @ t), f')
          else hf_atcmd_set_type rd wr junk [t] f = Inr (- 4, None, f))"
  using write_read [of junk t] assms by (auto simp: hf_atcmd_set_type_def)

theorem at_type_roundtrip_witness:
  "\<exists>f'. hf_atcmd_set_type id (\<lambda>b _. b) (replicate 21 (CHR ''x'')) [''gh_box''] [] = Inr (0, None, f')
      \<and> hf_atcmd_set_type id (\<lambda>b _. b) (replicate 21 (CHR ''x'')) [] f' = Inr (0, Some ''=gh_box'', f')"
  using at_type_roundtrip [of id "\<lambda>b _. b" "replicate 21 (CHR ''x'')" "''gh_box''" "[]"] by simp

text \<open>
  A damaged type is never reported: if one byte of the stored text was changed to another
  byte that is not NUL, the checksum no longer fits and the read fails.
\<close>

theorem checksum_detects:
  assumes "length junk = 21" "NUL \<notin> set t" "dev_param_write junk t = Inr b"
    and "i < length t" "c \<noteq> t ! i" "c \<noteq> NUL"
  shows "dev_param_read (b[i + 2 := c]) = Inr None"
proof -
  have len: "length t + 1 \<le> 19" and b: "b = u8_char 0x5A # u8_char (checksum t) # t @ NUL # drop (length t + 1) (drop 2 junk)"
    using assms(1,3) by (auto simp: dev_param_write_def strcpy_buf_def split: if_splits)
  let ?t = "t[i := c]"
  have upd: "drop 2 (b[i + 2 := c]) = ?t @ NUL # drop (length t + 1) (drop 2 junk)"
    using assms(4) by (simp add: b list_update_append)
  have nul: "NUL \<notin> set ?t" using assms(2,6) by (auto dest: set_update_subset_insert [THEN subsetD])
  have "char_u8 c \<noteq> char_u8 (t ! i)" using assms(5) by (metis u8_char_u8)
  moreover have "t = take i t @ t ! i # drop (Suc i) t" using assms(4) by (rule id_take_nth_drop)
  then have "checksum t = checksum (take i t) + char_u8 (t ! i) + checksum (drop (Suc i) t)"
    by (metis (no_types, lifting) add.assoc checksum_def list.map(2) map_append sum_list.Cons sum_list_append)
  moreover have "checksum ?t = checksum (take i t) + char_u8 c + checksum (drop (Suc i) t)"
    using assms(4) by (simp add: upd_conv_take_nth_drop checksum_def)
  ultimately have "checksum t \<noteq> checksum ?t" by simp
  then show ?thesis using upd nul len
    by (simp add: dev_param_read_def b buf_str_def)
qed

theorem checksum_detects_witness:
  "\<exists>b. dev_param_write (replicate 21 NUL) ''gh'' = Inr b \<and> dev_param_read (b[3 := CHR ''H'']) = Inr None"
proof -
  from write_read [of "replicate 21 NUL" "''gh''"] obtain b where
    b: "dev_param_write (replicate 21 NUL) ''gh'' = Inr b" by auto
  from checksum_detects [OF _ _ b, of 1 "CHR ''H''"] b show ?thesis by (auto simp: numeral_3_eq_3)
qed

section \<open>Events\<close>

lemma length_inet_ntoa: "length (inet_ntoa a) \<le> 15"
proof -
  have l: "length (dec_nat n) \<le> 3" if "n < 256" for n
    by (rule length_dec_nat_le) (use that in simp_all)
  have "unat a < 2 ^ 32" using unsigned_less [of a, where ?'a = nat] by simp
  then have "unat a div 16777216 < 256" by (simp add: less_mult_imp_div_less)
  then show ?thesis
    using l [of "unat a mod 256"] l [of "unat a div 256 mod 256"] l [of "unat a div 65536 mod 256"]
      l [of "unat a div 16777216"] by (simp add: inet_ntoa_def)
qed

lemma NUL_inet_ntoa: "NUL \<notin> set (inet_ntoa a)"
  by (simp add: inet_ntoa_def)

lemma healthy_strIp: "healthy d \<Longrightarrow> buf_ok 32 b \<Longrightarrow> healthy (d\<lparr>strIp := b\<rparr>)"
  by (simp add: healthy_def globals_ok_def relays_agree_def driven_def plug_on_def queue_ok_def)

lemma healthy_strMac: "healthy d \<Longrightarrow> buf_ok 13 b \<Longrightarrow> healthy (d\<lparr>strMac := b\<rparr>)"
  by (simp add: healthy_def globals_ok_def relays_agree_def driven_def plug_on_def queue_ok_def)

lemma healthy_LED: "healthy d \<Longrightarrow> healthy (set_pin LED b d)"
  by (simp add: healthy_def queue_ok_def queue_now_def set_pin_def emit_def globals_ok_def
      relays_agree_def driven_def plug_on_def relay_not_LED)

lemma driven_LED: "i < PLUG_NUM \<Longrightarrow> driven (relay ! i) (set_pin LED b d) = driven (relay ! i) d"
  by (simp add: driven_def relay_not_LED)

text \<open>
  No system event can overrun a buffer: every event returns on a healthy device and keeps
  it healthy; an address from DHCP is afterwards the dotted quad in \<open>strIp\<close>, and every other
  event leaves the device as it was.
\<close>

theorem events_safe:
  assumes "healthy d"
  shows "\<exists>r d'. sys_event_callback e d = Inr (r, d') \<and> healthy d'
    \<and> (case e of HFE_DHCP_OK ip \<Rightarrow> buf_str (strIp d') = Inr (inet_ntoa ip) | _ \<Rightarrow> d' = d)"
proof (cases e)
  case (HFE_DHCP_OK ip)
  have l: "length (strIp d) = 32" using assms by (simp add: healthy_def globals_ok_def buf_ok_def)
  then obtain b where b: "strcpy_buf (strIp d) (inet_ntoa ip) = Inr b"
    using length_inet_ntoa [of ip] by (simp add: strcpy_buf_def)
  then have "buf_ok 32 b" using l length_strcpy_buf NUL_in_strcpy_buf by (auto simp: buf_ok_def)
  then show ?thesis using assms b buf_str_strcpy [OF b NUL_inet_ntoa]
    by (simp add: sys_event_callback_def HFE_DHCP_OK healthy_strIp)
qed (use assms in \<open>simp_all add: sys_event_callback_def\<close>)

theorem events_safe_witness:
  "\<exists>d'. sys_event_callback (HFE_DHCP_OK 0x0100A8C0) (zero_device (\<lambda>_. 0) (\<lambda>_. None)) = Inr (0, d')
     \<and> buf_str (strIp d') = Inr ''192.168.0.1''"
proof -
  have "dec_nat 192 = ''192''" "dec_nat 168 = ''168''" "dec_nat 0 = ''0''" "dec_nat 1 = ''1''"
    by code_simp+
  then have "inet_ntoa 0x0100A8C0 = ''192.168.0.1''" by (simp add: inet_ntoa_def)
  with events_safe [OF healthy_zero, of "HFE_DHCP_OK 0x0100A8C0" "\<lambda>_. 0" "\<lambda>_. None"]
  show ?thesis by (auto simp: sys_event_callback_def)
qed

section \<open>The device after start-up\<close>

lemma plug_fold_default:
  assumes "length (plug c) = PLUG_NUM" "n \<le> PLUG_NUM" "k < PLUG_NUM"
  shows "plug (fold (\<lambda>i. upd_plug i (g i)) [0..<n] c) ! k = (if k < n then g k (plug c ! k) else plug c ! k)
       \<and> length (plug (fold (\<lambda>i. upd_plug i (g i)) [0..<n] c)) = PLUG_NUM"
  using assms(2)
proof (induction n)
  case (Suc n)
  then show ?case using assms(1,3) by (cases "k = n") simp_all
qed (use assms in simp)

lemma restore_default:
  assumes "globals_ok d" "appRestoreDefault d = Inr d'" "k < PLUG_NUM"
  shows "plug (u_config d') ! k = default_plug k (plug (u_config d) ! k)"
    and "user_defaultconfig d' = u_config d'" and "buf_str (deviceid d') = Inr ''TC1''"
    and "io d' = io d" and "strMac d' = strMac d" and "udp_msgq d' = udp_msgq d"
proof -
  obtain did where did: "strcpy_buf (deviceid d) ''TC1'' = Inr did"
    using assms(2) by (auto simp: appRestoreDefault_def)
  then show "plug (u_config d') ! k = default_plug k (plug (u_config d) ! k)"
    "user_defaultconfig d' = u_config d'" "io d' = io d" "strMac d' = strMac d" "udp_msgq d' = udp_msgq d"
    using assms plug_fold_default [of _ PLUG_NUM k default_plug]
    by (auto simp: appRestoreDefault_def Let_def globals_ok_def config_ok_def)
  show "buf_str (deviceid d') = Inr ''TC1''"
    using assms(2) did buf_str_strcpy [OF did] by (auto simp: appRestoreDefault_def Let_def)
qed

lemma restore_default_healthy:
  assumes "healthy d" "\<forall>i < PLUG_NUM. \<not> driven (relay ! i) d"
  shows "\<exists>d'. appRestoreDefault d = Inr d' \<and> healthy d' \<and> (\<forall>i < PLUG_NUM. plug_on d' i = 0)"
proof -
  have g: "globals_ok d" using assms(1) by (simp add: healthy_def)
  obtain d' where d': "appRestoreDefault d = Inr d'" "globals_ok d'"
    using appRestoreDefault_ok [OF g] by blast
  note r = restore_default [OF g d'(1)]
  have "plug_on d' i = 0" if "i < PLUG_NUM" for i
    using r(1) [OF that] by (simp add: plug_on_def default_plug_def)
  moreover have "PLUG_NUM > 0" by (simp add: PLUG_NUM_def)
  ultimately show ?thesis using d' assms r(2,4,6)
    by (auto simp: healthy_def relays_agree_def driven_def plug_on_def queue_ok_def)
qed

text \<open>
  C8. A device that starts up is ready: if the SDK accepts the pin table and sets up the button,
  the stored type can be read without leaving its buffer, and the MAC address has at most
  twelve characters, \<open>app_main\<close> returns with a healthy device, all plugs off and named, the
  name \<open>TC1\<close>, the MAC address in place, the LED off and the three pages registered.
\<close>

theorem boot_ready:
  assumes "fmap_ok b" "mutex_ok b" "irq_ok b" "dev_param_read (userbin b) = Inr t"
    and "length (mac_address b) \<le> 12" "NUL \<notin> set (mac_address b)"
  shows "\<exists>d. app_main b (zero_device ps nq) = Some (Inr (httpd_init, d)) \<and> healthy d
    \<and> (\<forall>i < PLUG_NUM. plug_on d i = 0 \<and> buf_str (p_name (plug (u_config d) ! i)) = Inr (butlast (default_name i)))
    \<and> buf_str (deviceid d) = Inr ''TC1'' \<and> buf_str (strMac d) = Inr (mac_address b)
    \<and> pin_level LED (io d) = Some False"
proof -
  let ?z = "set_pin LED True (zero_device ps nq)"
  have z: "healthy ?z" by (rule healthy_LED) simp
  then have g: "globals_ok ?z" by (simp add: healthy_def)
  have "\<forall>i < PLUG_NUM. \<not> driven (relay ! i) ?z" 
    by (simp add: driven_LED) (simp add: driven_def zero_device_def)
  then obtain d1 where d1: "appRestoreDefault ?z = Inr d1" "healthy d1" "\<forall>i < PLUG_NUM. plug_on d1 i = 0"
    using restore_default_healthy [OF z] by blast
  note r = restore_default [OF g d1(1)]
  have l: "length (strMac d1) = 13" using d1(2) by (simp add: healthy_def globals_ok_def buf_ok_def)
  then obtain m where m: "strcpy_buf (strMac d1) (mac_address b) = Inr m"
    using assms(5) by (simp add: strcpy_buf_def)
  then have mok: "buf_ok 13 m" using l length_strcpy_buf NUL_in_strcpy_buf by (auto simp: buf_ok_def)
  let ?d = "set_pin LED False (d1\<lparr>strMac := m\<rparr>)"
  have "app_main b (zero_device ps nq) = Some (Inr (httpd_init, ?d))"
    using assms(1-4) d1(1) m by (simp add: app_main_def key_init_def)
  moreover have "healthy ?d" using d1(2) mok by (simp add: healthy_LED healthy_strMac)
  moreover have "buf_str (p_name (plug (u_config ?d) ! i)) = Inr (butlast (default_name i))" if "i < PLUG_NUM" for i
  proof -
    have "code (char_of (i + 49)) = i + 49" using that by (simp add: PLUG_NUM_def)
    then have "char_of (i + 49) \<noteq> NUL" by (metis add_is_0 code_NUL_iff zero_neq_numeral)
    then show ?thesis using r(1) [OF that]
      by (simp add: default_plug_def default_name_def buf_str_def cstr_def)
  qed
  moreover have "buf_str (deviceid ?d) = Inr ''TC1''" using r(3) [of 0] by (simp add: PLUG_NUM_def)
  moreover have "buf_str (strMac ?d) = Inr (mac_address b)" using buf_str_strcpy [OF m assms(6)] by simp
  moreover have "plug_on ?d i = 0" if "i < PLUG_NUM" for i using d1(3) that by (simp add: plug_on_def)
  ultimately show ?thesis by (intro exI [of _ ?d]) (simp add: pin_ids)
qed

theorem boot_ready_witness:
  "\<exists>d. app_main \<lparr>fmap_ok = True, userbin = replicate 21 NUL, mutex_ok = True, irq_ok = True,
      mac_address = ''D0BAE4638A1F''\<rparr> (zero_device (\<lambda>_. 1) (\<lambda>_. None)) = Some (Inr (httpd_init, d))
    \<and> buf_str (p_name (plug (u_config d) ! 5)) = Inr (butlast (default_name 5))
    \<and> buf_str (strMac d) = Inr ''D0BAE4638A1F''"
  using boot_ready [of "\<lparr>fmap_ok = True, userbin = replicate 21 NUL, mutex_ok = True, irq_ok = True,
      mac_address = ''D0BAE4638A1F''\<rparr>" None "\<lambda>_. 1" "\<lambda>_. None"]
  by (auto simp: dev_param_read_def char_u8_def PLUG_NUM_def)

end
