(* ===== verification/Udp_Thread.thy ===== *)
theory Udp_Thread
  imports Function_Props
begin

text \<open>
  The loop of \<open>udp_thread\<close> in \<open>src/user_udp.c\<close>: one turn receives at most one datagram, runs
  it as a command, echoes it, and sends at most one queued message.

  What the sockets and the queue answer is the input of a turn: \<open>Nothing\<close>, an error
  (\<open>recvfrom\<close> returns -1), or a datagram; and the message \<open>hfmsgq_recv\<close> hands over, if any.
  The local array \<open>buf\<close> lives as long as the thread, so it is passed from turn to turn with
  whatever the last datagram left in it.

  The code computes a timeout of 0.2 seconds and then hands \<open>select\<close> a NULL pointer instead of
  it, so a turn begins when a datagram has arrived (\<open>Nothing\<close> is a \<open>select\<close> that returns with
  an error), and a queued message waits for the next datagram.
\<close>

datatype arrival = Nothing | RecvError | Datagram string

definition UDP_BUF_SIZE :: nat where "UDP_BUF_SIZE = 512"
definition UDP_RECV_SIZE :: nat where "UDP_RECV_SIZE = 1024"

text \<open>
  \<open>recvfrom(udp_fd, buf, 1024, 0, ...)\<close>: the returned length, and the array after at most 1024
  bytes of the datagram were written to its front.
\<close>

definition recv_into :: "string \<Rightarrow> arrival \<Rightarrow> (int \<times> string) res" where
  "recv_into buf a =
     (case a of
        Datagram bytes \<Rightarrow>
          (let got = take UDP_RECV_SIZE bytes
           in if length buf < length got then Inl BufferOverflow
              else Inr (int (length got), got @ drop (length got) buf))
      | _ \<Rightarrow> Inr (- 1, buf))"

text \<open>\<open>if(len<1024) buf[len]=0\<close>.\<close>

definition terminate_buf :: "int \<Rightarrow> string \<Rightarrow> string res" where
  "terminate_buf len buf =
     (if len < int UDP_RECV_SIZE
      then if len < 0 \<or> length buf \<le> nat len then Inl OutOfBounds else Inr (buf[nat len := NUL])
      else Inr buf)"

definition udp_receive :: "string \<Rightarrow> arrival \<Rightarrow> device \<Rightarrow> (string \<times> device) res" where
  "udp_receive buf a d =
     (if a = Nothing then Inr (buf, d)
      else rbind (recv_into buf a) (\<lambda>(len, buf1).
           rbind (terminate_buf len buf1) (\<lambda>buf2.
           rbind (buf_str buf2) (\<lambda>text.
           rbind (user_function_cmd_received 1 text d) (\<lambda>d1.
             Inr (buf2, emit (Reply (take (nat len) buf2)) d1))))))"

definition udp_send_queued :: "string option \<Rightarrow> device \<Rightarrow> device" where
  "udp_send_queued msg d =
     (let d1 = emit (QueueRecv (udp_msgq d)) d
      in case msg of None \<Rightarrow> d1 | Some s \<Rightarrow> udp_msg_send s d1)"

definition udp_thread_turn ::
  "string \<Rightarrow> arrival \<Rightarrow> string option \<Rightarrow> device \<Rightarrow> (string \<times> device) res" where
  "udp_thread_turn buf a msg d =
     rbind (udp_receive buf a d) (\<lambda>(buf1, d1). Inr (buf1, udp_send_queued msg d1))"

section \<open>What a turn does\<close>

lemma cstr_front: "cstr (bytes @ NUL # rest) = cstr bytes"
  by (induction bytes) (auto simp: cstr_def)

lemma udp_receive_datagram:
  assumes "length bytes < length buf" "length bytes < UDP_RECV_SIZE"
  shows "udp_receive buf (Datagram bytes) d =
     rbind (user_function_cmd_received 1 (cstr bytes) d) (\<lambda>d1.
       Inr (bytes @ NUL # drop (Suc (length bytes)) buf, emit (Reply bytes) d1))"
proof -
  let ?b = "bytes @ NUL # drop (Suc (length bytes)) buf"
  have "drop (length bytes) buf \<noteq> []" using assms(1) by simp
  then have u: "(bytes @ drop (length bytes) buf)[length bytes := NUL] = ?b"
    by (cases "drop (length bytes) buf") (simp_all add: list_update_append drop_Suc tl_drop [symmetric])
  have t: "terminate_buf (int (length bytes)) (bytes @ drop (length bytes) buf) = Inr ?b"
    using assms u by (simp add: terminate_buf_def)
  have "buf_str ?b = Inr (cstr bytes)" by (simp add: buf_str_def cstr_front)
  then show ?thesis using assms t by (simp add: udp_receive_def recv_into_def Let_def)
qed

lemma healthy_emit:
  "(\<And>i. i < PLUG_NUM \<Longrightarrow> pin_of (relay ! i) e = None) \<Longrightarrow>
   (\<And>h. queue_step (Some h) e = Some h) \<Longrightarrow> healthy d \<Longrightarrow> healthy (emit e d)"
  by (simp add: healthy_def)

lemma healthy_send_queued: "healthy d \<Longrightarrow> healthy (udp_send_queued msg d)"
  by (auto simp: udp_send_queued_def udp_msg_send_def Let_def healthy_def queue_ok_def
      split: option.splits)

lemma udp_receive_cases:
  assumes "udp_receive buf a d = Inr (buf', d')"
  obtains "buf' = buf" "d' = d"
    | s d1 bytes where "user_function_cmd_received 1 s d = Inr d1" "d' = emit (Reply bytes) d1"
  using assms by (auto simp: udp_receive_def split: if_splits prod.splits)

lemma healthy_udp_receive: "udp_receive buf a d = Inr (buf', d') \<Longrightarrow> healthy d \<Longrightarrow> healthy d'"
  by (erule udp_receive_cases) (auto intro!: healthy_emit dest: health.cmd_received)

lemma healthy_turn: "udp_thread_turn buf a msg d = Inr (buf', d') \<Longrightarrow> healthy d \<Longrightarrow> healthy d'"
  by (auto simp: udp_thread_turn_def healthy_send_queued dest: healthy_udp_receive)

lemma udp_receive_length: "udp_receive buf a d = Inr (buf', d') \<Longrightarrow> length buf' = length buf"
  by (auto simp: udp_receive_def recv_into_def terminate_buf_def Let_def
      split: if_splits arrival.splits)

section \<open>A session without the buffer\<close>

text \<open>
  What the thread promises, without its buffer: each datagram of up to 511 bytes is a command
  of its own.
\<close>

definition serve :: "arrival \<times> string option \<Rightarrow> device \<Rightarrow> device res" where
  "serve am d =
     rmap (udp_send_queued (snd am))
       (case fst am of
          Nothing \<Rightarrow> Inr d
        | RecvError \<Rightarrow> Inl OutOfBounds
        | Datagram bytes \<Rightarrow>
            if length bytes < 512
            then rmap (emit (Reply bytes)) (user_function_cmd_received 1 (cstr bytes) d)
            else if length bytes = 512 then Inl OutOfBounds else Inl BufferOverflow)"

definition udp_session ::
  "(arrival \<times> string option) list \<Rightarrow> string \<times> device \<Rightarrow> (string \<times> device) res" where
  "udp_session = foldM (\<lambda>(a, msg) (buf, d). udp_thread_turn buf a msg d)"

lemma turn_serves:
  assumes "length buf = 512"
  shows "rmap snd (udp_thread_turn buf a msg d) = serve (a, msg) d"
proof (cases a)
  case Nothing
  then show ?thesis by (simp add: udp_thread_turn_def udp_receive_def serve_def)
next
  case RecvError
  then show ?thesis
    by (simp add: udp_thread_turn_def udp_receive_def recv_into_def terminate_buf_def serve_def UDP_RECV_SIZE_def)
next
  case (Datagram bytes)
  consider "length bytes < 512" | "length bytes = 512" | "512 < length bytes" by linarith
  then show ?thesis
  proof cases
    case 1
    then show ?thesis using assms udp_receive_datagram [of bytes buf d]
      by (cases "user_function_cmd_received 1 (cstr bytes) d")
         (simp_all add: Datagram udp_thread_turn_def serve_def UDP_RECV_SIZE_def)
  next
    case 2
    then show ?thesis using assms
      by (simp add: Datagram udp_thread_turn_def udp_receive_def recv_into_def terminate_buf_def
          serve_def UDP_RECV_SIZE_def Let_def)
  next
    case 3
    then show ?thesis using assms
      by (simp add: Datagram udp_thread_turn_def udp_receive_def recv_into_def serve_def
          UDP_RECV_SIZE_def Let_def)
  qed
qed

lemma turn_length: "udp_thread_turn buf a msg d = Inr (buf', d') \<Longrightarrow> length buf' = length buf"
  by (auto simp: udp_thread_turn_def dest: udp_receive_length)

text \<open>
  C32. Nothing of one datagram leaks into the next command: over any sequence of turns, from any
  contents of the receive buffer, the thread behaves as if each datagram of up to 511 bytes were
  handed to the interpreter alone, cut at its first NUL, and echoed to its sender byte by byte.
  It is the datagram that ends the sequence that can do harm: one of 512 bytes is terminated
  behind the buffer, a longer one written behind it (\<open>recvfrom\<close> is given twice its size), and
  after a receive error the terminator goes in front of it.
\<close>

theorem udp_session_serves:
  assumes "length buf = 512"
  shows "rmap snd (udp_session ts (buf, d)) = foldM serve ts d"
  using assms
proof (induction ts arbitrary: buf d)
  case (Cons t ts)
  obtain a msg where t: "t = (a, msg)" by (cases t)
  note s = turn_serves [OF Cons.prems, of a msg d]
  show ?case
  proof (cases "udp_thread_turn buf a msg d")
    case (Inr r)
    obtain buf1 d1 where r: "r = (buf1, d1)" by (cases r)
    have "length buf1 = 512" using turn_length Inr Cons.prems by (simp add: r)
    moreover have "serve (a, msg) d = Inr d1" using s by (simp add: Inr r)
    ultimately show ?thesis using Cons.IH [of buf1 d1] by (simp add: udp_session_def t Inr r)
  next
    case (Inl u)
    then have "serve (a, msg) d = Inl u" using s by simp
    with Inl show ?thesis by (simp add: udp_session_def t)
  qed
qed (simp add: udp_session_def)

lemma hello_ignored: "user_function_cmd_received 1 ''hello'' d = Inr d"
proof -
  have "cJSON_Parse Unlimited ''hello'' = Inr None" by code_simp
  then show ?thesis by (simp add: user_function_cmd_received_def)
qed

lemma hi_ignored: "user_function_cmd_received 1 ''hi'' d = Inr d"
proof -
  have "cJSON_Parse Unlimited ''hi'' = Inr None" by code_simp
  then show ?thesis by (simp add: user_function_cmd_received_def)
qed

theorem udp_session_serves_witness:
  "\<exists>buf d. udp_session [(Datagram ''hello'', None), (Datagram ''hi'', None)] (replicate 512 (CHR ''x''), ex_device)
      = Inr (buf, d)
    \<and> io d = [Reply ''hello'', QueueRecv None, Reply ''hi'', QueueRecv None]"
proof -
  have "rmap snd (udp_session [(Datagram ''hello'', None), (Datagram ''hi'', None)] (replicate 512 (CHR ''x''), ex_device))
      = Inr (udp_send_queued None (emit (Reply ''hi'') (udp_send_queued None (emit (Reply ''hello'') ex_device))))"
    by (subst udp_session_serves) (simp_all add: serve_def hello_ignored hi_ignored)
  then show ?thesis
    by (auto simp: rmap_eq_Inr udp_send_queued_def Let_def ex_device_def zero_device_def)
qed

section \<open>The queue\<close>

text \<open>
  The messages in a queue after a log: a queue is empty when it is created, and hands its
  messages over in the order they were put in.
\<close>

fun queue_io :: "nat option \<Rightarrow> io \<Rightarrow> string list \<Rightarrow> string list" where
  "queue_io h (QueueCreate g) q = (if g = h then [] else q)"
| "queue_io h (QueueSend g s) q = (if g = h then q @ [s] else q)"
| "queue_io h (QueueRecv g) q = (if g = h then tl q else q)"
| "queue_io h e q = q"

definition waiting :: "nat option \<Rightarrow> io list \<Rightarrow> string list" where
  "waiting h es = (if h = None then [] else fold (queue_io h) es [])"

lemma waiting_snoc [simp]: "waiting h (es @ [e]) = (if h = None then [] else queue_io h e (waiting h es))"
  by (simp add: waiting_def)

text \<open>The message a first-in first-out queue hands to the turn that receives \<open>a\<close>.\<close>

definition handed_over :: "string \<Rightarrow> arrival \<Rightarrow> device \<Rightarrow> string option \<Rightarrow> bool" where
  "handed_over buf a d msg \<longleftrightarrow>
     (\<exists>buf1 d1. udp_receive buf a d = Inr (buf1, d1)
        \<and> msg = (case waiting (udp_msgq d1) (io d1) of [] \<Rightarrow> None | m # _ \<Rightarrow> Some m))"

text \<open>
  The thread never talks to an old queue: a turn that starts with the queue of the last
  send in use polls exactly the queue of the last send, and keeps the device healthy.
\<close>

theorem udp_turn_polls_current:
  assumes "healthy d" and "udp_thread_turn buf a msg d = Inr (buf', d')"
  shows "healthy d' \<and> queue_now (io d') = Some (udp_msgq d')
    \<and> (\<exists>es. io d' = es @ QueueRecv (udp_msgq d') # (case msg of None \<Rightarrow> [] | Some s \<Rightarrow> [Broadcast s]))"
proof -
  have h: "healthy d'" using healthy_turn [OF assms(2,1)] .
  obtain d1 where "d' = udp_send_queued msg d1" using assms(2) by (auto simp: udp_thread_turn_def)
  then have "\<exists>es. io d' = es @ QueueRecv (udp_msgq d') # (case msg of None \<Rightarrow> [] | Some s \<Rightarrow> [Broadcast s])"
    by (auto simp: udp_send_queued_def udp_msg_send_def Let_def split: option.splits)
  with h show ?thesis by (simp add: healthy_def queue_ok_def)
qed

theorem udp_turn_polls_current_witness:
  "\<exists>buf' d'. udp_thread_turn (replicate 512 NUL) (Datagram ''hello'') (Some ''m'') ex_device = Inr (buf', d')
     \<and> healthy d'"
proof -
  obtain buf' d' where "udp_thread_turn (replicate 512 NUL) (Datagram ''hello'') (Some ''m'') ex_device = Inr (buf', d')"
    using udp_receive_datagram [of "''hello''" "replicate 512 NUL" ex_device]
    by (simp add: udp_thread_turn_def UDP_RECV_SIZE_def cstr_def hello_ignored)
  then show ?thesis using udp_turn_polls_current [OF ex_device_healthy] by blast
qed

end
