(* ===== verification/Report.thy ===== *)
theory Report
  imports AppMain CJSON_Roundtrip Udp_Thread
begin

text \<open>
  The answer to the discovery packet \<open>{"cmd":"device report"}\<close>, from the datagram that comes
  in to the broadcast that goes out: it is always made, it fits its buffer, whoever parses it
  finds the name, the addresses and the type of the device in the right members, and the turn
  that received the packet takes it from the queue and broadcasts it.
\<close>

definition report_tree :: "string \<Rightarrow> string \<Rightarrow> string \<Rightarrow> cjson" where
  "report_tree name mac ip =
     CJ cJSON_Object None 0 0 None
       [CJ cJSON_String (Some name) 0 0 (Some ''name'') [],
        CJ cJSON_String (Some mac) 0 0 (Some ''mac'') [],
        CJ cJSON_Number None 1 1 (Some ''type'') [],
        CJ cJSON_String (Some TYPE_NAME) 0 0 (Some ''type_name'') [],
        CJ cJSON_String (Some ip) 0 0 (Some ''ip'') []]"

lemma buf_ok_text: "buf_ok n b \<Longrightarrow> \<exists>s. buf_str b = Inr s \<and> NUL \<notin> set s \<and> length s < n"
  using buf_str_length [of b "cstr b"] buf_str_NUL_free [of b "cstr b"]
  by (auto simp: buf_ok_def buf_str_def)

lemma device_report_tree:
  assumes "buf_str (deviceid d) = Inr name" "buf_str (strMac d) = Inr mac" "buf_str (strIp d) = Inr ip"
  shows "device_report d = Inr (report_tree name mac ip)"
proof -
  have "cJSON_CreateNumber (of_int TC1_TYPE) = Inr (CJ cJSON_Number None 1 1 None [])"
    using CreateNumber_int [of 1] by (simp add: TC1_TYPE_def INT_MIN_def INT_MAX_def)
  then show ?thesis using assms
    by (simp add: device_report_def add_buf_def cJSON_AddStringToObject_def cJSON_AddNumberToObject_def
        cJSON_AddItemToObject_def cJSON_AddItemToArray_def cJSON_CreateObject_def new_item_def
        suffix_object_def set_cchild_def set_cstring_def set_ctype_def report_tree_def)
qed

lemma report_canonical:
  assumes "NUL \<notin> set name" "NUL \<notin> set mac" "NUL \<notin> set ip"
  shows "canonical (report_tree name mac ip)"
  using assms
  by (auto simp: report_tree_def cJSON_types name_ok_def INT_MIN_def INT_MAX_def TYPE_NAME_def)

lemma escape_char_le: "length (escape_char c) \<le> 6"
  by (simp add: escape_char_def hex4_def)

lemma length_string_text: "length (string_text s) \<le> 6 * length s + 2"
proof -
  have "length (concat (map escape_char s)) \<le> 6 * length s"
    by (induction s) (use escape_char_le in \<open>auto intro: add_mono\<close>)
  then show ?thesis by (simp add: string_text_def quoted_def)
qed

lemma report_length:
  assumes "length name < 32" "length mac < 13" "length ip < 32"
  shows "length (render 0 True (report_tree name mac ip)) \<le> MAX_UDP_DATA_SIZE"
proof -
  have n: "length (string_text ''name'') = 6" "length (string_text ''mac'') = 5"
    "length (string_text ''type'') = 6" "length (string_text ''type_name'') = 11"
    "length (string_text ''ip'') = 4" "length (string_text TYPE_NAME) = 6" "render_number 1 1 = ''1''"
    by code_simp+
  have "length (render 0 True (report_tree name mac ip)) =
      66 + length (string_text name) + length (string_text mac) + length (string_text ip)"
    by (simp add: report_tree_def render_simps object_text_def n length_tabs del: render.simps)
  then show ?thesis using assms length_string_text [of name] length_string_text [of mac]
      length_string_text [of ip] by (simp add: MAX_UDP_DATA_SIZE_def)
qed

lemma command_reports:
  assumes "healthy d"
  shows "user_function_cmd_received f report_command d =
    rbind (device_report d) (\<lambda>j. print_and_send f j d)"
proof -
  have "globals_ok d" using assms by (simp add: healthy_def)
  from foreign_command(1) [OF this parse_command] show ?thesis by (simp add: command_texts)
qed

lemma report_sent:
  assumes "healthy d"
  obtains s where
    "cJSON_Parse Unlimited s =
       Inr (Some (report_tree (cstr (deviceid d)) (cstr (strMac d)) (cstr (strIp d))))"
    "user_function_cmd_received f report_command d =
       Inr (emit (QueueSend (new_queue d (queues d)) s) (create_queue d))"
proof -
  have g: "globals_ok d" using assms by (simp add: healthy_def)
  let ?name = "cstr (deviceid d)" and ?mac = "cstr (strMac d)" and ?ip = "cstr (strIp d)"
  have b: "buf_str (deviceid d) = Inr ?name" "buf_str (strMac d) = Inr ?mac" "buf_str (strIp d) = Inr ?ip"
    using globals_okD [OF g] by (auto dest: buf_ok_str)
  have l: "length ?name < 32" "length ?mac < 13" "length ?ip < 32"
    using b [THEN buf_str_length] globals_okD [OF g] by (simp_all add: buf_ok_def)
  let ?t = "report_tree ?name ?mac ?ip" and ?s = "render 0 True (report_tree ?name ?mac ?ip)"
  have c: "canonical ?t" by (rule report_canonical) simp_all
  have "cJSON_Print (Some ?t) Unlimited = Inr (Some ?s, Unlimited)"
    using print_value_text [OF canonical_printable [OF c]] by (simp add: cJSON_Print_def)
  then have "print_and_send f ?t d = Inr (emit (QueueSend (new_queue d (queues d)) ?s) (create_queue d))"
    using report_length [OF l]
    by (simp add: print_and_send_def user_send_def user_udp_send_def Let_def)
  then have "user_function_cmd_received f report_command d =
      Inr (emit (QueueSend (new_queue d (queues d)) ?s) (create_queue d))"
    by (simp add: command_reports [OF assms] device_report_tree [OF b])
  moreover have "cJSON_Parse Unlimited ?s = Inr (Some ?t)"
    using parse_render [OF c] by (simp add: cJSON_Parse_def report_tree_def del: render.simps)
  ultimately show thesis using that by blast
qed

text \<open>
  The turn of the UDP thread that receives the discovery packet does not fail: it queues the
  answer, echoes the packet, gets the answer back from the queue and broadcasts it.
\<close>

lemma report_answered:
  assumes "healthy d" "length buf = 512" "new_queue d (queues d) = Some h"
  shows "\<exists>answer buf' d'.
     cJSON_Parse Unlimited answer =
       Inr (Some (report_tree (cstr (deviceid d)) (cstr (strMac d)) (cstr (strIp d))))
   \<and> (\<forall>msg. handed_over buf (Datagram report_command) d msg \<longleftrightarrow> msg = Some answer)
   \<and> udp_thread_turn buf (Datagram report_command) (Some answer) d = Inr (buf', d')
   \<and> io d' = io d @ [QueueCreate (Some h), QueueSend (Some h) answer, Reply report_command,
                     QueueRecv (Some h), Broadcast answer]"
proof -
  obtain s where
    p: "cJSON_Parse Unlimited s =
       Inr (Some (report_tree (cstr (deviceid d)) (cstr (strMac d)) (cstr (strIp d))))"
    and r: "user_function_cmd_received 1 report_command d =
       Inr (emit (QueueSend (new_queue d (queues d)) s) (create_queue d))"
    using report_sent [OF assms(1)] by blast
  let ?d1 = "emit (Reply report_command) (emit (QueueSend (Some h) s) (create_queue d))"
  let ?buf' = "report_command @ NUL # drop (Suc (length report_command)) buf"
  have "length report_command < 512" "cstr report_command = report_command"
    by (simp_all add: report_command_def cstr_def)
  then have u: "udp_receive buf (Datagram report_command) d = Inr (?buf', ?d1)"
    using r assms(2,3) udp_receive_datagram [of report_command buf d] by (simp add: UDP_RECV_SIZE_def)
  have "io ?d1 = ((io d @ [QueueCreate (Some h)]) @ [QueueSend (Some h) s]) @ [Reply report_command]"
    using assms(3) by simp
  then have "waiting (Some h) (io ?d1) = [s]" by (simp only: waiting_snoc) simp
  moreover have "udp_msgq ?d1 = Some h" using assms(3) by simp
  ultimately have "handed_over buf (Datagram report_command) d msg \<longleftrightarrow> msg = Some s" for msg
    using u by (simp add: handed_over_def)
  moreover have "udp_thread_turn buf (Datagram report_command) (Some s) d =
      Inr (?buf', udp_send_queued (Some s) ?d1)"
    by (simp add: udp_thread_turn_def u)
  moreover have "io (udp_send_queued (Some s) ?d1) = io d @ [QueueCreate (Some h), QueueSend (Some h) s,
      Reply report_command, QueueRecv (Some h), Broadcast s]"
    using assms(3) by (simp add: udp_send_queued_def udp_msg_send_def Let_def)
  ultimately show ?thesis using p by blast
qed

end
