(* ===== verification/Power_Meter.thy ===== *)
theory Power_Meter
  imports Clock
begin

text \<open>
  The power meter of \<open>src/user_power.c\<close>: the metering chip sends a pulse per unit of energy;
  the interrupt handler counts pulses and remembers the time of the first and the last one,
  and the timer handler turns them into a power reading once a second.

  All counters are 32-bit and unsigned; the arithmetic wraps.  A division by zero is the
  fault \<open>DivByZero\<close>.
\<close>

record meter =
  clock_count_last :: u32
  clock_count :: u32
  timer_count :: u32
  timer_irq_count :: u32

definition meter_start :: meter where
  "meter_start = \<lparr>clock_count_last = 0, clock_count = 0, timer_count = 0, timer_irq_count = 0\<rparr>"

text \<open>The time between the first and the last pulse, as the handler scales it.\<close>

definition pulse_time :: "meter \<Rightarrow> u32" where
  "pulse_time p =
     (let timer = clock_count p - clock_count_last p
      in if 3 < timer_count p then timer div 1000 + 4294967
         else if clock_count p < clock_count_last p then (timer + 0xFFFFFFFF) div 1000
         else timer div 1000)"

definition power_timer_handler :: "meter \<times> device \<Rightarrow> (meter \<times> device) res" where
  "power_timer_handler s =
     (case s of (p, d) \<Rightarrow>
        if 1 < timer_irq_count p
        then if pulse_time p = 0 then Inl DivByZero
             else Inr (p\<lparr>timer_count := 0, timer_irq_count := 0\<rparr>,
                       d\<lparr>g_power := 17100000 * (timer_irq_count p - 1) div pulse_time p\<rparr>)
        else Inr (p\<lparr>timer_count := timer_count p + 1\<rparr>, d))"

text \<open>\<open>now\<close> is what \<open>hfsys_get_time\<close> returns, in milliseconds.\<close>

definition power_irq_handler :: "u32 \<Rightarrow> meter \<Rightarrow> meter" where
  "power_irq_handler now p =
     (let p1 = p\<lparr>clock_count := now * 1000\<rparr>;
          p2 = (if timer_irq_count p1 = 0 then p1\<lparr>clock_count_last := clock_count p1\<rparr> else p1)
      in p2\<lparr>timer_irq_count := timer_irq_count p2 + 1\<rparr>)"

definition pulses :: "u32 list \<Rightarrow> meter \<Rightarrow> meter" where
  "pulses ts = fold power_irq_handler ts"

section \<open>A window of pulses\<close>

lemma pulses_later:
  "0 < timer_irq_count p \<Longrightarrow> unat (timer_irq_count p) + length ts < 2 ^ 32 \<Longrightarrow>
   timer_irq_count (pulses ts p) = timer_irq_count p + of_nat (length ts)
   \<and> clock_count_last (pulses ts p) = clock_count_last p
   \<and> timer_count (pulses ts p) = timer_count p
   \<and> clock_count (pulses ts p) = (if ts = [] then clock_count p else last ts * 1000)"
proof (induction ts arbitrary: p)
  case (Cons t ts)
  let ?p = "power_irq_handler t p"
  have n: "timer_irq_count p \<noteq> 0" using Cons.prems by auto
  then have p: "timer_irq_count ?p = timer_irq_count p + 1" "clock_count_last ?p = clock_count_last p"
    "timer_count ?p = timer_count p" "clock_count ?p = t * 1000"
    by (simp_all add: power_irq_handler_def Let_def)
  have u: "unat (timer_irq_count p + 1) = unat (timer_irq_count p) + 1"
    using Cons.prems(2) by (simp add: unat_word_ariths)
  then have "0 < timer_irq_count ?p" using p(1) by (simp add: word_less_nat_alt)
  from Cons.IH [OF this] p u Cons.prems(2) show ?case
    by (simp add: pulses_def algebra_simps)
qed (simp add: pulses_def)

lemma pulses_window:
  assumes "timer_irq_count p = 0" "ts \<noteq> []" "length ts < 2 ^ 32"
  shows "timer_irq_count (pulses ts p) = of_nat (length ts)
   \<and> clock_count_last (pulses ts p) = hd ts * 1000 \<and> timer_count (pulses ts p) = timer_count p
   \<and> clock_count (pulses ts p) = last ts * 1000"
proof -
  obtain t us where ts: "ts = t # us" using assms(2) by (cases ts) auto
  let ?p = "power_irq_handler t p"
  have p: "timer_irq_count ?p = 1" "clock_count_last ?p = t * 1000" "timer_count ?p = timer_count p"
    "clock_count ?p = t * 1000"
    using assms(1) by (simp_all add: power_irq_handler_def Let_def)
  have "pulses ts p = pulses us ?p" by (simp add: ts pulses_def)
  with pulses_later [of ?p us] p assms(3) ts show ?thesis by simp
qed

lemma unat_times_1000:
  "unat (t :: u32) < 4294967 \<Longrightarrow> unat (t * 1000) = unat t * 1000"
  by (simp add: unat_word_ariths)

lemma pulse_time_window:
  assumes "timer_irq_count p = 0" "ts \<noteq> []" "length ts < 2 ^ 32" "timer_count p \<le> 3"
    and "hd ts \<le> last ts" "unat (last ts) < 4294967"
  shows "unat (pulse_time (pulses ts p)) = unat (last ts) - unat (hd ts)"
proof -
  have le: "unat (hd ts) \<le> unat (last ts)" using assms(5) by (simp add: word_le_nat_alt)
  have h: "unat (hd ts * 1000) = unat (hd ts) * 1000" "unat (last ts * 1000) = unat (last ts) * 1000"
    using assms(6) le by (simp_all add: unat_times_1000)
  then have o: "hd ts * 1000 \<le> last ts * 1000" using le by (simp add: word_le_nat_alt)
  have "unat (last ts * 1000 - hd ts * 1000) = (unat (last ts) - unat (hd ts)) * 1000"
    using unat_sub [OF o] h by (simp add: diff_mult_distrib)
  then have "unat ((last ts * 1000 - hd ts * 1000) div 1000) = unat (last ts) - unat (hd ts)"
    by (simp add: unat_div)
  moreover have "\<not> last ts * 1000 < hd ts * 1000" using o by simp
  moreover have "\<not> 3 < timer_count p" using assms(4) by simp
  ultimately show ?thesis
    using pulses_window [OF assms(1-3)] by (simp add: pulse_time_def Let_def)
qed

section \<open>Properties\<close>

text \<open>
  C35. The reading: after a window of 2 to 252 pulses that begins less than four timer periods
  after the last one, with the times in milliseconds below 4294967 and not all equal, the
  handler stores 17100000 times the number of intervals, divided by the milliseconds between
  the first and the last pulse, and starts a new window.
\<close>

theorem power_reading:
  assumes "timer_irq_count p = 0" "timer_count p \<le> 3" "2 \<le> length ts" "length ts \<le> 252"
    and "hd ts < last ts" "unat (last ts) < 4294967"
  shows "\<exists>p' d'. power_timer_handler (pulses ts p, d) = Inr (p', d')
    \<and> unat (g_power d') = 17100000 * (length ts - 1) div (unat (last ts) - unat (hd ts))
    \<and> timer_irq_count p' = 0 \<and> timer_count p' = 0 \<and> u_config d' = u_config d"
proof -
  have ne: "ts \<noteq> []" "length ts < 2 ^ 32" using assms by auto
  note w = pulses_window [OF assms(1) ne]
  have t: "unat (pulse_time (pulses ts p)) = unat (last ts) - unat (hd ts)"
    using pulse_time_window [OF assms(1) ne assms(2) _ assms(6)] assms(5) by simp
  moreover have "unat (hd ts) < unat (last ts)" using assms(5) by (simp add: word_less_nat_alt)
  ultimately have nz: "pulse_time (pulses ts p) \<noteq> 0" by (metis unat_0 diff_is_0_eq' linorder_not_le less_irrefl zero_less_diff)
  have c: "timer_irq_count (pulses ts p) = of_nat (length ts)" using w by simp
  have u: "unat (of_nat (length ts) :: u32) = length ts" using assms(4) by (simp add: unat_of_nat)
  then have gt: "1 < timer_irq_count (pulses ts p)" using c assms(3) by (simp add: word_less_nat_alt)
  have s: "unat (of_nat (length ts) - 1 :: u32) = length ts - 1"
    using u assms(3) by (subst unat_sub) (simp_all add: word_le_nat_alt)
  have m: "unat (17100000 * x :: u32) = 17100000 * unat x" if "unat x \<le> 251" for x :: u32
    using that by (simp add: unat_word_ariths)
  have le: "unat (of_nat (length ts) - 1 :: u32) \<le> 251" unfolding s using assms(4) by simp
  have "unat (17100000 * (of_nat (length ts) - 1) :: u32) = 17100000 * (length ts - 1)"
    using m [OF le] unfolding s .
  then have "unat (17100000 * (timer_irq_count (pulses ts p) - 1) div pulse_time (pulses ts p))
      = 17100000 * (length ts - 1) div (unat (last ts) - unat (hd ts))"
    by (simp add: unat_div c t)
  then show ?thesis using gt nz by (simp add: power_timer_handler_def)
qed

theorem power_reading_witness:
  "\<exists>p' d'. power_timer_handler (pulses [1000, 1450, 1900] meter_start, ex_device) = Inr (p', d')
     \<and> unat (g_power d') = 38000"
  using power_reading [of meter_start "[1000, 1450, 1900]" ex_device] by (force simp: meter_start_def)

text \<open>
  Two pulses within one millisecond divide by zero: if the first and the last pulse of a
  window carry the same time, the handler divides by the difference 0.
\<close>

theorem power_division_by_zero:
  assumes "timer_irq_count p = 0" "timer_count p \<le> 3" "2 \<le> length ts" "length ts < 2 ^ 32"
    and "hd ts = last ts" "unat (last ts) < 4294967"
  shows "power_timer_handler (pulses ts p, d) = Inl DivByZero"
proof -
  have ne: "ts \<noteq> []" using assms by auto
  have "unat (pulse_time (pulses ts p)) = 0"
    using pulse_time_window [OF assms(1) ne assms(4,2) _ assms(6)] assms(5) by simp
  then have "pulse_time (pulses ts p) = 0" by (simp add: unat_eq_0)
  moreover have "1 < timer_irq_count (pulses ts p)"
  proof -
    have "unat (of_nat (length ts) :: u32) = length ts" using assms(4) by (simp add: unat_of_nat)
    then show ?thesis using pulses_window [OF assms(1) ne assms(4)] assms(3)
      by (simp add: word_less_nat_alt)
  qed
  ultimately show ?thesis by (simp add: power_timer_handler_def)
qed

theorem power_division_by_zero_witness:
  "power_timer_handler (pulses [1000, 1000] meter_start, ex_device) = Inl DivByZero"
  by (rule power_division_by_zero) (simp_all add: meter_start_def)

text \<open>
  From 253 pulses in a window on the product no longer fits 32 bits, and the reading is
  taken from what is left of it: 252 intervals in 1000 milliseconds are read as 14232 instead
  of 4309200.
\<close>

theorem power_product_wraps:
  assumes "timer_irq_count p = 0" "timer_count p \<le> 3" "length ts = 253"
    and "unat (last ts) = unat (hd ts) + 1000" "unat (last ts) < 4294967"
  shows "\<exists>p' d'. power_timer_handler (pulses ts p, d) = Inr (p', d') \<and> unat (g_power d') = 14232
    \<and> 17100000 * (length ts - 1) div (unat (last ts) - unat (hd ts)) = 4309200"
proof -
  have ne: "ts \<noteq> []" "length ts < 2 ^ 32" using assms(3) by auto
  have le: "hd ts \<le> last ts" using assms(4) by (simp add: word_le_nat_alt)
  have t: "unat (pulse_time (pulses ts p)) = 1000"
    using pulse_time_window [OF assms(1) ne assms(2) le assms(5)] assms(4) by simp
  then have pt: "pulse_time (pulses ts p) = 1000" by (simp add: word_unat_eq_iff)
  have "timer_irq_count (pulses ts p) = 253" using pulses_window [OF assms(1) ne] assms(3) by simp
  with pt show ?thesis using assms(3,4) by (simp add: power_timer_handler_def)
qed

theorem power_product_wraps_witness:
  "\<exists>p' d'. power_timer_handler (pulses (replicate 252 1000 @ [2000]) meter_start, ex_device) = Inr (p', d')
     \<and> unat (g_power d') = 14232"
  using power_product_wraps [of meter_start "replicate 252 1000 @ [2000]" ex_device]
  by (auto simp: meter_start_def)

end
