(* ===== verification/System.thy ===== *)
theory System
  imports Report Rtc Power_Meter
begin

text \<open>
  The plug as a whole: its threads, timers and interrupts as the steps of one relation, and the
  invariant that ties the components together.

  A step is one run of a handler or one turn of a thread, on the globals all of them share.
  That they do not interrupt each other is an assumption of this theory; the sources take no
  lock around them.
\<close>

record sys =
  dev :: device
  udp_buf :: string
  rtc_st :: rtc
  meter_st :: meter

text \<open>What can happen, with what the outside world contributes.\<close>

datatype stimulus =
    UdpTurn arrival "string option"
  | KeyLevel int
  | KeyTimer u32 u32
  | KeyEdge
  | ClockTick
  | RtcTurn int
  | Pulse u32
  | PowerTimer
  | SystemEvent event
  | Http string

section \<open>The steps\<close>

inductive sys_step :: "(nat \<Rightarrow> nat) \<Rightarrow> stimulus \<Rightarrow> sys \<Rightarrow> sys \<Rightarrow> bool" for room where
  udp: "udp_thread_turn (udp_buf s) a msg (dev s) = Inr (b, d) \<Longrightarrow>
          sys_step room (UdpTurn a msg) s (s\<lparr>udp_buf := b, dev := d\<rparr>)"
| level: "sys_step room (KeyLevel v) s (s\<lparr>dev := (dev s)\<lparr>pins := (pins (dev s))(KEY := v)\<rparr>\<rparr>)"
| timer: "key_timeout_handler t1 t2 (dev s) = Inr d \<Longrightarrow> sys_step room (KeyTimer t1 t2) s (s\<lparr>dev := d\<rparr>)"
| edge: "sys_step room KeyEdge s (s\<lparr>dev := key_rising_irq_handler (dev s)\<rparr>)"
| tick: "rtctime_timeout_handler (dev s) = Inr d \<Longrightarrow> sys_step room ClockTick s (s\<lparr>dev := d\<rparr>)"
| rtc: "rtc_turn t (rtc_st s) (dev s) = Inr (r, d) \<Longrightarrow>
          sys_step room (RtcTurn t) s (s\<lparr>rtc_st := r, dev := d\<rparr>)"
| pulse: "sys_step room (Pulse now) s (s\<lparr>meter_st := power_irq_handler now (meter_st s)\<rparr>)"
| power: "power_timer_handler (meter_st s, dev s) = Inr (p, d) \<Longrightarrow>
          sys_step room PowerTimer s (s\<lparr>meter_st := p, dev := d\<rparr>)"
| event: "sys_event_callback e (dev s) = Inr (r, d) \<Longrightarrow> sys_step room (SystemEvent e) s (s\<lparr>dev := d\<rparr>)"
| http: "httpd_callback room httpd_init url (dev s) = Inr (r, rsp, d) \<Longrightarrow>
          sys_step room (Http url) s (s\<lparr>dev := d\<rparr>)"

inductive_cases sys_stepE: "sys_step room l s t"

inductive_simps sys_step_simps:
  "sys_step room (UdpTurn a msg) s t" "sys_step room KeyEdge s t" "sys_step room (KeyLevel v) s t"

text \<open>
  The start: \<open>app_main\<close> has returned, the thread of the timer tasks has set its first time,
  and the receive buffer of the UDP thread holds anything.
\<close>

definition sys_init :: "sys \<Rightarrow> bool" where
  "sys_init s \<longleftrightarrow> (\<exists>b ps nq d buf. app_main b (zero_device ps nq) = Some (Inr (httpd_init, d))
     \<and> length buf = UDP_BUF_SIZE
     \<and> s = \<lparr>dev = rtc_first_time d, udp_buf = buf, rtc_st = rtc_start, meter_st = meter_start\<rparr>)"

section \<open>Every component keeps the device healthy\<close>

lemma healthy_cong:
  "u_config e = u_config d \<Longrightarrow> user_defaultconfig e = user_defaultconfig d \<Longrightarrow> deviceid e = deviceid d \<Longrightarrow>
   strMac e = strMac d \<Longrightarrow> strIp e = strIp d \<Longrightarrow> io e = io d \<Longrightarrow> udp_msgq e = udp_msgq d \<Longrightarrow>
   healthy d \<Longrightarrow> healthy e"
  by (simp add: healthy_def globals_ok_def relays_agree_def driven_def plug_on_def queue_ok_def)

lemma healthy_led: "healthy d \<Longrightarrow> healthy (user_led_set x d)"
  by (simp add: user_led_set_eq healthy_LED)

lemma healthy_printtime: "healthy d \<Longrightarrow> printtime d = Inr d' \<Longrightarrow> healthy d'"
  by (auto dest!: printtime_shape intro: healthy_cong)

lemma healthy_smartlink: "healthy d \<Longrightarrow> healthy (emit SmartLinkStart d)"
  by (rule healthy_emit) simp_all

lemma healthy_held: "healthy d \<Longrightarrow> held d = Inr d' \<Longrightarrow> healthy d'"
  unfolding held_def Let_def
  by (auto split: if_splits simp: healthy_led healthy_smartlink
      intro: healthy_cong healthy_printtime dest!: health.cmd_received)

lemma healthy_key_timer:
  assumes "healthy d" "key_timeout_handler t1 t2 d = Inr d'"
  shows "healthy d'"
proof -
  let ?d1 = "(set_clock t1 t2 d)\<lparr>key_continue := 0xFE OR int_to_u8 (pins d KEY)\<rparr>"
  have 1: "healthy ?d1" by (rule healthy_cong [OF _ _ _ _ _ _ _ assms(1)]) simp_all
  show ?thesis
  proof (cases "key_pressed ?d1")
    case True
    then obtain d2 where d2: "held (?d1\<lparr>key_time := key_time ?d1 + 1\<rparr>) = Inr d2"
      and d': "d' = (if 204 < key_time d2 then d2\<lparr>key_time := 189\<rparr> else d2)"
      using assms(2) by (auto simp: key_timeout_handler_def Let_def)
    have "healthy (?d1\<lparr>key_time := key_time ?d1 + 1\<rparr>)" by (rule healthy_cong [OF _ _ _ _ _ _ _ 1]) simp_all
    then have "healthy d2" using d2 by (rule healthy_held)
    then show ?thesis unfolding d' by (auto intro: healthy_cong)
  next
    case False
    then have "d' = (if \<not> relay_out ?d1 then user_led_set 0 ?d1 else ?d1)"
      using assms(2) by (simp add: key_timeout_handler_def Let_def)
    then show ?thesis using 1 by (simp add: healthy_led)
  qed
qed

lemma healthy_key_edge: "healthy d \<Longrightarrow> healthy (key_rising_irq_handler d)"
proof -
  assume d: "healthy d"
  then have "healthy (user_relay_set_all y d)" for y
    by (rule user_relay_set_all_induct) (rule healthy_relay)
  with d have "healthy (key_short_press d)" by (simp add: key_short_press_def)
  with d show ?thesis by (auto simp: key_rising_irq_handler_def Let_def intro: healthy_cong)
qed

lemma healthy_rtctimes: "healthy d \<Longrightarrow> healthy (d\<lparr>rtctimes := n\<rparr>)"
  by (erule healthy_cong [rotated -1]) simp_all

lemma rtc_sync_shape: "snd (rtc_sync n r d) = d \<or> snd (rtc_sync n r d) = d\<lparr>rtctimes := n\<rparr>"
  by (simp add: rtc_sync_def update_rtctime_def)

lemma healthy_sync: "healthy d \<Longrightarrow> healthy (snd (rtc_sync n r d))"
  using rtc_sync_shape [of n r d] healthy_rtctimes [of d n] by (elim disjE) simp_all

lemma healthy_task_off:
  assumes "healthy d" shows "healthy (map_plug x (upd_task j (\<lambda>t. t\<lparr>t_on := 0\<rparr>)) d)"
  by (rule healthy_map_plug) (use assms in \<open>simp_all add: healthy_def globals_ok_def config_ok_plug\<close>)

text \<open>Health together with what only the clock and the button may change.\<close>

definition steady :: "tm \<Rightarrow> u8 \<Rightarrow> device \<Rightarrow> bool" where
  "steady m k d \<longleftrightarrow> healthy d \<and> tm_obj d = m \<and> key_time d = k"

lemma kept_clock: "kept d d' \<Longrightarrow> tm_obj d' = tm_obj d \<and> key_time d' = key_time d"
  by (simp add: kept_def)

lemma kept_refl: "kept d d"
  by (simp add: kept_def)

interpretation steady: command_invariant "steady m k" for m k
proof unfold_locales
  fix d x j t assume "steady m k d"
  then show "steady m k (map_plug x (upd_task j (\<lambda>_. t)) d)"
    by (simp add: steady_def healthy_task)
next
  fix d x q p b assume "steady m k d" "get_plug x d = Inr q" "set_string p (Device.p_name q) = Inr b"
  then show "steady m k (map_plug x (\<lambda>r. r\<lparr>Device.p_name := b\<rparr>) d)"
    by (simp add: steady_def healthy_name)
next
  fix d x y assume "steady m k d"
  then show "steady m k (user_relay_set x y d)" by (simp add: steady_def healthy_relay)
next
  fix d arg d' assume "steady m k d" "user_udp_send arg d = Inr d'"
  then show "steady m k d'"
    using kept_clock [OF kept.send [OF kept_refl]] by (auto simp: steady_def intro: healthy_send)
next
  fix d s d' assume "steady m k d" "apply_setting s d = Inr d'"
  then show "steady m k d'"
    using kept_clock [OF kept.setting [OF kept_refl]] by (auto simp: steady_def intro: healthy_setting)
qed

lemma steady_task_off: "steady m k d \<Longrightarrow> steady m k (map_plug x (upd_task j (\<lambda>t. t\<lparr>t_on := 0\<rparr>)) d)"
  by (simp add: steady_def healthy_task_off)

lemma steady_task_step:
  "task_step i j (u, fs, d) = Inr (u', fs', d') \<Longrightarrow> steady m k d \<Longrightarrow>
   steady m k d' \<and> length fs' = length fs"
  by (auto simp: task_step_def steady.relay steady_task_off split: if_splits prod.splits)

lemma steady_plug_tasks:
  "plug_tasks i s = Inr s' \<Longrightarrow> steady m k (snd (snd s)) \<Longrightarrow>
   steady m k (snd (snd s')) \<and> length (fst (snd s')) = length (fst (snd s))"
  unfolding plug_tasks_def
  by (erule foldM_invariant [where P = "\<lambda>t. steady m k (snd (snd t)) \<and> length (fst (snd t)) = length (fst (snd s))"])
     (auto dest: steady_task_step)

lemma steady_scan:
  "scan_tasks s = Inr s' \<Longrightarrow> steady m k (snd (snd s)) \<Longrightarrow>
   steady m k (snd (snd s')) \<and> length (fst (snd s')) = length (fst (snd s))"
  unfolding scan_tasks_def
  by (erule foldM_invariant [where P = "\<lambda>t. steady m k (snd (snd t)) \<and> length (fst (snd t)) = length (fst (snd s))"])
     (auto dest: steady_plug_tasks)

lemma steady_rtc_report:
  assumes "rtc_report fs d = Inr (fs', d')" "steady m k d"
  shows "steady m k d' \<and> length fs' = length fs"
proof -
  obtain j j' d1 where
    l: "foldM rtc_plug_step [0..<PLUG_NUM] (j, fs, d) = Inr (j', fs', d1)" and p: "print_and_send 0 j' d1 = Inr d'"
    using assms(1) by (auto simp: rtc_report_def rmap_eq_Inr)
  have "snd (snd (j', fs', d1)) = d \<and> length (fst (snd (j', fs', d1))) = length fs"
    using l by (rule foldM_invariant) (auto simp: rtc_plug_step_def split: prod.splits)
  with assms(2) p show ?thesis by (auto dest: steady.print_send)
qed

lemma steady_rtc_turn:
  assumes "rtc_turn n r d = Inr (r', d')" "steady m k d"
  shows "steady m k d' \<and> length (task_flag r') = length (task_flag r)"
proof -
  obtain r1 d1 where s: "rtc_sync n r d = (r1, d1)" by fastforce
  have 1: "steady m k d1"
    using healthy_sync [of d n r] rtc_sync_shape [of n r d] s assms(2) by (auto simp: steady_def)
  have l1: "task_flag r1 = task_flag r"
    using s by (auto simp: rtc_sync_def split: if_splits prod.splits)
  obtain u fs d2 where sc: "scan_tasks (False, task_flag r1, d1) = Inr (u, fs, d2)"
    and rest: "(if u then rmap (\<lambda>(flags', d3). (r1\<lparr>task_flag := flags'\<rparr>, d3)) (rtc_report fs d2)
           else Inr (r1\<lparr>task_flag := fs\<rparr>, d2)) = Inr (r', d')"
    using assms(1) s by (auto simp: rtc_turn_def)
  have 2: "steady m k d2" "length fs = length (task_flag r)"
    using steady_scan [OF sc] 1 l1 by simp_all
  with rest show ?thesis
    by (auto simp: rmap_eq_Inr split: if_splits dest!: steady_rtc_report)
qed

section \<open>The invariant of the system\<close>

text \<open>
  Besides the health of the device: the time object holds a time of day, the button counter
  stays below its turning point, the array of finished tasks keeps its six entries, and the
  receive buffer its size.
\<close>

definition sys_ok :: "sys \<Rightarrow> bool" where
  "sys_ok s \<longleftrightarrow> healthy (dev s) \<and> tm_ok (tm_obj (dev s)) \<and> key_time (dev s) \<le> 204
     \<and> length (task_flag (rtc_st s)) = PLUG_NUM \<and> length (udp_buf s) = UDP_BUF_SIZE"

lemma steady_emit: "steady m k d \<Longrightarrow> healthy (emit e d) \<Longrightarrow> steady m k (emit e d)"
  by (simp add: steady_def)

lemma steady_udp_turn: "udp_thread_turn buf a msg d = Inr (buf', d') \<Longrightarrow> steady m k d \<Longrightarrow> steady m k d'"
proof -
  assume t: "udp_thread_turn buf a msg d = Inr (buf', d')" and s: "steady m k d"
  then obtain d1 where r: "udp_receive buf a d = Inr (buf', d1)" and d': "d' = udp_send_queued msg d1"
    by (auto simp: udp_thread_turn_def)
  from r have "tm_obj d1 = m \<and> key_time d1 = k"
    by (cases rule: udp_receive_cases)
       (use s in \<open>auto simp: steady_def dest!: steady.cmd_received [where m = m and k = k]\<close>)
  then have "tm_obj d' = m \<and> key_time d' = k"
    by (simp add: d' udp_send_queued_def udp_msg_send_def Let_def split: option.split)
  moreover have "healthy d'" using healthy_turn [OF t] s by (simp add: steady_def)
  ultimately show "steady m k d'" by (simp add: steady_def)
qed

lemma steady_event: "sys_event_callback e d = Inr (r, d') \<Longrightarrow> steady m k d \<Longrightarrow> steady m k d'"
  using events_safe [of d e] by (auto simp: steady_def sys_event_callback_def split: event.splits)

lemma steady_http: "httpd_callback room pages url d = Inr (r, rsp, d') \<Longrightarrow> steady m k d \<Longrightarrow> steady m k d'"
proof -
  have "steady m k e'" if "run_page c room url e = Inr (t, e')" "steady m k e" for c e t e'
    using that
    by (cases c) (auto simp: styles_cbk_def switch_cbk_def status_cbk_def split: prod.splits if_splits
        dest: steady.plugs)
  then show "httpd_callback room pages url d = Inr (r, rsp, d') \<Longrightarrow> steady m k d \<Longrightarrow> steady m k d'"
    by (auto simp: httpd_callback_def split: option.splits)
qed

lemma steady_power: "power_timer_handler (p, d) = Inr (p', d') \<Longrightarrow> steady m k d \<Longrightarrow> steady m k d'"
proof -
  assume "power_timer_handler (p, d) = Inr (p', d')" and s: "steady m k d"
  then obtain w where d': "d' = d \<or> d' = d\<lparr>g_power := w\<rparr>"
    by (auto simp: power_timer_handler_def split: if_splits)
  have "healthy d" using s by (simp add: steady_def)
  then have "healthy (d\<lparr>g_power := w\<rparr>)" by (rule healthy_cong [rotated -1]) simp_all
  with d' s show "steady m k d'" by (auto simp: steady_def)
qed

lemma clock_tick_ok:
  "rtctime_timeout_handler d = Inr d' \<Longrightarrow> healthy d \<Longrightarrow> healthy d' \<and> tm_ok (tm_obj d') \<and> key_time d' = key_time d"
proof -
  assume "rtctime_timeout_handler d = Inr d'" and h: "healthy d"
  then obtain n t where d': "d' = d\<lparr>rtctimes := n, tm_obj := gmtime t\<rparr>"
    by (auto simp: rtctime_timeout_handler_def)
  from h have "healthy d'" by (rule healthy_cong [rotated -1]) (simp_all add: d')
  then show ?thesis by (simp add: d' gmtime_ok)
qed

lemma held_time:
  assumes "held d = Inr d'" "tm_ok (tm_obj d)" shows "tm_ok (tm_obj d')"
  using assms kept_clock [OF kept.cmd_received [OF _ kept_refl]] unfolding held_def Let_def
  by (auto split: if_splits simp: printtime_def gmtime_ok user_led_set_eq)

lemma key_timer_ok:
  assumes "key_timeout_handler t1 t2 d = Inr d'" "healthy d" "tm_ok (tm_obj d)" "key_time d \<le> 204"
  shows "healthy d' \<and> tm_ok (tm_obj d') \<and> key_time d' \<le> 204"
proof -
  let ?d1 = "(set_clock t1 t2 d)\<lparr>key_continue := 0xFE OR int_to_u8 (pins d KEY)\<rparr>"
  have tm: "tm_obj ?d1 = tm_obj d" "key_time ?d1 = key_time d" by (simp_all add: set_clock_def Let_def)
  have "tm_ok (tm_obj d') \<and> key_time d' \<le> 204"
  proof (cases "key_pressed ?d1")
    case True
    then obtain d2 where d2: "held (?d1\<lparr>key_time := key_time ?d1 + 1\<rparr>) = Inr d2"
      and d': "d' = (if 204 < key_time d2 then d2\<lparr>key_time := 189\<rparr> else d2)"
      using assms(1) by (auto simp: key_timeout_handler_def Let_def)
    have "tm_ok (tm_obj d2)" using held_time [OF d2] assms(3) tm by simp
    then show ?thesis unfolding d' by (auto simp: not_less)
  next
    case False
    then have "d' = (if \<not> relay_out ?d1 then user_led_set 0 ?d1 else ?d1)"
      using assms(1) by (simp add: key_timeout_handler_def Let_def)
    then show ?thesis using assms(3,4) tm by (simp add: user_led_set_eq)
  qed
  then show ?thesis using healthy_key_timer [OF assms(2,1)] by simp
qed

lemma key_edge_ok: "tm_obj (key_rising_irq_handler d) = tm_obj d \<and> key_time (key_rising_irq_handler d) = 0"
proof -
  have "tm_obj (user_relay_set_all y d) = tm_obj d" for y
    by (rule user_relay_set_all_induct) simp_all
  then show ?thesis by (simp add: key_rising_irq_handler_def Let_def key_short_press_def)
qed

lemma boot_healthy:
  assumes "app_main b (zero_device ps nq) = Some (Inr (pages, d))"
  shows "healthy d \<and> key_time d = 0"
proof -
  let ?z = "set_pin LED True (zero_device ps nq)"
  have z: "healthy ?z" "\<forall>i < PLUG_NUM. \<not> driven (relay ! i) ?z" "key_time ?z = 0"
    by (simp_all add: healthy_LED driven_LED) (simp_all add: driven_def zero_device_def)
  obtain d1 mac where k: "key_init b ?z = Inr d1" and m: "strcpy_buf (strMac d1) (mac_address b) = Inr mac"
    and d: "d = set_pin LED False (d1\<lparr>strMac := mac\<rparr>)"
    using assms by (auto simp: app_main_def split: if_splits)
  have "healthy d1 \<and> key_time d1 = 0"
  proof (cases "\<not> mutex_ok b \<or> \<not> irq_ok b")
    case False
    then have r: "appRestoreDefault ?z = Inr d1" using k by (simp add: key_init_def)
    have "key_time d1 = key_time ?z" using r by (auto simp: appRestoreDefault_def Let_def)
    then show ?thesis using restore_default_healthy [OF z(1,2)] r z(3) by auto
  qed (use k z in \<open>auto simp: key_init_def\<close>)
  moreover from this have "buf_ok 13 mac" using m length_strcpy_buf NUL_in_strcpy_buf
    by (auto simp: healthy_def globals_ok_def buf_ok_def)
  ultimately show ?thesis by (simp add: d healthy_LED healthy_strMac)
qed

lemma init_ok: "sys_init s \<Longrightarrow> sys_ok s"
proof -
  assume "sys_init s"
  then obtain b ps nq d buf where a: "app_main b (zero_device ps nq) = Some (Inr (httpd_init, d))"
    and l: "length buf = UDP_BUF_SIZE"
    and s: "s = \<lparr>dev = rtc_first_time d, udp_buf = buf, rtc_st = rtc_start, meter_st = meter_start\<rparr>"
    by (auto simp: sys_init_def)
  from boot_healthy [OF a] have h: "healthy d" "key_time d = 0" by auto
  from h(1) have "healthy (rtc_first_time d)"
    by (rule healthy_cong [rotated -1]) (simp_all add: rtc_first_time_def)
  with h(2) show "sys_ok s"
    by (simp add: s l sys_ok_def rtc_first_time_def gmtime_ok rtc_start_def PLUG_NUM_def)
qed

lemma step_ok:
  assumes "sys_ok s" "sys_step room l s t"
  shows "sys_ok t"
proof -
  have st: "steady (tm_obj (dev s)) (key_time (dev s)) (dev s)" using assms(1) by (simp add: steady_def sys_ok_def)
  have steady_ok: "sys_ok (s\<lparr>dev := d\<rparr>)" if "steady (tm_obj (dev s)) (key_time (dev s)) d" for d
    using that assms(1) by (simp add: sys_ok_def steady_def)
  from assms(2) show ?thesis
  proof cases
    case (level v)
    have "healthy ((dev s)\<lparr>pins := (pins (dev s))(KEY := v)\<rparr>)"
      by (rule healthy_cong [rotated -1]) (use assms(1) in \<open>simp_all add: sys_ok_def\<close>)
    then show ?thesis using assms(1) by (simp add: level sys_ok_def)
  next
    case (timer t1 t2 d)
    then show ?thesis using key_timer_ok [OF timer(3)] assms(1) by (simp add: sys_ok_def)
  next
    case edge
    then show ?thesis using assms(1) by (simp add: sys_ok_def healthy_key_edge key_edge_ok)
  next
    case (tick d)
    then show ?thesis using clock_tick_ok [OF tick(3)] assms(1) by (simp add: sys_ok_def)
  next
    case (rtc t r d)
    then show ?thesis using steady_rtc_turn [OF rtc(3) st] assms(1)
      by (simp add: sys_ok_def steady_def)
  next
    case (power p d)
    then show ?thesis using steady_power [OF power(3) st] assms(1) by (simp add: sys_ok_def steady_def)
  next
    case (pulse now)
    then show ?thesis using assms(1) by (simp add: sys_ok_def)
  next
    case (udp a msg b d)
    show ?thesis using steady_udp_turn [OF udp(3) st] turn_length [OF udp(3)] assms(1)
      by (simp add: udp(2) sys_ok_def steady_def)
  next
    case (event e r d)
    show ?thesis unfolding event(2) by (rule steady_ok [OF steady_event [OF event(3) st]])
  next
    case (http url r rsp d)
    show ?thesis unfolding http(2) by (rule steady_ok [OF steady_http [OF http(3) st]])
  qed
qed

interpretation plug_system: step_invariant sys_init "sys_step room" sys_ok for room
  by unfold_locales (rule init_ok, assumption, rule step_ok)

text \<open>A plug that boots with its button, and a press of the button.\<close>

definition ex_boot :: boot where
  "ex_boot = \<lparr>fmap_ok = True, userbin = replicate 21 (CHR 0xFF), mutex_ok = True, irq_ok = True,
              mac_address = ''D0BAE4638A1F''\<rparr>"

definition ex_start :: "device \<Rightarrow> sys" where
  "ex_start d = \<lparr>dev = rtc_first_time d, udp_buf = replicate 512 NUL, rtc_st = rtc_start,
                 meter_st = meter_start\<rparr>"

lemma ex_start_init:
  obtains d where "sys_init (ex_start d)" "healthy d" "\<forall>i < PLUG_NUM. plug_on d i = 0" "key_time d = 0"
    "new_queue d = Some"
proof -
  have "char_u8 (CHR 0xFF) \<noteq> 0x5A" by (simp add: char_u8_def)
  then have r: "dev_param_read (userbin ex_boot) = Inr None" by (simp add: ex_boot_def dev_param_read_def)
  let ?z = "set_pin LED True (zero_device (\<lambda>_. 1) Some)"
  have z: "healthy ?z" "\<forall>i < PLUG_NUM. \<not> driven (relay ! i) ?z"
    by (simp_all add: healthy_LED driven_LED) (simp_all add: driven_def zero_device_def)
  obtain d1 where d1: "appRestoreDefault ?z = Inr d1" "healthy d1" "\<forall>i < PLUG_NUM. plug_on d1 i = 0"
    using restore_default_healthy [OF z] by blast
  have "length (strMac d1) = 13" using d1(2) by (simp add: healthy_def globals_ok_def buf_ok_def)
  then obtain m where m: "strcpy_buf (strMac d1) ''D0BAE4638A1F'' = Inr m" by (simp add: strcpy_buf_def)
  define d where "d = set_pin LED False (d1\<lparr>strMac := m\<rparr>)"
  have a: "app_main ex_boot (zero_device (\<lambda>_. 1) Some) = Some (Inr (httpd_init, d))"
    using r d1(1) m by (simp add: app_main_def key_init_def ex_boot_def d_def)
  then have "sys_init (ex_start d)"
    unfolding sys_init_def ex_start_def by (intro exI conjI) (rule a, simp_all add: UDP_BUF_SIZE_def)
  moreover have "new_queue d = Some" using d1(1)
    by (auto simp: d_def appRestoreDefault_def Let_def zero_device_def)
  moreover have "\<forall>i < PLUG_NUM. plug_on d i = 0" using d1(3) by (simp add: d_def plug_on_def)
  ultimately show thesis using that boot_healthy [OF a] by blast
qed

text \<open>
  C1. The plug stays sound: whatever boots, arrives, is pressed, ticks or is requested, in any
  order, after every run of handlers and thread turns that did not leave defined behaviour each
  relay pin is high exactly if the record of its plug says 1, every configuration buffer is
  terminated and of its size, the send queue in use is the last one created, the time object
  is a time of day, and the button counter is at most 204.
\<close>

theorem system_sound:
  assumes "plug_system.reach room s" "i < PLUG_NUM"
  shows "(driven (relay ! i) (dev s) \<longleftrightarrow> plug_on (dev s) i = 1) \<and> globals_ok (dev s)
    \<and> queue_now (io (dev s)) = Some (udp_msgq (dev s)) \<and> tm_ok (tm_obj (dev s)) \<and> key_time (dev s) \<le> 204"
  using plug_system.reach_inv [OF assms(1)] assms(2)
  by (simp add: sys_ok_def healthy_def relays_agree_def queue_ok_def)

text \<open>A short press: the pin goes low, the timer counts twice, the pin goes high again.\<close>

lemma key_timer_pressed:
  assumes "pins d KEY = 0" "key_time d < 9"
  shows "\<exists>e. key_timeout_handler 0 0 d = Inr e \<and> key_time e = key_time d + 1 \<and> pins e = pins d
    \<and> plug_on e = plug_on d \<and> user_defaultconfig e = user_defaultconfig d"
proof -
  have "unat (key_time d + 1) < 10"
    using assms(2) unat_word_ariths(1) [of "key_time d" 1] by (simp add: word_less_nat_alt)
  then have k: "key_time d + 1 < 10" by (simp add: word_less_nat_alt)
  then have "\<not> 204 < key_time d + 1" by (simp add: word_less_nat_alt)
  then show ?thesis using assms(1) k
    by (simp add: key_timeout_handler_def held_def key_pressed_def Let_def plug_on_def fun_eq_iff)
qed

theorem system_sound_witness:
  "\<exists>s. plug_system.reach (\<lambda>n. n) s \<and> plug_on (dev s) 2 = 1 \<and> driven (relay ! 2) (dev s)"
proof -
  obtain d where i: "sys_init (ex_start d)" and h: "healthy d" and off: "\<forall>i < PLUG_NUM. plug_on d i = 0"
    and k: "key_time d = 0" by (rule ex_start_init)
  let ?R = "plug_system.reach (\<lambda>n. n)"
  define s1 where "s1 = (ex_start d)\<lparr>dev := (dev (ex_start d))\<lparr>pins := (pins (dev (ex_start d)))(KEY := 0)\<rparr>\<rparr>"
  have 1: "?R s1" unfolding s1_def
    by (rule plug_system.reach_step [OF plug_system.reach_init [OF i] sys_step.level])
  have p1: "plug_on (dev s1) = plug_on d" "key_time (dev s1) = 0" "pins (dev s1) KEY = 0"
    by (simp_all add: s1_def ex_start_def rtc_first_time_def plug_on_def fun_eq_iff k)
  obtain e2 where e2: "key_timeout_handler 0 0 (dev s1) = Inr e2" "key_time e2 = 1" "pins e2 KEY = 0"
    "plug_on e2 = plug_on d"
    using key_timer_pressed [of "dev s1"] p1 by auto
  have 2: "?R (s1\<lparr>dev := e2\<rparr>)" by (rule plug_system.reach_step [OF 1 sys_step.timer [OF e2(1)]])
  obtain e3 where e3: "key_timeout_handler 0 0 e2 = Inr e3" "key_time e3 = 2" "plug_on e3 = plug_on d"
    using key_timer_pressed [of e2] e2 by auto
  have 3: "?R (s1\<lparr>dev := e3\<rparr>)"
    using plug_system.reach_step [OF 2 sys_step.timer [of 0 0 "s1\<lparr>dev := e2\<rparr>" e3]] e3(1) by simp
  let ?e4 = "e3\<lparr>pins := (pins e3)(KEY := 1)\<rparr>"
  have 4: "?R (s1\<lparr>dev := ?e4\<rparr>)"
    using plug_system.reach_step [OF 3 sys_step.level [of _ 1]] by simp
  have ag: "globals_ok e3" "relays_agree e3"
    using plug_system.reach_inv [OF 3] by (simp_all add: sys_ok_def healthy_def)
  have ag4: "globals_ok ?e4" "relays_agree ?e4"
    using ag by (simp_all add: globals_ok_def relays_agree_def plug_on_def driven_def)
  have 5: "?R (s1\<lparr>dev := key_rising_irq_handler ?e4\<rparr>)"
    using plug_system.reach_step [OF 4 sys_step.edge] by simp
  have "plug_on ?e4 j = 0" if "j < PLUG_NUM" for j
    using off e3(3) that by (simp add: plug_on_def fun_eq_iff)
  then have "\<not> relay_out ?e4" using relay_out_agree [OF ag4(2)] by simp
  then have "key_rising_irq_handler ?e4 = (user_relay_set_all 1 ?e4)\<lparr>key_time := 0\<rparr>"
    using e3(2) by (simp add: key_rising_irq_handler_def key_short_press_def Let_def)
  then have "plug_on (key_rising_irq_handler ?e4) 2 = 1"
    using plug_on_set_all [OF ag4(1), of 2 1] by (simp add: plug_on_def PLUG_NUM_def)
  with 5 system_sound [OF 5, of 2] show ?thesis
    by (intro exI [of _ "s1\<lparr>dev := key_rising_irq_handler ?e4\<rparr>"]) (simp add: PLUG_NUM_def)
qed



end
