(* ===== verification/Flash.thy ===== *)
theory Flash
  imports Relay Function
begin

text \<open>
  The flash tests of \<open>src/user_flash.c\<close>, on any flash: the operations of the SDK
  (\<open>flash_erase_page\<close>, \<open>flash_read\<close>, \<open>flash_write\<close> and their \<open>hfuflash\<close> counterparts) are
  parameters that work on a flash of type \<open>'f\<close>, and what the routines print is their result.
\<close>

section \<open>One page\<close>

definition PAGE :: nat where "PAGE = 4096"

text \<open>\<open>er addr\<close>, \<open>rd addr\<close> and \<open>wr addr bytes\<close> work on one page.\<close>

definition test_flash_one_cycle ::
  "(nat \<Rightarrow> 'f \<Rightarrow> 'f) \<Rightarrow> (nat \<Rightarrow> 'f \<Rightarrow> u8 list) \<Rightarrow> (nat \<Rightarrow> u8 list \<Rightarrow> 'f \<Rightarrow> 'f) \<Rightarrow> nat \<Rightarrow> 'f \<Rightarrow> nat \<times> 'f"
where
  "test_flash_one_cycle er rd wr addr f =
     (let f1 = er addr f
      in if \<not> list_all (\<lambda>b. b = 0xFF) (rd addr f1) then (1, f1)
         else let f2 = wr addr (replicate PAGE 0x55) f1
              in if \<not> list_all (\<lambda>b. b = 0x55) (rd addr f2) then (2, f2)
                 else let f3 = wr addr (replicate PAGE 0xAA) (er addr f2)
                      in if \<not> list_all (\<lambda>b. b = 0xAA) (rd addr f3) then (3, f3) else (0, f3))"

definition HFGPIO_F_NLINK :: nat where "HFGPIO_F_NLINK = 18"

text \<open>The body of the loop of \<open>test_flash_start\<close>, on the count of failures, the pins and the flash.\<close>

definition flash_turn ::
  "(nat \<Rightarrow> 'f \<Rightarrow> 'f) \<Rightarrow> (nat \<Rightarrow> 'f \<Rightarrow> u8 list) \<Rightarrow> (nat \<Rightarrow> u8 list \<Rightarrow> 'f \<Rightarrow> 'f) \<Rightarrow> nat \<Rightarrow>
   nat \<times> io list \<times> 'f \<Rightarrow> nat \<times> io list \<times> 'f"
where
  "flash_turn er rd wr USERPAGE s =
     (case s of (fails, es, f) \<Rightarrow>
        let (rc1, f1) = test_flash_one_cycle er rd wr USERPAGE f;
            (rc2, f2) = test_flash_one_cycle er rd wr (USERPAGE + 4096) f1;
            rc = rc1 OR push_bit 4 rc2
        in (if rc \<noteq> 0 then fails + 1 else fails, es @ [Pin LED True, Pin HFGPIO_F_NLINK False], f2))"

definition test_flash_start ::
  "(nat \<Rightarrow> 'f \<Rightarrow> 'f) \<Rightarrow> (nat \<Rightarrow> 'f \<Rightarrow> u8 list) \<Rightarrow> (nat \<Rightarrow> u8 list \<Rightarrow> 'f \<Rightarrow> 'f) \<Rightarrow> nat \<Rightarrow> 'f \<Rightarrow>
   nat \<times> io list \<times> 'f"
where
  "test_flash_start er rd wr USERPAGE f = (flash_turn er rd wr USERPAGE ^^ 10000) (0, [], f)"

section \<open>The user flash\<close>

text \<open>What \<open>test_uflash_start\<close> prints.\<close>

datatype flash_msg = Eof | Val u32 | EraseTest nat | EraseFail | TestFail nat u32

text \<open>
  \<open>hfuflash_write(...) < sizeof(i)\<close> compares in unsigned arithmetic, \<open>hfuflash_read(...) < 4\<close>
  in signed arithmetic.
\<close>

definition short_write :: "int \<Rightarrow> bool" where
  "short_write r \<longleftrightarrow> (word_of_int r :: u32) < 4"

definition short_read :: "int \<Rightarrow> bool" where
  "short_read r \<longleftrightarrow> r < 4"

fun uflash_fill :: "(nat \<Rightarrow> u32 \<Rightarrow> 'f \<Rightarrow> int \<times> 'f) \<Rightarrow> nat list \<Rightarrow> 'f \<Rightarrow> flash_msg list \<times> 'f" where
  "uflash_fill wr [] f = ([], f)"
| "uflash_fill wr (i # is) f =
     (let (r, f1) = wr i (of_nat i) f
      in if short_write r then ([Eof], f1) else uflash_fill wr is f1)"

fun uflash_show :: "(nat \<Rightarrow> 'f \<Rightarrow> int \<times> u32) \<Rightarrow> nat list \<Rightarrow> 'f \<Rightarrow> flash_msg list" where
  "uflash_show rd [] f = []"
| "uflash_show rd (i # is) f =
     (let (r, v) = rd i f in if short_read r then [Eof] else Val v # uflash_show rd is f)"

text \<open>\<open>er addr pages\<close> also tells whether it succeeded.\<close>

fun uflash_erase :: "(nat \<Rightarrow> nat \<Rightarrow> 'f \<Rightarrow> bool \<times> 'f) \<Rightarrow> nat \<Rightarrow> nat \<Rightarrow> nat list \<Rightarrow> 'f \<Rightarrow> bool \<times> flash_msg list \<times> 'f"
where
  "uflash_erase er psize pages [] f = (True, [], f)"
| "uflash_erase er psize pages (i # is) f =
     (let (ok, f1) = er (i * psize) (pages - i) f
      in if \<not> ok then (False, [EraseTest i, EraseFail], f1)
         else (case uflash_erase er psize pages is f1 of (b, ms, f2) \<Rightarrow> (b, EraseTest i # ms, f2)))"

fun uflash_verify ::
  "(nat \<Rightarrow> u32 \<Rightarrow> 'f \<Rightarrow> int \<times> 'f) \<Rightarrow> (nat \<Rightarrow> 'f \<Rightarrow> int \<times> u32) \<Rightarrow> nat list \<Rightarrow> 'f \<Rightarrow> flash_msg list \<times> 'f"
where
  "uflash_verify wr rd [] f = ([], f)"
| "uflash_verify wr rd (i # is) f =
     (let (r, f1) = wr i (of_nat i) f
      in if short_write r then ([Eof], f1)
         else let (q, v) = rd i f1
              in if short_read q then ([Eof], f1)
                 else (case uflash_verify wr rd is f1 of (ms, f2) \<Rightarrow>
                         ((if v \<noteq> of_nat i then [TestFail i v] else []) @ ms, f2)))"

text \<open>The offsets of the loops \<open>for(i=0; i<n;) i+=4\<close>.\<close>

definition offsets :: "nat \<Rightarrow> nat list" where
  "offsets n = map (\<lambda>k. 4 * k) [0..<(n + 3) div 4]"

definition test_uflash_start ::
  "(nat \<Rightarrow> nat \<Rightarrow> 'f \<Rightarrow> bool \<times> 'f) \<Rightarrow> (nat \<Rightarrow> u32 \<Rightarrow> 'f \<Rightarrow> int \<times> 'f) \<Rightarrow> (nat \<Rightarrow> 'f \<Rightarrow> int \<times> u32) \<Rightarrow>
   nat \<Rightarrow> nat \<Rightarrow> 'f \<Rightarrow> flash_msg list \<times> 'f"
where
  "test_uflash_start er wr rd psize bytes f =
     (let f0 = snd (er 0 1 f);
          (m1, f1) = uflash_fill wr (offsets psize) f0;
          m2 = uflash_show rd (offsets psize) f1;
          (ok, m3, f2) = uflash_erase er psize (bytes div psize) [0..<bytes div psize] f1
      in if \<not> ok then (m1 @ m2 @ m3, f2)
         else (let (m4, f3) = uflash_verify wr rd (offsets bytes) f2 in (m1 @ m2 @ m3 @ m4, f3)))"

section \<open>The login message\<close>

text \<open>What \<open>upadateConfigData\<close> builds and prints; the line that would send it is a comment.\<close>

definition upadateConfigData :: "string \<Rightarrow> cjson res" where
  "upadateConfigData mac =
     rbind (cJSON_AddNumberToObject cJSON_CreateObject ''CID'' 10000) (\<lambda>j1.
     rbind (cJSON_AddStringToObject j1 ''MAC'' (Some mac)) (\<lambda>j2.
     rbind (cJSON_AddStringToObject cJSON_CreateObject ''msg'' (Some ''login in'')) (\<lambda>pl.
       Inr (cJSON_AddItemToObject j2 ''PL'' (Some pl)))))"

section \<open>Properties\<close>

lemma cycle_good:
  assumes "\<And>a f. list_all (\<lambda>b. b = 0xFF) (rd a (er a f))"
    and "\<And>a b f. rd a (wr a (replicate PAGE b) (er a f)) = replicate PAGE b"
  shows "fst (test_flash_one_cycle er rd wr addr f) = 0"
  using assms by (simp add: test_flash_one_cycle_def Let_def list_all_iff)

lemma one_turn:
  assumes "\<And>addr f. fst (test_flash_one_cycle er rd wr addr f) = 0"
  shows "\<exists>f'. flash_turn er rd wr u (n, es, f) = (n, es @ [Pin LED True, Pin HFGPIO_F_NLINK False], f')"
proof -
  obtain f1 where 1: "test_flash_one_cycle er rd wr u f = (0, f1)" using assms by (metis prod.collapse)
  obtain f2 where 2: "test_flash_one_cycle er rd wr (u + 4096) f1 = (0, f2)"
    using assms by (metis prod.collapse)
  from 1 2 show ?thesis by (simp add: flash_turn_def)
qed

lemma turns:
  assumes "\<And>addr f. fst (test_flash_one_cycle er rd wr addr f) = 0"
  shows "\<exists>f'. (flash_turn er rd wr u ^^ n) (0, [], f) =
    (0, concat (replicate n [Pin LED True, Pin HFGPIO_F_NLINK False]), f')"
proof (induction n)
  case (Suc n)
  then obtain f' where "(flash_turn er rd wr u ^^ n) (0, [], f) =
    (0, concat (replicate n [Pin LED True, Pin HFGPIO_F_NLINK False]), f')" by blast
  moreover have "concat (replicate n xs) @ xs = concat (replicate (Suc n) xs)" for xs :: "io list"
    by (induction n) auto
  ultimately show ?case using one_turn [OF assms, of u 0 _ f'] by (simp del: replicate_Suc) metis
qed simp

lemma last_led: "0 < n \<Longrightarrow> pin_level LED (concat (replicate n [Pin LED True, Pin HFGPIO_F_NLINK False])) = Some True"
proof (induction n)
  case (Suc n)
  have "concat (replicate (Suc n) xs) = concat (replicate n xs) @ xs" for xs :: "io list"
    by (induction n) auto
  then show ?case by (simp add: HFGPIO_F_NLINK_def pin_ids del: replicate_Suc)
qed simp

text \<open>
  The flash test passes on a good flash and leaves the LED on: if erasing a page gives
  \<open>0xFF\<close> and writing an erased page stores what is written, none of the 10000 turns counts a
  failure; and because the loop switches another pin off than it switched on, the LED is lit
  when it ends.
\<close>

theorem flash_test_passes:
  assumes "\<And>a f. list_all (\<lambda>b. b = 0xFF) (rd a (er a f))"
    and "\<And>a b f. rd a (wr a (replicate PAGE b) (er a f)) = replicate PAGE b"
  shows "\<exists>es f'. test_flash_start er rd wr USERPAGE f = (0, es, f') \<and> pin_level LED es = Some True"
proof -
  have "fst (test_flash_one_cycle er rd wr a f) = 0" for a f
    by (rule cycle_good) (rule assms)+
  then show ?thesis using turns [of er rd wr 10000 USERPAGE f] last_led [of 10000]
    by (auto simp: test_flash_start_def)
qed

theorem flash_test_passes_witness:
  "\<exists>es f'. test_flash_start (\<lambda>a f. f(a := replicate PAGE 0xFF)) (\<lambda>a f. f a) (\<lambda>a bs f. f(a := bs))
             8192 (\<lambda>_. []) = (0, es, f') \<and> pin_level LED es = Some True"
  by (rule flash_test_passes) (simp_all add: list_all_iff)

text \<open>A write that reports an error with a negative number is taken for a complete one.\<close>

lemma write_error_missed:
  assumes "- 2147483648 \<le> r" "r < 0" shows "\<not> short_write r"
proof -
  have "r mod 4294967296 = (r + 4294967296) mod 4294967296" by simp
  also have "\<dots> = r + 4294967296" using assms by (intro mod_pos_pos_trivial) simp_all
  finally have "r mod 4294967296 = r + 4294967296" .
  then show ?thesis using assms by (simp add: short_write_def word_less_alt uint_word_of_int)
qed

end
