(* ===== verification/Mdns.thy ===== *)
theory Mdns
  imports Httpd
begin

text \<open>
  The service record of \<open>src/user_mdns.c\<close>: the text under which the plug announces itself.

  Each call but the first has the buffer as its target and as an argument of \<open>%s\<close>, which the
  C standard leaves undefined; the model takes the library to copy from left to right, so the
  old text stays in place and the rest is appended.
\<close>

definition MAC_SIZE :: nat where "MAC_SIZE = 21"

definition TXT_SIZE :: nat where "TXT_SIZE = 250"

text \<open>\<open>sprintf(temp_txt, "%s...%s...", temp_txt, ...)\<close> for what follows the first \<open>%s\<close>.\<close>

definition append_txt :: "string \<Rightarrow> string \<Rightarrow> string res" where
  "append_txt rest s =
     (if length s + length rest + 1 \<le> TXT_SIZE then Inr (s @ rest) else Inl BufferOverflow)"

definition txt_items :: "string \<Rightarrow> string list" where
  "txt_items mac =
     [''mac='' @ mac @ '':'', ''name='' @ ''TC1_A2'' @ '':'', ''author='' @ ''Farry'' @ '':'',
      ''email='' @ ''newfarry@126.com'' @ '':'',
      ''firmware-respository='' @ ''github.com/IoTDevice/phicomm_tc1_a2'' @ '':'',
      ''model='' @ ''com.iotserv.devices.phicomm_tc1_a1'' @ '':'', ''id='' @ mac]"

text \<open>The thread: the MAC address, as the SDK copies it, and the text of the record.\<close>

definition mdns_thread :: "string \<Rightarrow> (string \<times> string) res" where
  "mdns_thread mac =
     rbind (strcpy_buf (replicate MAC_SIZE NUL) mac) (\<lambda>module_mac.
     rbind (buf_str module_mac) (\<lambda>m.
     rbind (foldM append_txt (txt_items m) []) (\<lambda>s. Inr (m, s))))"

lemma foldM_append_txt:
  "length s + length (concat ls) < TXT_SIZE \<Longrightarrow> foldM append_txt ls s = Inr (s @ concat ls)"
  by (induction ls arbitrary: s) (auto simp: append_txt_def)

text \<open>
  The announcement fits: for a MAC address of up to 20 characters the thread overruns
  neither the 21 bytes of the address nor the 250 bytes of the record, and the record is the
  seven entries one after the other, with the address in the first and the last.
\<close>

theorem mdns_record_fits:
  assumes "length mac \<le> 20" "NUL \<notin> set mac"
  shows "mdns_thread mac = Inr (mac, concat (txt_items mac)) \<and> length (concat (txt_items mac)) < 250"
proof -
  obtain b where b: "strcpy_buf (replicate MAC_SIZE NUL) mac = Inr b"
    using assms(1) by (simp add: strcpy_buf_def MAC_SIZE_def)
  have l: "length (concat (txt_items mac)) < TXT_SIZE"
    using assms(1) by (simp add: txt_items_def TXT_SIZE_def)
  then show ?thesis using b buf_str_strcpy [OF b assms(2)] foldM_append_txt [of "[]" "txt_items mac"]
    by (simp add: mdns_thread_def TXT_SIZE_def)
qed

theorem mdns_record_fits_witness:
  "mdns_thread ''D0BAE4638A1F'' = Inr (''D0BAE4638A1F'', concat (txt_items ''D0BAE4638A1F''))"
  using mdns_record_fits [of "''D0BAE4638A1F''"] by simp

end
