(* ===== verification/Mqtt.thy ===== *)
theory Mqtt
  imports CLib "HOL-Library.Signed_Division"
begin

text \<open>
  The MQTT packet codec the firmware ships in \<open>src/thirdpartylib/Linkkit/src/protocol/mqtt/MQTTPacket\<close>:
  serialisers that write a packet into a buffer and deserialisers that take one apart.

  A buffer to be written is the list of the bytes written so far and its capacity; writing past
  the capacity is the fault \<open>BufferOverflow\<close>.  A buffer to be read is the list of its bytes, a
  pointer into it a position, and reading at or behind its end the fault \<open>OutOfBounds\<close>.
\<close>

section \<open>Types\<close>

text \<open>\<open>enum errors\<close> and \<open>enum msgTypes\<close>.\<close>

definition MQTTPACKET_BUFFER_TOO_SHORT :: int where "MQTTPACKET_BUFFER_TOO_SHORT = - 2"
definition MQTTPACKET_READ_ERROR :: int where "MQTTPACKET_READ_ERROR = - 1"

definition CONNECT :: u8 where "CONNECT = 1"
definition CONNACK :: u8 where "CONNACK = 2"
definition PUBLISH :: u8 where "PUBLISH = 3"
definition PUBACK :: u8 where "PUBACK = 4"
definition PUBREC :: u8 where "PUBREC = 5"
definition PUBREL :: u8 where "PUBREL = 6"
definition PUBCOMP :: u8 where "PUBCOMP = 7"
definition SUBSCRIBE :: u8 where "SUBSCRIBE = 8"
definition SUBACK :: u8 where "SUBACK = 9"
definition UNSUBSCRIBE :: u8 where "UNSUBSCRIBE = 10"
definition UNSUBACK :: u8 where "UNSUBACK = 11"
definition PINGREQ :: u8 where "PINGREQ = 12"
definition DISCONNECT :: u8 where "DISCONNECT = 14"

lemmas msgTypes = CONNECT_def CONNACK_def PUBLISH_def PUBACK_def PUBREC_def PUBREL_def
  PUBCOMP_def SUBSCRIBE_def SUBACK_def UNSUBSCRIBE_def UNSUBACK_def PINGREQ_def DISCONNECT_def

text \<open>The bit-fields of \<open>MQTTHeader\<close>: retain, qos, dup and type from the low end.\<close>

definition mqtt_header :: "u8 \<Rightarrow> u8 \<Rightarrow> u8 \<Rightarrow> u8 \<Rightarrow> u8" where
  "mqtt_header ty dup qos retain =
     push_bit 4 (ty AND 15) OR push_bit 3 (dup AND 1) OR push_bit 1 (qos AND 3) OR (retain AND 1)"

definition header_type :: "u8 \<Rightarrow> u8" where "header_type b = drop_bit 4 b AND 15"
definition header_dup :: "u8 \<Rightarrow> u8" where "header_dup b = drop_bit 3 b AND 1"
definition header_qos :: "u8 \<Rightarrow> u8" where "header_qos b = drop_bit 1 b AND 3"
definition header_retain :: "u8 \<Rightarrow> u8" where "header_retain b = b AND 1"

text \<open>
  A string by a C string or by a length and a pointer.  The memory a pointer points to is the
  list of the bytes from there on.
\<close>

record MQTTString =
  m_cstring :: "string option"
  m_len :: int
  m_data :: "u8 list option"

definition MQTTString_initializer :: MQTTString where
  "MQTTString_initializer = \<lparr>m_cstring = None, m_len = 0, m_data = None\<rparr>"

section \<open>Writing\<close>

text \<open>Appending bytes to a buffer of a capacity.\<close>

definition put :: "nat \<Rightarrow> u8 list \<Rightarrow> u8 list \<Rightarrow> u8 list res" where
  "put cap bs out = (if length out + length bs \<le> cap then Inr (out @ bs) else Inl BufferOverflow)"

definition writeChar :: "nat \<Rightarrow> u8 \<Rightarrow> u8 list \<Rightarrow> u8 list res" where
  "writeChar cap c = put cap [c]"

definition writeInt :: "nat \<Rightarrow> int \<Rightarrow> u8 list \<Rightarrow> u8 list res" where
  "writeInt cap n out =
     rbind (put cap [int_to_u8 (n sdiv 256)] out) (put cap [int_to_u8 (n smod 256)])"

definition writeCString :: "nat \<Rightarrow> string \<Rightarrow> u8 list \<Rightarrow> u8 list res" where
  "writeCString cap s out =
     rbind (writeInt cap (int (length s)) out) (put cap (map char_u8 s))"

text \<open>\<open>memcpy(p, data, len)\<close>.\<close>

definition bytes_at :: "u8 list option \<Rightarrow> int \<Rightarrow> u8 list res" where
  "bytes_at p n =
     (if n = 0 then Inr [] else rbind (deref p) (\<lambda>m.
        if n < 0 \<or> int (length m) < n then Inl OutOfBounds else Inr (take (nat n) m)))"

definition writeMQTTString :: "nat \<Rightarrow> MQTTString \<Rightarrow> u8 list \<Rightarrow> u8 list res" where
  "writeMQTTString cap s out =
     (if 0 < m_len s
      then rbind (writeInt cap (m_len s) out) (\<lambda>o1.
           rbind (bytes_at (m_data s) (m_len s)) (\<lambda>bs. put cap bs o1))
      else (case m_cstring s of
              Some c \<Rightarrow> writeCString cap c out
            | None \<Rightarrow> writeInt cap 0 out))"

definition MQTTstrlen :: "MQTTString \<Rightarrow> int" where
  "MQTTstrlen s = (case m_cstring s of Some c \<Rightarrow> int (length c) | None \<Rightarrow> m_len s)"

text \<open>The remaining length: seven bits a byte, the low ones first.\<close>

function MQTTPacket_encode :: "int \<Rightarrow> u8 list" where
  "MQTTPacket_encode n =
     (let d = int_to_u8 (n smod 128); n' = n sdiv 128
      in if 0 < n' then (d OR 0x80) # MQTTPacket_encode n' else [d])"
  by pat_completeness auto
termination
  by (relation "measure nat") (auto simp: signed_divide_int_def sgn_if split: if_splits)

declare MQTTPacket_encode.simps [simp del]

definition MQTTPacket_len :: "int \<Rightarrow> int" where
  "MQTTPacket_len rem_len =
     (let n = rem_len + 1
      in if n < 128 then n + 1 else if n < 16384 then n + 2 else if n < 2097151 then n + 3 else n + 4)"

definition encode_to :: "nat \<Rightarrow> int \<Rightarrow> u8 list \<Rightarrow> u8 list res" where
  "encode_to cap n = put cap (MQTTPacket_encode n)"

section \<open>Reading\<close>

definition readChar :: "u8 list \<Rightarrow> nat \<Rightarrow> (u8 \<times> nat) res" where
  "readChar m p = (if p < length m then Inr (m ! p, p + 1) else Inl OutOfBounds)"

definition readInt :: "u8 list \<Rightarrow> nat \<Rightarrow> (int \<times> nat) res" where
  "readInt m p =
     rbind (readChar m p) (\<lambda>(a, p1). rbind (readChar m p1) (\<lambda>(b, p2).
       Inr (256 * u8_to_int a + u8_to_int b, p2)))"

definition getLenStringLen :: "u8 list \<Rightarrow> int res" where
  "getLenStringLen m = rmap fst (readInt m 0)"

text \<open>
  \<open>MQTTPacket_decode\<close> for any source of characters: \<open>get\<close> returns the count, the character and
  the source.  \<open>k\<close> bytes are still allowed.
\<close>

fun decode_loop :: "('g \<Rightarrow> (int \<times> u8 \<times> 'g) res) \<Rightarrow> nat \<Rightarrow> int \<Rightarrow> int \<Rightarrow> int \<Rightarrow> 'g \<Rightarrow> (int \<times> int \<times> 'g) res" where
  "decode_loop get 0 len mult v g = Inr (len + 1, v, g)"
| "decode_loop get (Suc k) len mult v g =
     rbind (get g) (\<lambda>(rc, c, g').
       if rc \<noteq> 1 then Inr (len + 1, v, g')
       else let v' = v + u8_to_int (c AND 127) * mult
            in if c AND 128 \<noteq> 0 then decode_loop get k (len + 1) (mult * 128) v' g'
               else Inr (len + 1, v', g'))"

definition MAX_NO_OF_REMAINING_LENGTH_BYTES :: nat where "MAX_NO_OF_REMAINING_LENGTH_BYTES = 4"

text \<open>The return value, and \<open>*value\<close>.\<close>

definition MQTTPacket_decode :: "('g \<Rightarrow> (int \<times> u8 \<times> 'g) res) \<Rightarrow> 'g \<Rightarrow> (int \<times> int) res" where
  "MQTTPacket_decode get g =
     rmap (\<lambda>(len, v, _). (len, v)) (decode_loop get MAX_NO_OF_REMAINING_LENGTH_BYTES 0 1 0 g)"

definition bufchar :: "u8 list \<Rightarrow> nat \<Rightarrow> (int \<times> u8 \<times> nat) res" where
  "bufchar m p = rmap (\<lambda>(c, p'). (1, c, p')) (readChar m p)"

definition MQTTPacket_decodeBuf :: "u8 list \<Rightarrow> nat \<Rightarrow> (int \<times> int) res" where
  "MQTTPacket_decodeBuf m p = MQTTPacket_decode (bufchar m) p"

text \<open>\<open>curdata += (rc = MQTTPacket_decodeBuf(curdata, &mylen)); enddata = curdata + mylen\<close>.\<close>

definition read_length :: "u8 list \<Rightarrow> nat \<Rightarrow> (int \<times> nat \<times> int) res" where
  "read_length m p =
     rmap (\<lambda>(rc, mylen). (rc, p + nat rc, int (p + nat rc) + mylen)) (MQTTPacket_decodeBuf m p)"

text \<open>The return value, the string and the pointer; \<open>e\<close> is \<open>enddata\<close>.\<close>

definition readMQTTLenString :: "u8 list \<Rightarrow> MQTTString \<Rightarrow> nat \<Rightarrow> int \<Rightarrow> (bool \<times> MQTTString \<times> nat) res" where
  "readMQTTLenString m s p e =
     (if 1 < e - int p
      then rbind (readInt m p) (\<lambda>(n, p1).
           if int p1 + n \<le> e
           then Inr (True, \<lparr>m_cstring = None, m_len = n, m_data = Some (drop p1 m)\<rparr>, p1 + nat n)
           else Inr (False, s\<lparr>m_cstring := None, m_len := n\<rparr>, p1))
      else Inr (False, s\<lparr>m_cstring := None\<rparr>, p))"

text \<open>\<open>memcmp(aptr, bptr, alen) == 0\<close> after the lengths were compared.\<close>

definition MQTTPacket_equals :: "MQTTString \<Rightarrow> string \<Rightarrow> bool res" where
  "MQTTPacket_equals a b =
     (case m_cstring a of
        Some c \<Rightarrow> Inr (c = b)
      | None \<Rightarrow> if m_len a = int (length b)
                then rmap (\<lambda>bs. bs = map char_u8 b) (bytes_at (m_data a) (m_len a))
                else Inr False)"

end
