(* ===== verification/Mqtt_Packets.thy ===== *)
theory Mqtt_Packets
  imports Mqtt
begin

text \<open>
  The packets: \<open>MQTTConnectClient.c\<close>, \<open>MQTTSerializePublish.c\<close>, \<open>MQTTDeserializePublish.c\<close>,
  \<open>MQTTSubscribeClient.c\<close> and \<open>MQTTUnsubscribeClient.c\<close>.

  A serialiser returns its return value and the bytes it wrote.  A deserialiser returns its
  return value and what it stored through its pointers; what it leaves alone keeps the value it
  is given.  The computed lengths are within the range of \<open>int\<close>.
\<close>

section \<open>Serialisers\<close>

text \<open>The header byte, the remaining length, and the rest.\<close>

definition packet_start :: "nat \<Rightarrow> u8 \<Rightarrow> int \<Rightarrow> u8 list res" where
  "packet_start cap header rem_len =
     rbind (writeChar cap header []) (encode_to cap rem_len)"

definition written :: "u8 list \<Rightarrow> int \<times> u8 list" where
  "written out = (int (length out), out)"

definition MQTTSerialize_publishLength :: "int \<Rightarrow> MQTTString \<Rightarrow> int \<Rightarrow> int" where
  "MQTTSerialize_publishLength qos topicName payloadlen =
     2 + MQTTstrlen topicName + payloadlen + (if 0 < qos then 2 else 0)"

definition MQTTSerialize_publish ::
  "nat \<Rightarrow> u8 \<Rightarrow> int \<Rightarrow> u8 \<Rightarrow> u16 \<Rightarrow> MQTTString \<Rightarrow> u8 list option \<Rightarrow> int \<Rightarrow> (int \<times> u8 list) res" where
  "MQTTSerialize_publish buflen dup qos retained packetid topicName payload payloadlen =
     (let rem_len = MQTTSerialize_publishLength qos topicName payloadlen
      in if int buflen < MQTTPacket_len rem_len then Inr (MQTTPACKET_BUFFER_TOO_SHORT, [])
         else rbind (packet_start buflen (mqtt_header PUBLISH dup (int_to_u8 qos) retained) rem_len) (\<lambda>o1.
              rbind (writeMQTTString buflen topicName o1) (\<lambda>o2.
              rbind (if 0 < qos then writeInt buflen (uint packetid) o2 else Inr o2) (\<lambda>o3.
              rbind (bytes_at payload payloadlen) (\<lambda>bs.
              rmap written (put buflen bs o3))))))"

definition MQTTSerialize_ack :: "nat \<Rightarrow> u8 \<Rightarrow> u8 \<Rightarrow> u16 \<Rightarrow> (int \<times> u8 list) res" where
  "MQTTSerialize_ack buflen packettype dup packetid =
     (if buflen < 4 then Inr (MQTTPACKET_BUFFER_TOO_SHORT, [])
      else rbind (packet_start buflen
                    (mqtt_header packettype dup (if packettype = PUBREL then 1 else 0) 0) 2) (\<lambda>o1.
           rmap written (writeInt buflen (uint packetid) o1)))"

definition MQTTSerialize_pubrel :: "nat \<Rightarrow> u8 \<Rightarrow> u16 \<Rightarrow> (int \<times> u8 list) res" where
  "MQTTSerialize_pubrel buflen dup packetid = MQTTSerialize_ack buflen PUBREL dup packetid"

definition MQTTSerialize_pubcomp :: "nat \<Rightarrow> u16 \<Rightarrow> (int \<times> u8 list) res" where
  "MQTTSerialize_pubcomp buflen packetid = MQTTSerialize_ack buflen PUBCOMP 0 packetid"

definition MQTTSerialize_zero :: "nat \<Rightarrow> u8 \<Rightarrow> (int \<times> u8 list) res" where
  "MQTTSerialize_zero buflen packettype =
     (if buflen < 2 then Inr (MQTTPACKET_BUFFER_TOO_SHORT, [])
      else rmap written (packet_start buflen (mqtt_header packettype 0 0 0) 0))"

definition MQTTSerialize_disconnect :: "nat \<Rightarrow> (int \<times> u8 list) res" where
  "MQTTSerialize_disconnect buflen = MQTTSerialize_zero buflen DISCONNECT"

definition MQTTSerialize_pingreq :: "nat \<Rightarrow> (int \<times> u8 list) res" where
  "MQTTSerialize_pingreq buflen = MQTTSerialize_zero buflen PINGREQ"

text \<open>The arrays of topics and qualities of service have \<open>count\<close> entries.\<close>

definition MQTTSerialize_subscribeLength :: "MQTTString list \<Rightarrow> int" where
  "MQTTSerialize_subscribeLength topics = foldl (\<lambda>len t. len + (2 + MQTTstrlen t + 1)) 2 topics"

definition MQTTSerialize_subscribe ::
  "nat \<Rightarrow> u8 \<Rightarrow> u16 \<Rightarrow> (MQTTString \<times> int) list \<Rightarrow> (int \<times> u8 list) res" where
  "MQTTSerialize_subscribe buflen dup packetid topics =
     (let rem_len = MQTTSerialize_subscribeLength (map fst topics)
      in if int buflen < MQTTPacket_len rem_len then Inr (MQTTPACKET_BUFFER_TOO_SHORT, [])
         else rbind (packet_start buflen (mqtt_header SUBSCRIBE dup 1 0) rem_len) (\<lambda>o1.
              rbind (writeInt buflen (uint packetid) o1) (\<lambda>o2.
              rmap written (foldM (\<lambda>(t, q) out. rbind (writeMQTTString buflen t out)
                                               (writeChar buflen (int_to_u8 q))) topics o2))))"

definition MQTTSerialize_unsubscribeLength :: "MQTTString list \<Rightarrow> int" where
  "MQTTSerialize_unsubscribeLength topics = foldl (\<lambda>len t. len + (2 + MQTTstrlen t)) 2 topics"

definition MQTTSerialize_unsubscribe ::
  "nat \<Rightarrow> u8 \<Rightarrow> u16 \<Rightarrow> MQTTString list \<Rightarrow> (int \<times> u8 list) res" where
  "MQTTSerialize_unsubscribe buflen dup packetid topics =
     (let rem_len = MQTTSerialize_unsubscribeLength topics
      in if int buflen < MQTTPacket_len rem_len then Inr (MQTTPACKET_BUFFER_TOO_SHORT, [])
         else rbind (packet_start buflen (mqtt_header UNSUBSCRIBE dup 1 0) rem_len) (\<lambda>o1.
              rbind (writeInt buflen (uint packetid) o1) (\<lambda>o2.
              rmap written (foldM (writeMQTTString buflen) topics o2))))"

section \<open>Connecting\<close>

record MQTTPacket_willOptions =
  w_topicName :: MQTTString
  w_message :: MQTTString
  w_retained :: u8
  w_qos :: u8

record MQTTPacket_connectData =
  c_MQTTVersion :: u8
  c_clientID :: MQTTString
  c_keepAliveInterval :: u16
  c_cleansession :: u8
  c_willFlag :: u8
  c_will :: MQTTPacket_willOptions
  c_username :: MQTTString
  c_password :: MQTTString

text \<open>\<open>s.cstring || s.lenstring.data\<close>.\<close>

definition given :: "MQTTString \<Rightarrow> bool" where
  "given s \<longleftrightarrow> m_cstring s \<noteq> None \<or> m_data s \<noteq> None"

definition MQTTSerialize_connectLength :: "MQTTPacket_connectData \<Rightarrow> int" where
  "MQTTSerialize_connectLength c =
     (if c_MQTTVersion c = 3 then 12 else if c_MQTTVersion c = 4 then 10 else 0)
     + (MQTTstrlen (c_clientID c) + 2)
     + (if c_willFlag c \<noteq> 0
        then MQTTstrlen (w_topicName (c_will c)) + 2 + MQTTstrlen (w_message (c_will c)) + 2 else 0)
     + (if given (c_username c) then MQTTstrlen (c_username c) + 2 else 0)
     + (if given (c_password c) then MQTTstrlen (c_password c) + 2 else 0)"

text \<open>The bit-fields of \<open>MQTTConnectFlags\<close>.\<close>

definition connect_flags :: "MQTTPacket_connectData \<Rightarrow> u8" where
  "connect_flags c =
     push_bit 1 (c_cleansession c AND 1)
     OR (if c_willFlag c \<noteq> 0
         then push_bit 2 1 OR push_bit 3 (w_qos (c_will c) AND 3) OR push_bit 5 (w_retained (c_will c) AND 1)
         else 0)
     OR (if given (c_username c) then push_bit 7 1 else 0)
     OR (if given (c_password c) then push_bit 6 1 else 0)"

definition MQTTSerialize_connect :: "nat \<Rightarrow> MQTTPacket_connectData \<Rightarrow> (int \<times> u8 list) res" where
  "MQTTSerialize_connect buflen c =
     (let len = MQTTSerialize_connectLength c
      in if int buflen < MQTTPacket_len len then Inr (MQTTPACKET_BUFFER_TOO_SHORT, [])
         else rbind (packet_start buflen (mqtt_header CONNECT 0 0 0) len) (\<lambda>o1.
              rbind (if c_MQTTVersion c = 4
                     then rbind (writeCString buflen ''MQTT'' o1) (writeChar buflen 4)
                     else rbind (writeCString buflen ''MQIsdp'' o1) (writeChar buflen 3)) (\<lambda>o2.
              rbind (writeChar buflen (connect_flags c) o2) (\<lambda>o3.
              rbind (writeInt buflen (uint (c_keepAliveInterval c)) o3) (\<lambda>o4.
              rbind (writeMQTTString buflen (c_clientID c) o4) (\<lambda>o5.
              rbind (if c_willFlag c \<noteq> 0
                     then rbind (writeMQTTString buflen (w_topicName (c_will c)) o5)
                            (writeMQTTString buflen (w_message (c_will c)))
                     else Inr o5) (\<lambda>o6.
              rbind (if given (c_username c) then writeMQTTString buflen (c_username c) o6 else Inr o6) (\<lambda>o7.
              rmap written (if given (c_password c) then writeMQTTString buflen (c_password c) o7
                         else Inr o7)))))))))"

section \<open>Deserialisers\<close>

definition MQTTDeserialize_connack :: "u8 list \<Rightarrow> u8 \<times> u8 \<Rightarrow> (int \<times> u8 \<times> u8) res" where
  "MQTTDeserialize_connack m old =
     rbind (readChar m 0) (\<lambda>(header, p).
       if header_type header \<noteq> CONNACK then Inr (0, old)
       else rbind (read_length m p) (\<lambda>(rc, p1, e).
            if e - int p1 < 2 then Inr (rc, old)
            else rbind (readChar m p1) (\<lambda>(flags, p2).
                 rbind (readChar m p2) (\<lambda>(code, _). Inr (1, drop_bit 7 flags, code)))))"

record publish =
  pb_dup :: u8
  pb_qos :: int
  pb_retained :: u8
  pb_packetid :: u16
  pb_topic :: MQTTString
  pb_payload :: "u8 list option"
  pb_payloadlen :: int

definition MQTTDeserialize_publish :: "u8 list \<Rightarrow> publish \<Rightarrow> (int \<times> publish) res" where
  "MQTTDeserialize_publish m old =
     rbind (readChar m 0) (\<lambda>(header, p).
       if header_type header \<noteq> PUBLISH then Inr (0, old)
       else let qos = u8_to_int (header_qos header);
                b1 = old\<lparr>pb_dup := header_dup header, pb_qos := qos, pb_retained := header_retain header\<rparr>
            in rbind (read_length m p) (\<lambda>(rc, p1, e).
               rbind (readMQTTLenString m (pb_topic b1) p1 e) (\<lambda>(ok, topic, p2).
                 let b2 = b1\<lparr>pb_topic := topic\<rparr>
                 in if \<not> ok \<or> e - int p2 < 0 then Inr (rc, b2)
                    else rbind (if 0 < qos
                                then rmap (\<lambda>(n, p3). (b2\<lparr>pb_packetid := word_of_int n\<rparr>, p3)) (readInt m p2)
                                else Inr (b2, p2)) (\<lambda>(b3, p3).
                         Inr (1, b3\<lparr>pb_payloadlen := e - int p3, pb_payload := Some (drop p3 m)\<rparr>)))))"

definition MQTTDeserialize_ack :: "u8 list \<Rightarrow> u8 \<times> u8 \<times> u16 \<Rightarrow> (int \<times> u8 \<times> u8 \<times> u16) res" where
  "MQTTDeserialize_ack m old =
     rbind (readChar m 0) (\<lambda>(header, p).
     rbind (read_length m p) (\<lambda>(rc, p1, e).
       if e - int p1 < 2 then Inr (rc, header_type header, header_dup header, snd (snd old))
       else rbind (readInt m p1) (\<lambda>(n, _).
            Inr (1, header_type header, header_dup header, word_of_int n))))"

text \<open>
  The loop of \<open>MQTTDeserialize_suback\<close>: \<open>n\<close> bytes are left before \<open>enddata\<close>; the array that
  is filled has \<open>maxcount\<close> entries.
\<close>

fun suback_loop :: "u8 list \<Rightarrow> int \<Rightarrow> nat \<Rightarrow> nat \<Rightarrow> int list \<Rightarrow> (bool \<times> int list) res" where
  "suback_loop m maxcount 0 p qs = Inr (True, qs)"
| "suback_loop m maxcount (Suc n) p qs =
     (if maxcount < int (length qs) then Inr (False, qs)
      else rbind (readChar m p) (\<lambda>(c, p').
           if maxcount \<le> int (length qs) then Inl BufferOverflow
           else suback_loop m maxcount n p' (qs @ [u8_to_int c])))"

definition MQTTDeserialize_suback ::
  "u8 list \<Rightarrow> int \<Rightarrow> u16 \<times> int list \<Rightarrow> (int \<times> u16 \<times> int list) res" where
  "MQTTDeserialize_suback m maxcount old =
     rbind (readChar m 0) (\<lambda>(header, p).
       if header_type header \<noteq> SUBACK then Inr (0, old)
       else rbind (read_length m p) (\<lambda>(rc, p1, e).
            if e - int p1 < 2 then Inr (rc, old)
            else rbind (readInt m p1) (\<lambda>(n, p2).
                 rbind (suback_loop m maxcount (nat (e - int p2)) p2 []) (\<lambda>(ok, qs).
                   Inr (if ok then 1 else - 1, word_of_int n, qs)))))"

definition MQTTDeserialize_unsuback :: "u8 list \<Rightarrow> u16 \<Rightarrow> (int \<times> u16) res" where
  "MQTTDeserialize_unsuback m old =
     rbind (MQTTDeserialize_ack m (0, 0, old)) (\<lambda>(rc, ty, dup, packetid).
       Inr (if ty = UNSUBACK then 1 else rc, packetid))"

end
