(* ===== verification/Mqtt_Props.thy ===== *)
theory Mqtt_Props
  imports Mqtt_Packets
begin

text \<open>
  What the codec promises: the remaining length is decoded to what was encoded, the computed
  sizes are enough, a published message is taken apart into what it was made of; and where it
  fails: an unusable topic is reported as success, and a full array of results is overrun.
\<close>

section \<open>The remaining length\<close>

lemma u8_low: "n < 128 \<Longrightarrow> (of_nat n :: u8) AND 127 = of_nat n"
proof -
  assume n: "n < 128"
  have "(of_nat n :: u8) AND 127 = take_bit 7 (of_nat n)"
    by (simp add: take_bit_eq_mask mask_eq_exp_minus_1)
  also have "\<dots> = of_nat (take_bit 7 n)" by (simp add: take_bit_of_nat)
  also have "take_bit 7 n = n" using n by (simp add: take_bit_nat_eq_self)
  finally show ?thesis .
qed

lemma u8_high: "n < 128 \<Longrightarrow> \<not> bit (of_nat n :: u8) 7"
proof -
  assume "n < 128"
  have "\<not> bit (x AND 127) 7" for x :: u8 by (simp add: bit_and_iff)
  then show ?thesis using u8_low [OF \<open>n < 128\<close>] by metis
qed

lemma and_128: "(x :: u8) AND 128 = 0 \<longleftrightarrow> \<not> bit x 7"
  using and_exp_eq_0_iff_not_bit [of x 7] by simp

lemma more_flag:
  assumes "n < 128"
  shows "((of_nat n :: u8) OR 128) AND 127 = of_nat n" "((of_nat n :: u8) OR 128) AND 128 \<noteq> 0"
    "(of_nat n :: u8) AND 128 = 0"
proof -
  have "(128 :: u8) AND 127 = 0" by simp
  then show "((of_nat n :: u8) OR 128) AND 127 = of_nat n"
    using u8_low [OF assms] by (simp add: bit.conj_disj_distrib2)
  have "bit (128 :: u8) 7" by simp
  then show "((of_nat n :: u8) OR 128) AND 128 \<noteq> 0" by (simp add: and_128 bit_or_iff)
  show "(of_nat n :: u8) AND 128 = 0" using u8_high [OF assms] by (simp add: and_128)
qed

lemma encode_nat:
  "MQTTPacket_encode (int n) =
     (if n < 128 then [of_nat n] else (of_nat (n mod 128) OR 128) # MQTTPacket_encode (int (n div 128)))"
proof -
  have m: "int n smod 128 = int (n mod 128)" "int n sdiv 128 = int (n div 128)"
    by (cases "n = 0"; simp add: signed_divide_int_def signed_modulo_int_def zdiv_int zmod_int)+
  have "MQTTPacket_encode (int n) =
      (let d = int_to_u8 (int n smod 128); n' = int n sdiv 128
       in if 0 < n' then (d OR 0x80) # MQTTPacket_encode n' else [d])"
    by (rule MQTTPacket_encode.simps)
  moreover have "0 < n div 128 \<longleftrightarrow> \<not> n < 128" by (auto simp: div_greater_zero_iff)
  ultimately show ?thesis unfolding m by (simp add: Let_def int_to_u8_def)
qed

lemma bufchar_at: "bufchar (pre @ c # rest) (length pre) = Inr (1, c, length pre + 1)"
  by (simp add: bufchar_def readChar_def)

lemma u8_small: "n < 128 \<Longrightarrow> u8_to_int (of_nat n) = int n"
  by (simp add: u8_to_int_def uint_nat unat_of_nat)

lemma decode_encode:
  assumes "n < 128 ^ k" "0 < k"
  shows "decode_loop (bufchar (pre @ MQTTPacket_encode (int n) @ rest)) k len mult v (length pre) =
    Inr (len + int (length (MQTTPacket_encode (int n))), v + int n * mult,
         length pre + length (MQTTPacket_encode (int n)))"
  using assms
proof (induction k arbitrary: n pre len mult v)
  case (Suc k)
  show ?case
  proof (cases "n < 128")
    case True
    then show ?thesis
      by (simp add: encode_nat [of n] bufchar_at more_flag(3) u8_low u8_small)
  next
    case False
    let ?c = "(of_nat (n mod 128) :: u8) OR 128" and ?e = "MQTTPacket_encode (int (n div 128))"
    have e: "MQTTPacket_encode (int n) = ?c # ?e" using False by (simp add: encode_nat [of n])
    have c: "?c AND 127 = of_nat (n mod 128)" "?c AND 128 \<noteq> 0"
      by (simp_all add: more_flag)
    have "0 < k" using Suc.prems(1) False by (cases k) auto
    moreover have "n div 128 < 128 ^ k" using Suc.prems(1) by (simp add: less_mult_imp_div_less mult.commute)
    ultimately have ih: "decode_loop (bufchar ((pre @ [?c]) @ ?e @ rest)) k (len + 1) (mult * 128)
        (v + int (n mod 128) * mult) (length (pre @ [?c])) =
      Inr (len + 1 + int (length ?e), v + int (n mod 128) * mult + int (n div 128) * (mult * 128),
           length (pre @ [?c]) + length ?e)"
      using Suc.IH by blast
    have "decode_loop (bufchar (pre @ (?c # ?e) @ rest)) (Suc k) len mult v (length pre) =
        decode_loop (bufchar ((pre @ [?c]) @ ?e @ rest)) k (len + 1) (mult * 128)
          (v + int (n mod 128) * mult) (length (pre @ [?c]))"
      using c bufchar_at [of pre ?c "?e @ rest"] by (simp add: Let_def u8_small)
    moreover have "v + int (n mod 128) * mult + int (n div 128) * (mult * 128) = v + int n * mult"
    proof -
      have "int n = int (n mod 128) + int (n div 128) * 128" by (simp add: zmod_int zdiv_int)
      then have "int n * mult = (int (n mod 128) + int (n div 128) * 128) * mult" by simp
      then show ?thesis by (simp only: distrib_right mult.assoc mult.commute [of 128])
    qed
    ultimately show ?thesis unfolding e by (simp only: ih) simp
  qed
qed simp

lemma decodeBuf_encode:
  assumes "n < 268435456"
  shows "MQTTPacket_decodeBuf (pre @ MQTTPacket_encode (int n) @ rest) (length pre) =
    Inr (int (length (MQTTPacket_encode (int n))), int n)"
  using decode_encode [of n 4 pre rest 0 1 0] assms
  by (simp add: MQTTPacket_decodeBuf_def MQTTPacket_decode_def MAX_NO_OF_REMAINING_LENGTH_BYTES_def)

lemma encode_length:
  "length (MQTTPacket_encode (int n)) = (if n < 128 then 1 else 1 + length (MQTTPacket_encode (int (n div 128))))"
  by (simp add: encode_nat [of n])

lemma encode_size:
  assumes "n < 268435456"
  shows "int (length (MQTTPacket_encode (int n))) + int n + 1 \<le> MQTTPacket_len (int n)"
    and "MQTTPacket_len (int n) \<le> int n + 5"
  using assms encode_length [of n] encode_length [of "n div 128"] encode_length [of "n div 128 div 128"]
    encode_length [of "n div 128 div 128 div 128"]
  by (auto simp: MQTTPacket_len_def Let_def div_mult2_eq [symmetric] less_mult_imp_div_less)

text \<open>
  Lengths survive the wire: the bytes \<open>MQTTPacket_encode\<close> writes for a length below
  268435456 are at most four, fit the size \<open>MQTTPacket_len\<close> reserves for the packet, and are
  decoded to the same length wherever they stand in a buffer.
\<close>

theorem remaining_length_roundtrip:
  assumes "0 \<le> n" "n < 268435456"
  shows "MQTTPacket_decodeBuf (pre @ MQTTPacket_encode n @ rest) (length pre) =
           Inr (int (length (MQTTPacket_encode n)), n)
    \<and> 1 + int (length (MQTTPacket_encode n)) + n \<le> MQTTPacket_len n"
proof -
  from assms obtain k where "n = int k" "k < 268435456" by (metis nat_int nonneg_int_cases of_nat_less_iff of_nat_numeral)
  then show ?thesis using decodeBuf_encode [of k pre rest] encode_size(1) [of k] by simp
qed

theorem remaining_length_roundtrip_witness:
  "MQTTPacket_decodeBuf ([48] @ MQTTPacket_encode 321 @ [7]) (length [48 :: u8]) =
     Inr (int (length (MQTTPacket_encode 321)), 321)"
  using remaining_length_roundtrip [of 321 "[48]" "[7]"] by simp

section \<open>Headers and strings\<close>

lemma and_masks:
  "(x :: u8) AND 15 = take_bit 4 x" "(x :: u8) AND 3 = take_bit 2 x" "(x :: u8) AND 1 = take_bit 1 x"
  by (simp_all add: take_bit_eq_mask mask_eq_exp_minus_1)

lemma header_fields:
  "header_type (mqtt_header ty dup qos ret) = ty AND 15"
  "header_dup (mqtt_header ty dup qos ret) = dup AND 1"
  "header_qos (mqtt_header ty dup qos ret) = qos AND 3"
  "header_retain (mqtt_header ty dup qos ret) = ret AND 1"
  unfolding header_type_def header_dup_def header_qos_def header_retain_def mqtt_header_def and_masks
  by (rule bit_eqI; simp only: bit_take_bit_iff bit_drop_bit_eq bit_push_bit_iff bit_or_iff comp_apply;
      auto)+

text \<open>The bytes a string stands for, and strings whose length and pointer fit together.\<close>

definition mqtt_bytes :: "MQTTString \<Rightarrow> u8 list" where
  "mqtt_bytes s =
     (if 0 < m_len s then take (nat (m_len s)) (the (m_data s))
      else (case m_cstring s of None \<Rightarrow> [] | Some c \<Rightarrow> map char_u8 c))"

definition mqtt_ok :: "MQTTString \<Rightarrow> bool" where
  "mqtt_ok s \<longleftrightarrow> length (mqtt_bytes s) < 65536
     \<and> (if 0 < m_len s
        then m_cstring s = None \<and> (case m_data s of None \<Rightarrow> False | Some m \<Rightarrow> m_len s \<le> int (length m))
        else m_cstring s = None \<longrightarrow> m_len s = 0)"

lemma MQTTstrlen_bytes: "mqtt_ok s \<Longrightarrow> MQTTstrlen s = int (length (mqtt_bytes s))"
  by (auto simp: mqtt_ok_def MQTTstrlen_def mqtt_bytes_def min_def split: option.splits if_splits)

definition int2 :: "nat \<Rightarrow> u8 list" where
  "int2 n = [of_nat (n div 256), of_nat (n mod 256)]"

lemma length_int2 [simp]: "length (int2 n) = 2"
  by (simp add: int2_def)

lemma put_fits: "length out + length bs \<le> cap \<Longrightarrow> put cap bs out = Inr (out @ bs)"
  by (simp add: put_def)

lemma writeInt_fits:
  assumes "length out + 2 \<le> cap"
  shows "writeInt cap (int n) out = Inr (out @ int2 n)"
proof -
  have "int n sdiv 256 = int (n div 256)" "int n smod 256 = int (n mod 256)"
    by (cases "n = 0"; simp add: signed_divide_int_def signed_modulo_int_def zdiv_int zmod_int)+
  then show ?thesis using assms by (simp add: writeInt_def put_fits int_to_u8_def int2_def)
qed

lemma writeMQTTString_fits:
  assumes "mqtt_ok s" "length out + 2 + length (mqtt_bytes s) \<le> cap"
  shows "writeMQTTString cap s out = Inr (out @ int2 (length (mqtt_bytes s)) @ mqtt_bytes s)"
proof (cases "0 < m_len s")
  case True
  then obtain m where m: "m_data s = Some m" "m_len s \<le> int (length m)" "m_cstring s = None"
    using assms(1) by (auto simp: mqtt_ok_def split: option.splits)
  then have b: "mqtt_bytes s = take (nat (m_len s)) m" and n: "m_len s = int (length (mqtt_bytes s))"
    using True by (auto simp: mqtt_bytes_def min_def)
  have w: "writeInt cap (m_len s) out = Inr (out @ int2 (length (mqtt_bytes s)))"
    unfolding n by (rule writeInt_fits) (use assms(2) in simp)
  have "bytes_at (m_data s) (m_len s) = Inr (mqtt_bytes s)" using True m b by (simp add: bytes_at_def)
  then show ?thesis using True w assms(2) by (simp add: writeMQTTString_def put_fits)
next
  case False
  then show ?thesis using assms writeInt_fits [of out cap 0]
      writeInt_fits [of out cap "length (the (m_cstring s))"]
    by (auto simp: writeMQTTString_def mqtt_bytes_def writeCString_def put_fits split: option.splits)
qed

lemma readChar_at: "readChar (pre @ c # rest) (length pre) = Inr (c, length pre + 1)"
  by (simp add: readChar_def)

lemma readInt_at:
  assumes "n < 65536"
  shows "readInt (pre @ int2 n @ rest) (length pre) = Inr (int n, length pre + 2)"
proof -
  have "n div 256 < 256" using assms by (simp add: less_mult_imp_div_less)
  then have "u8_to_int (of_nat (n div 256)) = int (n div 256)" "u8_to_int (of_nat (n mod 256)) = int (n mod 256)"
    by (simp_all add: u8_to_int_def uint_nat unat_of_nat)
  moreover have "256 * int (n div 256) + int (n mod 256) = int n" by (simp add: zmod_int zdiv_int)
  ultimately show ?thesis
    using readChar_at [of pre "of_nat (n div 256)" "of_nat (n mod 256) # rest"]
      readChar_at [of "pre @ [of_nat (n div 256)]" "of_nat (n mod 256)" rest]
    by (simp add: readInt_def int2_def)
qed

lemma read_length_at:
  assumes "n < 268435456"
  shows "read_length (pre @ MQTTPacket_encode (int n) @ rest) (length pre) =
    Inr (int (length (MQTTPacket_encode (int n))), length pre + length (MQTTPacket_encode (int n)),
         int (length pre + length (MQTTPacket_encode (int n)) + n))"
  using decodeBuf_encode [OF assms, of pre rest] by (simp add: read_length_def)

lemma readMQTTLenString_at:
  assumes "length bs < 65536" "int (length pre + 2 + length bs) \<le> e"
  shows "readMQTTLenString (pre @ int2 (length bs) @ bs @ rest) s (length pre) e =
    Inr (True, \<lparr>m_cstring = None, m_len = int (length bs), m_data = Some (bs @ rest)\<rparr>,
         length pre + 2 + length bs)"
  using readInt_at [OF assms(1), of pre "bs @ rest"] assms(2) by (simp add: readMQTTLenString_def)

section \<open>Publishing\<close>

text \<open>The layout of a published message.\<close>

definition publish_rem :: "int \<Rightarrow> u8 list \<Rightarrow> u8 list \<Rightarrow> nat" where
  "publish_rem qos topic payload = 2 + length topic + length payload + (if 0 < qos then 2 else 0)"

definition publish_wire :: "u8 \<Rightarrow> int \<Rightarrow> u8 \<Rightarrow> u16 \<Rightarrow> u8 list \<Rightarrow> u8 list \<Rightarrow> u8 list" where
  "publish_wire dup qos ret pid topic payload =
     mqtt_header PUBLISH dup (int_to_u8 qos) ret
     # MQTTPacket_encode (int (publish_rem qos topic payload)) @ int2 (length topic) @ topic
     @ (if 0 < qos then int2 (unat pid) else []) @ payload"

lemma bytes_at_length: "bytes_at p n = Inr bs \<Longrightarrow> n = int (length bs)"
  by (cases p) (auto simp: bytes_at_def split: if_splits)

lemma packet_start_fits:
  assumes "n < 268435456" "MQTTPacket_len (int n) \<le> int cap"
  shows "packet_start cap h (int n) = Inr (h # MQTTPacket_encode (int n))"
    and "1 + length (MQTTPacket_encode (int n)) + n \<le> cap"
  using encode_size(1) [OF assms(1)] assms(2)
  by (simp_all add: packet_start_def writeChar_def encode_to_def put_fits)

lemma serialize_publish:
  assumes "mqtt_ok topic" "bytes_at payload n = Inr bs"
    and "publish_rem qos (mqtt_bytes topic) bs < 268435456"
    and "MQTTPacket_len (int (publish_rem qos (mqtt_bytes topic) bs)) \<le> int cap"
  shows "MQTTSerialize_publish cap dup qos ret pid topic payload n =
      Inr (int (length (publish_wire dup qos ret pid (mqtt_bytes topic) bs)),
           publish_wire dup qos ret pid (mqtt_bytes topic) bs)
    \<and> length (publish_wire dup qos ret pid (mqtt_bytes topic) bs) \<le> cap"
proof -
  let ?T = "mqtt_bytes topic" and ?r = "publish_rem qos (mqtt_bytes topic) bs"
  let ?pid = "if 0 < qos then int2 (unat pid) else []"
  define h where "h = mqtt_header PUBLISH dup (int_to_u8 qos) ret"
  define e where "e = MQTTPacket_encode (int ?r)"
  define o1 where "o1 = h # e"
  define o2 where "o2 = o1 @ int2 (length ?T) @ ?T"
  define o3 where "o3 = o2 @ ?pid"
  have n: "n = int (length bs)" by (rule bytes_at_length [OF assms(2)])
  have r: "MQTTSerialize_publishLength qos topic n = int ?r"
    by (simp add: MQTTSerialize_publishLength_def MQTTstrlen_bytes [OF assms(1)] publish_rem_def n)
  have s: "packet_start cap h (int ?r) = Inr o1"
    unfolding o1_def e_def by (rule packet_start_fits(1) [OF assms(3,4)])
  have pid: "length ?pid = (if 0 < qos then 2 else 0)" by simp
  have c: "1 + length e + (2 + length ?T + length bs + length ?pid) \<le> cap"
    using packet_start_fits(2) [OF assms(3,4), folded e_def] unfolding publish_rem_def pid by simp
  have w: "writeMQTTString cap topic o1 = Inr o2"
    unfolding o2_def by (rule writeMQTTString_fits [OF assms(1)]) (use c in \<open>simp add: o1_def\<close>)
  have p: "(if 0 < qos then writeInt cap (uint pid) o2 else Inr o2) = Inr o3"
  proof (cases "0 < qos")
    case True
    have "length o2 + 2 \<le> cap" using c True by (simp only: o1_def o2_def length_append length_Cons pid if_True length_int2)
    from writeInt_fits [OF this, of "unat pid"]
    have "writeInt cap (int (unat pid)) o2 = Inr (o2 @ int2 (unat pid))" .
    then show ?thesis using True by (simp only: o3_def uint_nat if_True)
  qed (simp only: o3_def if_False append_Nil2)
  have u: "put cap bs o3 = Inr (o3 @ bs)"
    by (rule put_fits) (use c in \<open>simp add: o1_def o2_def o3_def\<close>)
  have i: "\<not> int cap < MQTTPacket_len (int ?r)" using assms(4) by simp
  have x: "o3 @ bs = publish_wire dup qos ret pid ?T bs"
    by (simp add: publish_wire_def o1_def o2_def o3_def e_def h_def)
  have l: "length (o3 @ bs) \<le> cap" using c by (simp add: o1_def o2_def o3_def)
  have "MQTTSerialize_publish cap dup qos ret pid topic payload n = Inr (written (o3 @ bs))"
    unfolding MQTTSerialize_publish_def r Let_def if_not_P [OF i] h_def [symmetric] s rbind_Inr w p assms(2) u
      rmap_Inr ..
  then show ?thesis using l by (simp only: x written_def)
qed

lemma deserialize_publish:
  assumes "length topic < 65536" "publish_rem qos topic bs < 268435456" "dup \<le> 1" "ret \<le> 1" "0 \<le> qos" "qos \<le> 3"
  shows "MQTTDeserialize_publish (publish_wire dup qos ret pid topic bs @ rest) old =
    Inr (1, old\<lparr>pb_dup := dup, pb_qos := qos, pb_retained := ret,
                pb_packetid := (if 0 < qos then pid else pb_packetid old),
                pb_topic := \<lparr>m_cstring = None, m_len = int (length topic),
                  m_data = Some (topic @ (if 0 < qos then int2 (unat pid) else []) @ bs @ rest)\<rparr>,
                pb_payload := Some (bs @ rest), pb_payloadlen := int (length bs)\<rparr>)"
proof -
  let ?r = "publish_rem qos topic bs" and ?h = "mqtt_header PUBLISH dup (int_to_u8 qos) ret"
  let ?e = "MQTTPacket_encode (int ?r)" and ?pid = "if 0 < qos then int2 (unat pid) else []"
  define m where "m = publish_wire dup qos ret pid topic bs @ rest"
  define p1 where "p1 = Suc (length ?e)"
  define p2 where "p2 = p1 + 2 + length topic"
  define p3 where "p3 = p2 + length ?pid"
  have "qos \<in> {0, 1, 2, 3}" using assms(5,6) by auto
  then have q: "u8_to_int (int_to_u8 qos AND 3) = qos" by (auto simp: int_to_u8_def u8_to_int_def)
  have b: "x AND 1 = x" if "x \<le> 1" for x :: u8
  proof -
    have "x = 0 \<or> x = 1" using that by (metis antisym_conv2 word_less_1 word_gt_0 linorder_not_le)
    then show ?thesis by auto
  qed
  have h: "header_type ?h = PUBLISH" "header_dup ?h = dup" "u8_to_int (header_qos ?h) = qos" "header_retain ?h = ret"
    using q b [OF assms(3)] b [OF assms(4)] by (simp_all add: header_fields PUBLISH_def)
  have m: "m = ?h # ?e @ int2 (length topic) @ topic @ ?pid @ bs @ rest"
    by (simp add: m_def publish_wire_def)
  have 1: "readChar m 0 = Inr (?h, Suc 0)" by (simp add: readChar_def m)
  have 2: "read_length m (Suc 0) = Inr (int (length ?e), p1, int (p1 + ?r))"
    using read_length_at [OF assms(2), of "[?h]" "int2 (length topic) @ topic @ ?pid @ bs @ rest"]
    by (simp add: m p1_def)
  have 3: "readMQTTLenString m s p1 (int (p1 + ?r)) =
      Inr (True, \<lparr>m_cstring = None, m_len = int (length topic), m_data = Some (topic @ ?pid @ bs @ rest)\<rparr>, p2)" for s
    using readMQTTLenString_at [OF assms(1), of "?h # ?e" "int (p1 + ?r)" "?pid @ bs @ rest" s]
    by (simp add: m p1_def p2_def publish_rem_def)
  have 4: "readInt m p2 = Inr (int (unat pid), p3)" if "0 < qos"
  proof -
    have "unat pid < 65536" using unsigned_less [of pid, where ?'a = nat] by simp
    from readInt_at [OF this, of "?h # ?e @ int2 (length topic) @ topic" "bs @ rest"] that
    show ?thesis by (simp add: m p1_def p2_def p3_def)
  qed
  have d: "drop p3 m = bs @ rest" by (simp add: m p1_def p2_def p3_def)
  have e: "\<not> int (p1 + ?r) - int p2 < 0" "int (p1 + ?r) - int p3 = int (length bs)" "\<not> 0 < qos \<Longrightarrow> p3 = p2"
    by (simp_all add: p2_def p3_def publish_rem_def)
  have "MQTTDeserialize_publish m old =
    Inr (1, old\<lparr>pb_dup := dup, pb_qos := qos, pb_retained := ret,
                pb_packetid := (if 0 < qos then pid else pb_packetid old),
                pb_topic := \<lparr>m_cstring = None, m_len = int (length topic), m_data = Some (topic @ ?pid @ bs @ rest)\<rparr>,
                pb_payload := Some (bs @ rest), pb_payloadlen := int (length bs)\<rparr>)"
  proof (cases "0 < qos")
    case True
    then show ?thesis
      unfolding MQTTDeserialize_publish_def 1 rbind_Inr prod.case h Let_def 2 3
      using e(1,2) 4 d by (simp del: of_nat_add)
  next
    case False
    then show ?thesis
      unfolding MQTTDeserialize_publish_def 1 rbind_Inr prod.case h Let_def 2 3
      using e d by (simp del: of_nat_add)
  qed
  then show ?thesis by (simp only: m_def)
qed

text \<open>
  C9. Publishing round-trips: when the topic and the payload fit the buffer,
  \<open>MQTTSerialize_publish\<close> writes a packet of at most \<open>buflen\<close> bytes, and
  \<open>MQTTDeserialize_publish\<close> takes the packet, whatever follows it in the buffer, apart into the
  same flags, packet identifier, topic and payload.
\<close>

theorem publish_roundtrip:
  assumes "mqtt_ok topic" "bytes_at payload n = Inr bs" "dup \<le> 1" "ret \<le> 1" "0 \<le> qos" "qos \<le> 3"
    and "MQTTSerialize_publishLength qos topic n < 268435456"
    and "MQTTPacket_len (MQTTSerialize_publishLength qos topic n) \<le> int cap"
  shows "\<exists>packet r. MQTTSerialize_publish cap dup qos ret pid topic payload n = Inr (int (length packet), packet)
    \<and> length packet \<le> cap
    \<and> MQTTDeserialize_publish (packet @ rest) old = Inr (1, r)
    \<and> pb_dup r = dup \<and> pb_qos r = qos \<and> pb_retained r = ret
    \<and> (0 < qos \<longrightarrow> pb_packetid r = pid)
    \<and> mqtt_bytes (pb_topic r) = mqtt_bytes topic
    \<and> bytes_at (pb_payload r) (pb_payloadlen r) = Inr bs"
proof -
  let ?T = "mqtt_bytes topic" and ?p = "publish_wire dup qos ret pid (mqtt_bytes topic) bs"
  have n: "n = int (length bs)" by (rule bytes_at_length [OF assms(2)])
  have r: "MQTTSerialize_publishLength qos topic n = int (publish_rem qos ?T bs)"
    by (simp add: MQTTSerialize_publishLength_def MQTTstrlen_bytes [OF assms(1)] publish_rem_def n)
  have "publish_rem qos ?T bs < 268435456" using assms(7) unfolding r by simp
  moreover have "length ?T < 65536" using assms(1) by (simp add: mqtt_ok_def)
  moreover have same: "mqtt_bytes \<lparr>m_cstring = None, m_len = int (length b), m_data = Some (b @ x)\<rparr> = b" for b x
    by (simp add: mqtt_bytes_def)
  ultimately show ?thesis
    using serialize_publish [OF assms(1,2) _ assms(8) [unfolded r], of dup ret pid]
      deserialize_publish [of ?T qos bs dup ret pid rest old] assms(3-6)
      same [of "?T" "(if 0 < qos then int2 (unat pid) else []) @ bs @ rest"]
    by (intro exI [of _ ?p]) (simp add: bytes_at_def del: if_split)
qed

theorem publish_roundtrip_witness:
  "\<exists>packet r. MQTTSerialize_publish 64 0 1 1 7 (MQTTString_initializer\<lparr>m_cstring := Some ''a/b''\<rparr>) (Some [1, 2, 3]) 2
       = Inr (int (length packet), packet)
    \<and> MQTTDeserialize_publish (packet @ [9, 9])
        \<lparr>pb_dup = 0, pb_qos = 0, pb_retained = 0, pb_packetid = 0, pb_topic = MQTTString_initializer,
         pb_payload = None, pb_payloadlen = 0\<rparr> = Inr (1, r)
    \<and> pb_packetid r = 7"
proof -
  let ?t = "MQTTString_initializer\<lparr>m_cstring := Some ''a/b''\<rparr>"
  have "mqtt_ok ?t" "MQTTstrlen ?t = 3"
    by (simp_all add: mqtt_ok_def mqtt_bytes_def MQTTstrlen_def MQTTString_initializer_def)
  with publish_roundtrip [of ?t "Some [1, 2, 3]" 2 "[1, 2]" 0 1 1 64 7 "[9, 9]"
     "\<lparr>pb_dup = 0, pb_qos = 0, pb_retained = 0, pb_packetid = 0, pb_topic = MQTTString_initializer,
         pb_payload = None, pb_payloadlen = 0\<rparr>"]
  show ?thesis by (simp add: MQTTSerialize_publishLength_def MQTTPacket_len_def bytes_at_def) blast
qed

text \<open>
  A broken topic is not reported: \<open>rc\<close> still holds what \<open>MQTTPacket_decodeBuf\<close> returned
  when \<open>MQTTDeserialize_publish\<close> leaves through \<open>exit\<close>, so a message whose topic is longer than
  the packet gives the number of bytes of its remaining length as the result: with one such byte,
  the 1 that means success, although topic and payload were not stored.
\<close>

theorem publish_bad_topic:
  assumes "rem < 128" "rem < n + 2" "n < 65536" "2 \<le> rem"
  shows "MQTTDeserialize_publish (mqtt_header PUBLISH 0 0 0 # of_nat rem # int2 n @ rest) old =
    Inr (1, old\<lparr>pb_dup := 0, pb_qos := 0, pb_retained := 0,
                pb_topic := (pb_topic old)\<lparr>m_cstring := None, m_len := int n\<rparr>\<rparr>)"
proof -
  define m where "m = mqtt_header PUBLISH 0 0 0 # of_nat rem # int2 n @ rest"
  have e: "MQTTPacket_encode (int rem) = [of_nat rem]" using assms(1) by (simp add: encode_nat [of rem])
  have h: "header_type (mqtt_header PUBLISH 0 0 0) = PUBLISH" "header_dup (mqtt_header PUBLISH 0 0 0) = 0"
    "header_qos (mqtt_header PUBLISH 0 0 0) = 0" "header_retain (mqtt_header PUBLISH 0 0 0) = 0"
    by (simp_all add: header_fields PUBLISH_def)
  have 1: "readChar m 0 = Inr (mqtt_header PUBLISH 0 0 0, Suc 0)" by (simp add: readChar_def m_def)
  have 2: "read_length m (Suc 0) = Inr (1, 2, int (rem + 2))"
    using read_length_at [of rem "[mqtt_header PUBLISH 0 0 0]" "int2 n @ rest"] assms(1)
    by (simp add: e m_def)
  have "readInt m 2 = Inr (int n, 4)"
    using readInt_at [OF assms(3), of "[mqtt_header PUBLISH 0 0 0, of_nat rem]" rest]
    by (simp add: m_def eval_nat_numeral)
  then have 3: "readMQTTLenString m s 2 (int (rem + 2)) = Inr (False, s\<lparr>m_cstring := None, m_len := int n\<rparr>, 4)" for s
    using assms(2,4) by (simp add: readMQTTLenString_def)
  show ?thesis
    unfolding MQTTDeserialize_publish_def m_def [symmetric] 1 rbind_Inr prod.case h Let_def 2 3
    by (simp add: u8_to_int_def)
qed

theorem publish_bad_topic_witness:
  "\<forall>old. MQTTDeserialize_publish [48, 3, 0, 9, 65] old =
    Inr (1, old\<lparr>pb_dup := 0, pb_qos := 0, pb_retained := 0,
                pb_topic := (pb_topic old)\<lparr>m_cstring := None, m_len := 9\<rparr>\<rparr>)"
  using publish_bad_topic [of 3 9 "[65]"] by (simp add: int2_def mqtt_header_def PUBLISH_def)

lemma suback_loop_codes:
  "suback_loop (pre @ qs @ rest) (int cap) (length qs) (length pre) acc =
     (if qs = [] then Inr (True, acc)
      else if length acc + length qs \<le> cap then Inr (True, acc @ map u8_to_int qs)
      else if int cap < int (length acc) then Inr (False, acc)
      else Inl BufferOverflow)"
proof (induction qs arbitrary: pre acc)
  case (Cons q qs)
  have "readChar (pre @ (q # qs) @ rest) (length pre) = Inr (q, length pre + 1)"
    using readChar_at [of pre q "qs @ rest"] by simp
  with Cons.IH [of "pre @ [q]" "acc @ [u8_to_int q]"] show ?case by auto
qed simp

text \<open>
  The list of granted qualities: \<open>MQTTDeserialize_suback\<close> stores every code when the array has
  room for all of them, and writes past its end as soon as there is one more: the guard
  \<open>*count > maxcount\<close> lets the entry with index \<open>maxcount\<close> through.
\<close>

theorem suback_codes:
  assumes "length qs < 100" "pid < 65536"
  shows "MQTTDeserialize_suback (mqtt_header SUBACK 0 0 0 # of_nat (length qs + 2) # int2 pid @ qs @ rest)
      (int cap) old =
    (if length qs \<le> cap then Inr (1, of_nat pid, map u8_to_int qs) else Inl BufferOverflow)"
proof -
  define n where "n = length qs + 2"
  define m where "m = mqtt_header SUBACK 0 0 0 # of_nat n # int2 pid @ qs @ rest"
  have small: "n < 128" using assms(1) by (simp add: n_def)
  then have e: "MQTTPacket_encode (int n) = [of_nat n]" by (simp add: encode_nat [of n])
  have h: "header_type (mqtt_header SUBACK 0 0 0) = SUBACK" by (simp add: header_fields SUBACK_def)
  have 1: "readChar m 0 = Inr (mqtt_header SUBACK 0 0 0, Suc 0)" by (simp add: readChar_def m_def)
  have 2: "read_length m (Suc 0) = Inr (1, 2, int (n + 2))"
    using read_length_at [of n "[mqtt_header SUBACK 0 0 0]" "int2 pid @ qs @ rest"] small
    by (simp add: e m_def)
  have 3: "readInt m 2 = Inr (int pid, 4)"
    using readInt_at [OF assms(2), of "[mqtt_header SUBACK 0 0 0, of_nat n]" "qs @ rest"]
    by (simp add: m_def eval_nat_numeral)
  have 4: "suback_loop m (int cap) (length qs) 4 [] =
      (if length qs \<le> cap then Inr (True, map u8_to_int qs) else Inl BufferOverflow)"
    using suback_loop_codes [of "mqtt_header SUBACK 0 0 0 # of_nat n # int2 pid" qs rest cap "[]"]
    by (auto simp: m_def)
  have 5: "\<not> int (n + 2) - int 2 < 2" "nat (int (n + 2) - int 4) = length qs" by (simp_all add: n_def)
  show ?thesis
    unfolding MQTTDeserialize_suback_def n_def [symmetric] m_def [symmetric] 1 rbind_Inr prod.case h 2
      if_not_P [OF 5(1)] 3 5(2) 4
    by simp
qed

theorem suback_codes_witness:
  "MQTTDeserialize_suback [144, 5, 0, 7, 0, 1, 2] 2 (0, []) = Inl BufferOverflow
    \<and> MQTTDeserialize_suback [144, 5, 0, 7, 0, 1, 2] 3 (0, []) = Inr (1, 7, [0, 1, 2])"
  using suback_codes [of "[0, 1, 2]" 7 "[]" 2 "(0, [])"] suback_codes [of "[0, 1, 2]" 7 "[]" 3 "(0, [])"]
  by (simp_all add: int2_def mqtt_header_def SUBACK_def u8_to_int_def)

end
