(* ===== verification/HFService.thy ===== *)
theory HFService
  imports Prelude
begin

text \<open>
  The serial protocol of \<open>src/thirdpartylib/HFService\<close> between the Wi-Fi module and the
  controller of an air purifier: \<open>custom_util.c\<close>, the accessors of bits, bytes and words in a
  frame, and \<open>protocol.c\<close>, which turns a status frame into a list of tagged values for the
  cloud (\<open>upstream\<close>) and a list of tagged settings into a control frame (\<open>downstream\<close>).

  The two structures are records with their padding spelled out, since the code copies one over
  the other as bytes: the target is little-endian and aligns a \<open>uint16\<close> to an even offset.
\<close>

section \<open>Frames\<close>

definition IS_BIGENDIAN :: int where "IS_BIGENDIAN = 1"
definition ACT_CODE_SET :: int where "ACT_CODE_SET = 0x1002"

definition getByte :: "u8 list \<Rightarrow> nat \<Rightarrow> u8 res" where
  "getByte data pos = (if pos < length data then Inr (data ! pos) else Inl OutOfBounds)"

definition getBits :: "u8 list \<Rightarrow> nat \<Rightarrow> u8 \<Rightarrow> nat \<Rightarrow> u8 res" where
  "getBits data pos bitmask shift = rmap (\<lambda>ret. drop_bit shift (ret AND bitmask)) (getByte data pos)"

definition getWord :: "u8 list \<Rightarrow> nat \<Rightarrow> u16 res" where
  "getWord data pos =
     rbind (getByte data (if IS_BIGENDIAN = 1 then pos else pos + 1)) (\<lambda>dat1.
     rbind (getByte data (if IS_BIGENDIAN = 1 then pos + 1 else pos)) (\<lambda>dat2.
       Inr (push_bit 8 (ucast dat2) + ucast dat1)))"

text \<open>Shifting a byte from 128 on by 24 leaves the range of \<open>int\<close>.\<close>

definition getInt :: "u8 list \<Rightarrow> nat \<Rightarrow> int res" where
  "getInt data pos =
     (let bt = (\<lambda>i. getByte data (pos + (if IS_BIGENDIAN = 1 then i else 3 - i)))
      in rbind (bt 0) (\<lambda>dat1. rbind (bt 1) (\<lambda>dat2. rbind (bt 2) (\<lambda>dat3. rbind (bt 3) (\<lambda>dat4.
           if 128 \<le> dat4 then Inl SignedOverflow
           else Inr (uint dat4 * 2 ^ 24 + uint dat3 * 2 ^ 16 + uint dat2 * 2 ^ 8 + uint dat1))))))"

text \<open>A write to offset \<open>pos\<close> of a buffer.\<close>

definition putByte :: "nat \<Rightarrow> int \<Rightarrow> u8 list \<Rightarrow> u8 list res" where
  "putByte pos val buf =
     (if pos < length buf then Inr (buf[pos := word_of_int val]) else Inl BufferOverflow)"

definition putBits :: "nat \<Rightarrow> u8 \<Rightarrow> u8 \<Rightarrow> nat \<Rightarrow> u8 list \<Rightarrow> u8 list res" where
  "putBits pos val bitmask shift buf =
     rbind (getByte buf pos) (\<lambda>old. putByte pos (uint (old OR (push_bit shift val AND bitmask))) buf)"

definition putWord :: "nat \<Rightarrow> int \<Rightarrow> u8 list \<Rightarrow> u8 list res" where
  "putWord pos val buf =
     (let dat2 = val AND 0xff; dat1 = drop_bit 8 (val AND 0xff00)
      in rbind (putByte pos (if IS_BIGENDIAN = 1 then dat1 else dat2) buf)
           (putByte (pos + 1) (if IS_BIGENDIAN = 1 then dat2 else dat1)))"

definition putInt :: "nat \<Rightarrow> int \<Rightarrow> u8 list \<Rightarrow> u8 list res" where
  "putInt pos val buf =
     (let dat = (\<lambda>i. drop_bit (8 * i) val AND 0xff);
          bt = (\<lambda>i. dat (if IS_BIGENDIAN = 1 then i else 3 - i))
      in rbind (putByte pos (bt 0) buf) (\<lambda>b1. rbind (putByte (pos + 1) (bt 1) b1) (\<lambda>b2.
         rbind (putByte (pos + 2) (bt 2) b2) (putByte (pos + 3) (bt 3)))))"

definition outMaxLen :: "nat \<Rightarrow> nat \<Rightarrow> nat \<Rightarrow> nat" where
  "outMaxLen pos len ol = (if pos + len < ol then ol else pos + len)"

section \<open>The two structures\<close>

record StrUpKeys =
  u_SN_POWER :: u8
  u_SN_CHILD_SAFETY_LOCK :: u8
  u_UV_LIGHT :: u8
  u_SN_NEGATIVE_ION :: u8
  u_SN_LED_LIGHT :: u8
  u_BEEP :: u8
  u_SN_RESET_FILTER_MESH :: u8
  u_FILTER_WARN :: u8
  u_SN_MODE :: u8
  u_pad9 :: u8
  u_LEFT_TIMER_OFF :: u16
  u_SN_FANSPEED :: u8
  u_pad13 :: u8
  u_SN_PM25 :: u16
  u_SN_VOC :: u16
  u_SN_CO2 :: u16
  u_SN_FILTER_MESH_HOURS :: u16
  u_ERRORCODE :: u8
  u_pad23 :: u8

record StrDownKeys =
  d_SN_POWER :: u8
  d_SN_CHILD_SAFETY_LOCK :: u8
  d_UV_LIGHT :: u8
  d_SN_NEGATIVE_ION :: u8
  d_SN_LED_LIGHT :: u8
  d_BEEP :: u8
  d_SN_RESET_FILTER_MESH :: u8
  d_SN_MODE :: u8
  d_TIMER_OFF :: u16
  d_SN_FANSPEED :: u8
  d_pad11 :: u8

text \<open>Their images in memory.\<close>

definition le16 :: "u16 \<Rightarrow> u8 list" where
  "le16 w = [ucast w, ucast (drop_bit 8 w)]"

definition word_at :: "u8 list \<Rightarrow> nat \<Rightarrow> u16" where
  "word_at bs i = push_bit 8 (ucast (bs ! (i + 1))) OR ucast (bs ! i)"

definition up_bytes :: "StrUpKeys \<Rightarrow> u8 list" where
  "up_bytes k =
     [u_SN_POWER k, u_SN_CHILD_SAFETY_LOCK k, u_UV_LIGHT k, u_SN_NEGATIVE_ION k, u_SN_LED_LIGHT k,
      u_BEEP k, u_SN_RESET_FILTER_MESH k, u_FILTER_WARN k, u_SN_MODE k, u_pad9 k]
     @ le16 (u_LEFT_TIMER_OFF k) @ [u_SN_FANSPEED k, u_pad13 k] @ le16 (u_SN_PM25 k)
     @ le16 (u_SN_VOC k) @ le16 (u_SN_CO2 k) @ le16 (u_SN_FILTER_MESH_HOURS k)
     @ [u_ERRORCODE k, u_pad23 k]"

definition up_of_bytes :: "u8 list \<Rightarrow> StrUpKeys" where
  "up_of_bytes b =
     \<lparr>u_SN_POWER = b ! 0, u_SN_CHILD_SAFETY_LOCK = b ! 1, u_UV_LIGHT = b ! 2,
      u_SN_NEGATIVE_ION = b ! 3, u_SN_LED_LIGHT = b ! 4, u_BEEP = b ! 5,
      u_SN_RESET_FILTER_MESH = b ! 6, u_FILTER_WARN = b ! 7, u_SN_MODE = b ! 8, u_pad9 = b ! 9,
      u_LEFT_TIMER_OFF = word_at b 10, u_SN_FANSPEED = b ! 12, u_pad13 = b ! 13,
      u_SN_PM25 = word_at b 14, u_SN_VOC = word_at b 16, u_SN_CO2 = word_at b 18,
      u_SN_FILTER_MESH_HOURS = word_at b 20, u_ERRORCODE = b ! 22, u_pad23 = b ! 23\<rparr>"

definition down_bytes :: "StrDownKeys \<Rightarrow> u8 list" where
  "down_bytes k =
     [d_SN_POWER k, d_SN_CHILD_SAFETY_LOCK k, d_UV_LIGHT k, d_SN_NEGATIVE_ION k, d_SN_LED_LIGHT k,
      d_BEEP k, d_SN_RESET_FILTER_MESH k, d_SN_MODE k]
     @ le16 (d_TIMER_OFF k) @ [d_SN_FANSPEED k, d_pad11 k]"

definition down_of_bytes :: "u8 list \<Rightarrow> StrDownKeys" where
  "down_of_bytes b =
     \<lparr>d_SN_POWER = b ! 0, d_SN_CHILD_SAFETY_LOCK = b ! 1, d_UV_LIGHT = b ! 2,
      d_SN_NEGATIVE_ION = b ! 3, d_SN_LED_LIGHT = b ! 4, d_BEEP = b ! 5,
      d_SN_RESET_FILTER_MESH = b ! 6, d_SN_MODE = b ! 7, d_TIMER_OFF = word_at b 8,
      d_SN_FANSPEED = b ! 10, d_pad11 = b ! 11\<rparr>"

definition UP_SIZE :: nat where "UP_SIZE = 24"
definition DOWN_SIZE :: nat where "DOWN_SIZE = 12"

text \<open>
  The globals.  \<open>dataOut\<close> is the block it points at, \<open>dataOut_size\<close> bytes of it; before
  \<open>setHeap\<close> that is no byte at all.
\<close>

record hf =
  dataOut :: "u8 list"
  outLen :: nat
  device_updated :: bool
  strUpKeysNow :: StrUpKeys
  strUpKeysDirty :: StrUpKeys
  strDownKeysNow :: StrDownKeys
  strDownKeysDirty :: StrDownKeys

definition setHeap :: "u8 list \<Rightarrow> hf \<Rightarrow> hf" where
  "setHeap heap s = s\<lparr>dataOut := heap\<rparr>"

definition structUpSynch :: "hf \<Rightarrow> hf" where
  "structUpSynch s =
     (let size = (if DOWN_SIZE < UP_SIZE then DOWN_SIZE else UP_SIZE)
      in s\<lparr>strDownKeysNow := down_of_bytes (take size (up_bytes (strUpKeysNow s))
                                @ drop size (down_bytes (strDownKeysNow s)))\<rparr>)"

definition autoResponse :: "hf \<Rightarrow> hf" where
  "autoResponse s =
     s\<lparr>dataOut := replicate (length (dataOut s)) 0, outLen := 0,
       strUpKeysDirty := up_of_bytes (down_bytes (strDownKeysDirty s)
                           @ drop DOWN_SIZE (up_bytes (strUpKeysDirty s)))\<rparr>"

section \<open>Status frames\<close>

text \<open>\<open>dataOut[outLen++] = b\<close>, and the same for a word.\<close>

definition out_byte :: "u8 \<Rightarrow> hf \<Rightarrow> hf res" where
  "out_byte b s = rmap (\<lambda>o'. s\<lparr>dataOut := o', outLen := outLen s + 1\<rparr>) (putByte (outLen s) (uint b) (dataOut s))"

definition out_word :: "u16 \<Rightarrow> hf \<Rightarrow> hf res" where
  "out_word w s = rmap (\<lambda>o'. s\<lparr>dataOut := o', outLen := outLen s + 2\<rparr>) (putWord (outLen s) (uint w) (dataOut s))"

text \<open>
  The common form of the routines \<open>up_key_...\<close>: tag and size, the value from the frame if there
  is one, and the value.  Their parameters \<open>len\<close> and \<open>keyIdx\<close> are not used.
\<close>

definition up_byte ::
  "u8 \<Rightarrow> (u8 list \<Rightarrow> u8 res) \<Rightarrow> (u8 \<Rightarrow> StrUpKeys \<Rightarrow> StrUpKeys) \<Rightarrow> (StrUpKeys \<Rightarrow> u8)
   \<Rightarrow> u8 list option \<Rightarrow> hf \<Rightarrow> hf res" where
  "up_byte tag get set_key key data s =
     rbind (out_byte tag s) (\<lambda>s1. rbind (out_byte 1 s1) (\<lambda>s2.
     rbind (case data of None \<Rightarrow> Inr s2
            | Some d \<Rightarrow> rmap (\<lambda>v. s2\<lparr>strUpKeysDirty := set_key v (strUpKeysDirty s2)\<rparr>) (get d)) (\<lambda>s3.
     out_byte (key (strUpKeysDirty s3)) s3)))"

definition up_word ::
  "u8 \<Rightarrow> (u8 list \<Rightarrow> u16 res) \<Rightarrow> (u16 \<Rightarrow> StrUpKeys \<Rightarrow> StrUpKeys) \<Rightarrow> (StrUpKeys \<Rightarrow> u16)
   \<Rightarrow> u8 list option \<Rightarrow> hf \<Rightarrow> hf res" where
  "up_word tag get set_key key data s =
     rbind (out_byte tag s) (\<lambda>s1. rbind (out_byte 2 s1) (\<lambda>s2.
     rbind (case data of None \<Rightarrow> Inr s2
            | Some d \<Rightarrow> rmap (\<lambda>v. s2\<lparr>strUpKeysDirty := set_key v (strUpKeysDirty s2)\<rparr>) (get d)) (\<lambda>s3.
     out_word (key (strUpKeysDirty s3)) s3)))"

definition up_key_SN_POWER :: "u8 list option \<Rightarrow> nat \<Rightarrow> hf \<Rightarrow> hf res" where
  "up_key_SN_POWER data pos =
     up_byte 1 (\<lambda>d. getBits d pos 0x1 0) (\<lambda>v k. k\<lparr>u_SN_POWER := v\<rparr>) u_SN_POWER data"

definition up_key_SN_CHILD_SAFETY_LOCK :: "u8 list option \<Rightarrow> nat \<Rightarrow> hf \<Rightarrow> hf res" where
  "up_key_SN_CHILD_SAFETY_LOCK data pos =
     up_byte 2 (\<lambda>d. getBits d pos 0x2 1) (\<lambda>v k. k\<lparr>u_SN_CHILD_SAFETY_LOCK := v\<rparr>) u_SN_CHILD_SAFETY_LOCK data"

definition up_key_UV_LIGHT :: "u8 list option \<Rightarrow> nat \<Rightarrow> hf \<Rightarrow> hf res" where
  "up_key_UV_LIGHT data pos =
     up_byte 3 (\<lambda>d. getBits d pos 0x4 2) (\<lambda>v k. k\<lparr>u_UV_LIGHT := v\<rparr>) u_UV_LIGHT data"

definition up_key_SN_NEGATIVE_ION :: "u8 list option \<Rightarrow> nat \<Rightarrow> hf \<Rightarrow> hf res" where
  "up_key_SN_NEGATIVE_ION data pos =
     up_byte 4 (\<lambda>d. getBits d pos 0x8 3) (\<lambda>v k. k\<lparr>u_SN_NEGATIVE_ION := v\<rparr>) u_SN_NEGATIVE_ION data"

definition up_key_SN_LED_LIGHT :: "u8 list option \<Rightarrow> nat \<Rightarrow> hf \<Rightarrow> hf res" where
  "up_key_SN_LED_LIGHT data pos =
     up_byte 5 (\<lambda>d. getBits d pos 0x10 4) (\<lambda>v k. k\<lparr>u_SN_LED_LIGHT := v\<rparr>) u_SN_LED_LIGHT data"

definition up_key_BEEP :: "u8 list option \<Rightarrow> nat \<Rightarrow> hf \<Rightarrow> hf res" where
  "up_key_BEEP data pos =
     up_byte 6 (\<lambda>d. getBits d pos 0x20 5) (\<lambda>v k. k\<lparr>u_BEEP := v\<rparr>) u_BEEP data"

definition up_key_SN_RESET_FILTER_MESH :: "u8 list option \<Rightarrow> nat \<Rightarrow> hf \<Rightarrow> hf res" where
  "up_key_SN_RESET_FILTER_MESH data pos =
     up_byte 7 (\<lambda>d. getBits d pos 0x40 6) (\<lambda>v k. k\<lparr>u_SN_RESET_FILTER_MESH := v\<rparr>) u_SN_RESET_FILTER_MESH data"

definition up_key_FILTER_WARN :: "u8 list option \<Rightarrow> nat \<Rightarrow> hf \<Rightarrow> hf res" where
  "up_key_FILTER_WARN data pos =
     up_byte 8 (\<lambda>d. getBits d pos 0x80 7) (\<lambda>v k. k\<lparr>u_FILTER_WARN := v\<rparr>) u_FILTER_WARN data"

definition up_key_SN_MODE :: "u8 list option \<Rightarrow> nat \<Rightarrow> hf \<Rightarrow> hf res" where
  "up_key_SN_MODE data pos =
     up_byte 9 (\<lambda>d. getByte d pos) (\<lambda>v k. k\<lparr>u_SN_MODE := v\<rparr>) u_SN_MODE data"

definition up_key_LEFT_TIMER_OFF :: "u8 list option \<Rightarrow> nat \<Rightarrow> hf \<Rightarrow> hf res" where
  "up_key_LEFT_TIMER_OFF data pos =
     up_word 10 (\<lambda>d. getWord d pos) (\<lambda>v k. k\<lparr>u_LEFT_TIMER_OFF := v\<rparr>) u_LEFT_TIMER_OFF data"

definition up_key_SN_FANSPEED :: "u8 list option \<Rightarrow> nat \<Rightarrow> hf \<Rightarrow> hf res" where
  "up_key_SN_FANSPEED data pos =
     up_byte 11 (\<lambda>d. getByte d pos) (\<lambda>v k. k\<lparr>u_SN_FANSPEED := v\<rparr>) u_SN_FANSPEED data"

definition up_key_SN_PM25 :: "u8 list option \<Rightarrow> nat \<Rightarrow> hf \<Rightarrow> hf res" where
  "up_key_SN_PM25 data pos =
     up_word 12 (\<lambda>d. getWord d pos) (\<lambda>v k. k\<lparr>u_SN_PM25 := v\<rparr>) u_SN_PM25 data"

definition up_key_SN_VOC :: "u8 list option \<Rightarrow> nat \<Rightarrow> hf \<Rightarrow> hf res" where
  "up_key_SN_VOC data pos =
     up_word 13 (\<lambda>d. getWord d pos) (\<lambda>v k. k\<lparr>u_SN_VOC := v\<rparr>) u_SN_VOC data"

definition up_key_SN_CO2 :: "u8 list option \<Rightarrow> nat \<Rightarrow> hf \<Rightarrow> hf res" where
  "up_key_SN_CO2 data pos =
     up_word 14 (\<lambda>d. getWord d pos) (\<lambda>v k. k\<lparr>u_SN_CO2 := v\<rparr>) u_SN_CO2 data"

definition up_key_SN_FILTER_MESH_HOURS :: "u8 list option \<Rightarrow> nat \<Rightarrow> hf \<Rightarrow> hf res" where
  "up_key_SN_FILTER_MESH_HOURS data pos =
     up_word 15 (\<lambda>d. getWord d pos) (\<lambda>v k. k\<lparr>u_SN_FILTER_MESH_HOURS := v\<rparr>) u_SN_FILTER_MESH_HOURS data"

definition up_key_ERRORCODE :: "u8 list option \<Rightarrow> nat \<Rightarrow> hf \<Rightarrow> hf res" where
  "up_key_ERRORCODE data pos =
     up_byte 16 (\<lambda>d. getByte d pos) (\<lambda>v k. k\<lparr>u_ERRORCODE := v\<rparr>) u_ERRORCODE data"

definition zero_up :: StrUpKeys where
  "zero_up = up_of_bytes (replicate UP_SIZE 0)"

text \<open>The calls of \<open>up_fun_up\<close> on a frame, in their order.\<close>

definition up_keys :: "(u8 list option \<Rightarrow> hf \<Rightarrow> hf res) list" where
  "up_keys =
     [\<lambda>d. up_key_SN_POWER d 6, \<lambda>d. up_key_SN_CHILD_SAFETY_LOCK d 6, \<lambda>d. up_key_UV_LIGHT d 6,
      \<lambda>d. up_key_SN_NEGATIVE_ION d 6, \<lambda>d. up_key_SN_LED_LIGHT d 6, \<lambda>d. up_key_BEEP d 6,
      \<lambda>d. up_key_SN_RESET_FILTER_MESH d 6, \<lambda>d. up_key_FILTER_WARN d 6, \<lambda>d. up_key_SN_MODE d 7,
      \<lambda>d. up_key_LEFT_TIMER_OFF d 8, \<lambda>d. up_key_SN_FANSPEED d 10, \<lambda>d. up_key_SN_PM25 d 11,
      \<lambda>d. up_key_SN_VOC d 13, \<lambda>d. up_key_SN_CO2 d 15, \<lambda>d. up_key_SN_FILTER_MESH_HOURS d 17]"

definition up_fun_up :: "u8 list option \<Rightarrow> hf \<Rightarrow> hf res" where
  "up_fun_up data s =
     rbind (if data \<noteq> None then foldM (\<lambda>f. f data) up_keys (s\<lparr>strUpKeysDirty := zero_up\<rparr>)
            else up_key_ERRORCODE data 19 s) (\<lambda>s1.
       if up_bytes (strUpKeysNow s1) = up_bytes (strUpKeysDirty s1) then Inr (s1\<lparr>device_updated := False\<rparr>)
       else Inr (structUpSynch (s1\<lparr>strUpKeysNow := strUpKeysDirty s1, device_updated := True\<rparr>)))"

definition upstream :: "u8 list \<Rightarrow> hf \<Rightarrow> hf res" where
  "upstream data s =
     (let s1 = s\<lparr>dataOut := replicate (length (dataOut s)) 0, outLen := 0\<rparr>
      in rbind (getByte data 0) (\<lambda>funCode0. if funCode0 = 0xAA then up_fun_up (Some data) s1 else Inr s1))"

section \<open>Control frames\<close>

text \<open>\<open>put(dataOut + pos, ...)\<close> followed by \<open>outMaxLen(pos, len, &outLen)\<close>.\<close>

definition dn_put :: "nat \<Rightarrow> nat \<Rightarrow> (u8 list \<Rightarrow> u8 list res) \<Rightarrow> hf \<Rightarrow> hf res" where
  "dn_put pos len put s =
     rmap (\<lambda>o'. s\<lparr>dataOut := o', outLen := outMaxLen pos len (outLen s)\<rparr>) (put (dataOut s))"

definition dn_key_SN_POWER :: "hf \<Rightarrow> hf res" where
  "dn_key_SN_POWER s =
     rbind (dn_put 6 1 (putBits 6 (d_SN_POWER (strDownKeysDirty s)) 0x1 0) s) (dn_put 0 1 (putByte 0 0xAA))"

definition dn_key_SN_CHILD_SAFETY_LOCK :: "hf \<Rightarrow> hf res" where
  "dn_key_SN_CHILD_SAFETY_LOCK s = dn_put 6 1 (putBits 6 (d_SN_CHILD_SAFETY_LOCK (strDownKeysDirty s)) 0x2 1) s"

definition dn_key_UV_LIGHT :: "hf \<Rightarrow> hf res" where
  "dn_key_UV_LIGHT s = dn_put 6 1 (putBits 6 (d_UV_LIGHT (strDownKeysDirty s)) 0x4 2) s"

definition dn_key_SN_NEGATIVE_ION :: "hf \<Rightarrow> hf res" where
  "dn_key_SN_NEGATIVE_ION s = dn_put 6 1 (putBits 6 (d_SN_NEGATIVE_ION (strDownKeysDirty s)) 0x8 3) s"

definition dn_key_SN_LED_LIGHT :: "hf \<Rightarrow> hf res" where
  "dn_key_SN_LED_LIGHT s = dn_put 6 1 (putBits 6 (d_SN_LED_LIGHT (strDownKeysDirty s)) 0x10 4) s"

definition dn_key_BEEP :: "hf \<Rightarrow> hf res" where
  "dn_key_BEEP s = dn_put 6 1 (putBits 6 (d_BEEP (strDownKeysDirty s)) 0x20 5) s"

definition dn_key_SN_RESET_FILTER_MESH :: "hf \<Rightarrow> hf res" where
  "dn_key_SN_RESET_FILTER_MESH s = dn_put 6 1 (putBits 6 (d_SN_RESET_FILTER_MESH (strDownKeysDirty s)) 0x40 6) s"

definition dn_key_SN_MODE :: "hf \<Rightarrow> hf res" where
  "dn_key_SN_MODE s = dn_put 7 1 (putByte 7 (uint (d_SN_MODE (strDownKeysDirty s)))) s"

definition dn_key_TIMER_OFF :: "hf \<Rightarrow> hf res" where
  "dn_key_TIMER_OFF s = dn_put 8 2 (putWord 8 (uint (d_TIMER_OFF (strDownKeysDirty s)))) s"

definition dn_key_SN_FANSPEED :: "hf \<Rightarrow> hf res" where
  "dn_key_SN_FANSPEED s = dn_put 10 1 (putByte 10 (uint (d_SN_FANSPEED (strDownKeysDirty s)))) s"

text \<open>A field: its tag, the position of its value, and the next position; \<open>None\<close> is the return value 0.\<close>

definition getFeild :: "u8 list \<Rightarrow> nat \<Rightarrow> (u8 \<times> nat \<times> nat) option res" where
  "getFeild data pos =
     rbind (getByte data pos) (\<lambda>idx. rbind (getByte data (pos + 1)) (\<lambda>len.
       if len = 0 \<or> idx = 0 then Inr None else Inr (Some (idx, pos + 2, pos + 2 + unat len))))"

definition set_key :: "u8 list \<Rightarrow> u8 \<Rightarrow> nat \<Rightarrow> StrDownKeys \<Rightarrow> StrDownKeys res" where
  "set_key data idx p k =
     (if idx = 1 then rmap (\<lambda>v. k\<lparr>d_SN_POWER := v\<rparr>) (getByte data p)
      else if idx = 2 then rmap (\<lambda>v. k\<lparr>d_SN_CHILD_SAFETY_LOCK := v\<rparr>) (getByte data p)
      else if idx = 3 then rmap (\<lambda>v. k\<lparr>d_UV_LIGHT := v\<rparr>) (getByte data p)
      else if idx = 4 then rmap (\<lambda>v. k\<lparr>d_SN_NEGATIVE_ION := v\<rparr>) (getByte data p)
      else if idx = 5 then rmap (\<lambda>v. k\<lparr>d_SN_LED_LIGHT := v\<rparr>) (getByte data p)
      else if idx = 6 then rmap (\<lambda>v. k\<lparr>d_BEEP := v\<rparr>) (getByte data p)
      else if idx = 7 then rmap (\<lambda>v. k\<lparr>d_SN_RESET_FILTER_MESH := v\<rparr>) (getByte data p)
      else if idx = 8 then rmap (\<lambda>v. k\<lparr>d_SN_MODE := v\<rparr>) (getByte data p)
      else if idx = 9 then rmap (\<lambda>v. k\<lparr>d_TIMER_OFF := v\<rparr>) (getWord data p)
      else if idx = 10 then rmap (\<lambda>v. k\<lparr>d_SN_FANSPEED := v\<rparr>) (getByte data p)
      else Inr k)"

text \<open>The loop of \<open>setStruct\<close> from a position on; a field moves the position by at least three.\<close>

function set_fields :: "u8 list \<Rightarrow> nat \<Rightarrow> StrDownKeys \<Rightarrow> StrDownKeys res" where
  "set_fields data pos k =
     rbind (getFeild data pos) (\<lambda>r.
       case r of
         None \<Rightarrow> Inr k
       | Some (idx, p, pos') \<Rightarrow> rbind (set_key data idx p k) (set_fields data pos'))"
  by pat_completeness auto

termination
  by (relation "measure (\<lambda>(data, pos, k). length data - pos)")
    (auto simp: getFeild_def getByte_def split: if_splits)

declare set_fields.simps [simp del]

definition setStruct :: "u8 list \<Rightarrow> hf \<Rightarrow> hf res" where
  "setStruct data s = rmap (\<lambda>k. s\<lparr>strDownKeysDirty := k\<rparr>) (set_fields data 0 (strDownKeysDirty s))"

definition dn_keys :: "(hf \<Rightarrow> hf res) list" where
  "dn_keys = [dn_key_SN_POWER, dn_key_SN_CHILD_SAFETY_LOCK, dn_key_UV_LIGHT, dn_key_SN_NEGATIVE_ION,
     dn_key_SN_LED_LIGHT, dn_key_BEEP, dn_key_SN_RESET_FILTER_MESH, dn_key_SN_MODE, dn_key_TIMER_OFF,
     dn_key_SN_FANSPEED]"

definition act_SET :: "u8 list \<Rightarrow> hf \<Rightarrow> hf res" where
  "act_SET data s =
     rbind (setStruct data (s\<lparr>strDownKeysDirty := strDownKeysNow s\<rparr>)) (foldM (\<lambda>f. f) dn_keys)"

definition downstream :: "u8 list \<Rightarrow> hf \<Rightarrow> hf res" where
  "downstream data s =
     (let s1 = s\<lparr>dataOut := replicate (length (dataOut s)) 0, outLen := 0\<rparr>
      in if ACT_CODE_SET = 0x1002 then act_SET data s1 else Inr s1)"

end
