(* ===== verification/HFService_Props.thy ===== *)
theory HFService_Props
  imports HFService
begin

text \<open>
  What the serial protocol promises: a status frame becomes exactly one list of tagged values, a
  list of settings exactly one control frame; and where it fails: words are read in the other
  byte order than they are written, and the copy of the status over the settings shifts every
  field from the mode on.
\<close>

section \<open>Bytes and words\<close>

lemma put_byte [simp]:
  "pos < length buf \<Longrightarrow> putByte pos v buf = Inr (buf[pos := word_of_int v])"
  by (simp add: putByte_def)

lemma get_byte [simp]: "pos < length d \<Longrightarrow> getByte d pos = Inr (d ! pos)"
  by (simp add: getByte_def)

lemma get_bits [simp]: "pos < length d \<Longrightarrow> getBits d pos m i = Inr (drop_bit i (d ! pos AND m))"
  by (simp add: getBits_def)

lemma big_endian [simp]: "IS_BIGENDIAN = 1"
  by (simp add: IS_BIGENDIAN_def)

definition le_word :: "u8 list \<Rightarrow> nat \<Rightarrow> u16" where
  "le_word d pos = push_bit 8 (ucast (d ! (pos + 1))) + ucast (d ! pos)"

lemma get_word [simp]: "pos + 1 < length d \<Longrightarrow> getWord d pos = Inr (le_word d pos)"
  by (simp add: getWord_def le_word_def)

definition be16 :: "u16 \<Rightarrow> u8 list" where
  "be16 w = [ucast (drop_bit 8 w), ucast w]"

lemma low_byte [simp]: "word_of_int (v AND 255) = (word_of_int v :: u8)"
proof -
  have "v AND 255 = take_bit 8 v" by (simp add: take_bit_eq_mask mask_eq_exp_minus_1)
  then show ?thesis by (simp add: word_of_int_eq_iff)
qed

lemma byte_of_word [simp]: "word_of_int (uint (w :: u16)) = (ucast w :: u8)"
  by (simp add: word_of_int_uint)

lemma high_byte [simp]: "word_of_int (drop_bit 8 (uint (w :: u16))) = (ucast (drop_bit 8 w) :: u8)"
  by (rule bit_word_eqI) (auto simp: bit_simps bit_uint_iff dest: bit_imp_le_length)

lemma put_word [simp]:
  "pos + 1 < length buf \<Longrightarrow> putWord pos (uint (w :: u16)) buf = Inr (buf[pos := ucast (drop_bit 8 w), pos + 1 := ucast w])"
  by (simp add: putWord_def)

lemma ucast_split:
  "push_bit 8 (ucast (ucast (w :: u16) :: u8)) + ucast (ucast (drop_bit 8 w) :: u8) =
     push_bit 8 w OR drop_bit 8 w"
proof -
  have "push_bit 8 (ucast (ucast w :: u8)) + ucast (ucast (drop_bit 8 w) :: u8) =
      (push_bit 8 (ucast (ucast w :: u8)) OR ucast (ucast (drop_bit 8 w) :: u8) :: u16)"
    by (rule disjunctive_add) (auto simp: bit_simps)
  also have "\<dots> = push_bit 8 w OR drop_bit 8 w"
    by (rule bit_word_eqI) (auto simp: bit_simps dest: bit_imp_le_length)
  finally show ?thesis .
qed

lemma int_bytes:
  assumes "0 \<le> v" "v < 2 ^ 31"
  shows "uint (word_of_int (drop_bit 24 v) :: u8) * 2 ^ 24 + uint (word_of_int (drop_bit 16 v) :: u8) * 2 ^ 16
    + uint (word_of_int (drop_bit 8 v) :: u8) * 2 ^ 8 + uint (word_of_int v :: u8) = v"
    and "\<not> (128 :: u8) \<le> word_of_int (drop_bit 24 v)"
proof -
  have b: "uint (word_of_int x :: u8) = x mod 256" for x by (simp add: uint_word_of_int)
  show "uint (word_of_int (drop_bit 24 v) :: u8) * 2 ^ 24 + uint (word_of_int (drop_bit 16 v) :: u8) * 2 ^ 16
    + uint (word_of_int (drop_bit 8 v) :: u8) * 2 ^ 8 + uint (word_of_int v :: u8) = v"
  proof -
    define x y z where "x = v div 256" and "y = x div 256" and "z = y div 256"
    have d: "drop_bit 8 v = x" "drop_bit 16 v = y" "drop_bit 24 v = z"
      by (simp_all add: x_def y_def z_def drop_bit_eq_div flip: zdiv_zmult2_eq)
    have "z mod 256 = z" using assms by (simp add: x_def y_def z_def flip: zdiv_zmult2_eq)
    moreover have "256 * x + v mod 256 = v" "256 * y + x mod 256 = x" "256 * z + y mod 256 = y"
      unfolding z_def y_def x_def by (rule mult_div_mod_eq)+
    ultimately show ?thesis unfolding b d by simp
  qed
  have "drop_bit 24 v mod 256 < 128" using assms by (simp add: drop_bit_eq_div)
  then show "\<not> (128 :: u8) \<le> word_of_int (drop_bit 24 v)" by (simp add: word_le_def b)
qed

text \<open>
  Integers survive a frame, words do not: \<open>getInt\<close> reads back every non-negative value that
  \<open>putInt\<close> wrote, but \<open>getWord\<close> returns what \<open>putWord\<close> wrote with its two bytes exchanged.
\<close>

theorem frame_numbers:
  assumes "pos + 4 \<le> length buf" "0 \<le> v" "v < 2 ^ 31"
  shows "rbind (putInt pos v buf) (\<lambda>b. getInt b pos) = Inr v
    \<and> rbind (putWord pos (uint w) buf) (\<lambda>b. getWord b pos) = Inr (push_bit 8 w OR drop_bit 8 w)"
proof
  show "rbind (putInt pos v buf) (\<lambda>b. getInt b pos) = Inr v"
    using assms(1) int_bytes [OF assms(2,3)] by (simp add: putInt_def getInt_def Let_def)
  show "rbind (putWord pos (uint w) buf) (\<lambda>b. getWord b pos) = Inr (push_bit 8 w OR drop_bit 8 w)"
    using assms(1) by (simp add: le_word_def ucast_split)
qed

theorem frame_numbers_witness:
  "rbind (putInt 1 305419896 (replicate 6 0)) (\<lambda>b. getInt b 1) = Inr 305419896
   \<and> rbind (putWord 1 (uint (0x1234 :: u16)) (replicate 6 0)) (\<lambda>b. getWord b 1) = Inr 0x3412"
  using frame_numbers [of 1 "replicate 6 0" 305419896 "0x1234"] by simp

section \<open>Status frames\<close>

definition flag :: "u8 list \<Rightarrow> nat \<Rightarrow> u8" where
  "flag f i = drop_bit i (f ! 6 AND push_bit i 1)"

text \<open>The status a frame carries, and the list of tagged values that reports it.\<close>

definition status :: "u8 list \<Rightarrow> StrUpKeys" where
  "status f = zero_up
     \<lparr>u_SN_POWER := flag f 0, u_SN_CHILD_SAFETY_LOCK := flag f 1, u_UV_LIGHT := flag f 2,
      u_SN_NEGATIVE_ION := flag f 3, u_SN_LED_LIGHT := flag f 4, u_BEEP := flag f 5,
      u_SN_RESET_FILTER_MESH := flag f 6, u_FILTER_WARN := flag f 7, u_SN_MODE := f ! 7,
      u_LEFT_TIMER_OFF := le_word f 8, u_SN_FANSPEED := f ! 10, u_SN_PM25 := le_word f 11,
      u_SN_VOC := le_word f 13, u_SN_CO2 := le_word f 15, u_SN_FILTER_MESH_HOURS := le_word f 17\<rparr>"

definition tagged :: "u8 \<Rightarrow> u8 list \<Rightarrow> u8 list" where
  "tagged tag v = tag # of_nat (length v) # v"

definition report :: "StrUpKeys \<Rightarrow> u8 list" where
  "report k = concat
     [tagged 1 [u_SN_POWER k], tagged 2 [u_SN_CHILD_SAFETY_LOCK k], tagged 3 [u_UV_LIGHT k],
      tagged 4 [u_SN_NEGATIVE_ION k], tagged 5 [u_SN_LED_LIGHT k], tagged 6 [u_BEEP k],
      tagged 7 [u_SN_RESET_FILTER_MESH k], tagged 8 [u_FILTER_WARN k], tagged 9 [u_SN_MODE k],
      tagged 10 (be16 (u_LEFT_TIMER_OFF k)), tagged 11 [u_SN_FANSPEED k],
      tagged 12 (be16 (u_SN_PM25 k)), tagged 13 (be16 (u_SN_VOC k)), tagged 14 (be16 (u_SN_CO2 k)),
      tagged 15 (be16 (u_SN_FILTER_MESH_HOURS k))]"

lemma length_report: "length (report k) = 50"
  by (simp add: report_def tagged_def be16_def)

text \<open>The state after the bytes \<open>bs\<close> were put into a cleared block of \<open>n\<close> bytes.\<close>

definition emitted :: "nat \<Rightarrow> u8 list \<Rightarrow> StrUpKeys \<Rightarrow> hf \<Rightarrow> hf" where
  "emitted n bs k s =
     s\<lparr>dataOut := bs @ replicate (n - length bs) 0, outLen := length bs, strUpKeysDirty := k\<rparr>"

lemma out_byte_emitted:
  assumes "length bs < n"
  shows "out_byte b (emitted n bs k s) = Inr (emitted n (bs @ [b]) k s)"
proof -
  obtain r where "n - length bs = Suc r" using assms by (cases "n - length bs") auto
  moreover from this have "n - Suc (length bs) = r" by simp
  ultimately show ?thesis by (simp add: out_byte_def emitted_def list_update_append)
qed

lemma out_word_emitted:
  assumes "Suc (length bs) < n"
  shows "out_word w (emitted n bs k s) = Inr (emitted n (bs @ be16 w) k s)"
proof -
  obtain r where "n - length bs = Suc (Suc r)"
    using assms by (cases "n - length bs"; cases "n - length bs - 1") auto
  moreover from this have "n - Suc (Suc (length bs)) = r" by simp
  ultimately show ?thesis by (simp add: out_word_def emitted_def list_update_append be16_def)
qed

lemma up_byte_emitted:
  assumes "get d = Inr v" "length bs + 3 \<le> n"
  shows "up_byte tag get upd sel (Some d) (emitted n bs k s) =
    Inr (emitted n (bs @ tagged tag [sel (upd v k)]) (upd v k) s)"
proof -
  have e: "(emitted n bs k s)\<lparr>strUpKeysDirty := upd v (strUpKeysDirty (emitted n bs k s))\<rparr> = emitted n bs (upd v k) s"
    for bs by (simp add: emitted_def)
  show ?thesis using assms e
    by (simp add: up_byte_def out_byte_emitted tagged_def) (simp add: emitted_def)
qed

lemma up_word_emitted:
  assumes "get d = Inr v" "length bs + 4 \<le> n"
  shows "up_word tag get upd sel (Some d) (emitted n bs k s) =
    Inr (emitted n (bs @ tagged tag (be16 (sel (upd v k)))) (upd v k) s)"
proof -
  have e: "(emitted n bs k s)\<lparr>strUpKeysDirty := upd v (strUpKeysDirty (emitted n bs k s))\<rparr> = emitted n bs (upd v k) s"
    for bs by (simp add: emitted_def)
  have l: "length (be16 w) = 2" for w by (simp add: be16_def)
  show ?thesis using assms e
    by (simp add: up_word_def out_byte_emitted out_word_emitted tagged_def l) (simp add: emitted_def)
qed

lemmas up_key_defs =
  up_key_SN_POWER_def up_key_SN_CHILD_SAFETY_LOCK_def up_key_UV_LIGHT_def up_key_SN_NEGATIVE_ION_def
  up_key_SN_LED_LIGHT_def up_key_BEEP_def up_key_SN_RESET_FILTER_MESH_def up_key_FILTER_WARN_def
  up_key_SN_MODE_def up_key_LEFT_TIMER_OFF_def up_key_SN_FANSPEED_def up_key_SN_PM25_def
  up_key_SN_VOC_def up_key_SN_CO2_def up_key_SN_FILTER_MESH_HOURS_def

lemma length_tagged [simp]: "length (tagged t v) = length v + 2" "length (be16 w) = 2"
  by (simp_all add: tagged_def be16_def)

lemma up_keys_report:
  assumes "19 \<le> length f" "50 \<le> n"
  shows "foldM (\<lambda>g. g (Some f)) up_keys (emitted n [] zero_up s) = Inr (emitted n (report (status f)) (status f) s)"
  using assms
  by (simp add: up_keys_def up_key_defs up_byte_emitted up_word_emitted)
     (simp add: report_def status_def flag_def)

section \<open>Structures as bytes\<close>

lemma up_of_bytes_inverse [simp]: "up_of_bytes (up_bytes k) = k"
proof -
  have "word_at [a, b] 0 = push_bit 8 (ucast b) OR ucast a" for a b by (simp add: word_at_def)
  have w: "push_bit 8 (ucast (ucast (drop_bit 8 w) :: u8)) OR ucast (ucast w :: u8) = w" for w :: u16
    by (rule bit_word_eqI) (auto simp: bit_simps)
  show ?thesis
    by (cases k) (simp add: up_of_bytes_def up_bytes_def word_at_def le16_def w)
qed

lemma up_bytes_eq [simp]: "up_bytes a = up_bytes b \<longleftrightarrow> a = b"
  by (metis up_of_bytes_inverse)

text \<open>What the copy of a status over the settings leaves in them.\<close>

definition shifted :: "StrUpKeys \<Rightarrow> StrDownKeys" where
  "shifted k =
     \<lparr>d_SN_POWER = u_SN_POWER k, d_SN_CHILD_SAFETY_LOCK = u_SN_CHILD_SAFETY_LOCK k,
      d_UV_LIGHT = u_UV_LIGHT k, d_SN_NEGATIVE_ION = u_SN_NEGATIVE_ION k,
      d_SN_LED_LIGHT = u_SN_LED_LIGHT k, d_BEEP = u_BEEP k,
      d_SN_RESET_FILTER_MESH = u_SN_RESET_FILTER_MESH k, d_SN_MODE = u_FILTER_WARN k,
      d_TIMER_OFF = push_bit 8 (ucast (u_pad9 k)) OR ucast (u_SN_MODE k),
      d_SN_FANSPEED = ucast (u_LEFT_TIMER_OFF k),
      d_pad11 = ucast (drop_bit 8 (u_LEFT_TIMER_OFF k))\<rparr>"

lemma structUpSynch_shifts: "strDownKeysNow (structUpSynch s) = shifted (strUpKeysNow s)"
  by (simp add: structUpSynch_def DOWN_SIZE_def UP_SIZE_def Let_def up_bytes_def down_bytes_def le16_def
      down_of_bytes_def word_at_def shifted_def)

lemma structUpSynch_rest [simp]:
  "dataOut (structUpSynch s) = dataOut s" "outLen (structUpSynch s) = outLen s"
  "strUpKeysNow (structUpSynch s) = strUpKeysNow s" "device_updated (structUpSynch s) = device_updated s"
  by (simp_all add: structUpSynch_def Let_def)

lemma emitted_fields [simp]:
  "dataOut (emitted n bs k s) = bs @ replicate (n - length bs) 0" "outLen (emitted n bs k s) = length bs"
  "strUpKeysDirty (emitted n bs k s) = k" "strUpKeysNow (emitted n bs k s) = strUpKeysNow s"
  "strDownKeysNow (emitted n bs k s) = strDownKeysNow s"
  by (simp_all add: emitted_def)

lemma upstream_result:
  assumes "19 \<le> length f" "f ! 0 = 0xAA" "50 \<le> length (dataOut s)"
  shows "upstream f s =
    (let r = emitted (length (dataOut s)) (report (status f)) (status f) s
     in Inr (if strUpKeysNow s = status f then r\<lparr>device_updated := False\<rparr>
             else structUpSynch (r\<lparr>strUpKeysNow := status f, device_updated := True\<rparr>)))"
proof -
  have "0 < length f" using assms(1) by linarith
  then have g: "getByte f 0 = Inr 0xAA" using assms(2) by simp
  have e: "s\<lparr>dataOut := replicate (length (dataOut s)) 0, outLen := 0, strUpKeysDirty := zero_up\<rparr>
      = emitted (length (dataOut s)) [] zero_up s"
    by (simp add: emitted_def)
  show ?thesis
    unfolding upstream_def Let_def g rbind_Inr
    by (simp add: up_fun_up_def e up_keys_report [OF assms(1,3)])
qed

text \<open>
  C12. A status frame becomes a report: from a frame of at least 19 bytes that starts with
  \<open>0xAA\<close>, \<open>upstream\<close> writes exactly fifteen tagged values, 50 bytes, into any block that holds
  them; the fields are the bits of byte 6 and the bytes and words behind it, the status becomes
  the current one, and \<open>device_updated\<close> says whether it differs from the one before.
\<close>

theorem upstream_reports:
  assumes "19 \<le> length f" "f ! 0 = 0xAA" "50 \<le> length (dataOut s)"
  shows "\<exists>s'. upstream f s = Inr s' \<and> outLen s' = 50 \<and> take 50 (dataOut s') = report (status f)
    \<and> length (dataOut s') = length (dataOut s)
    \<and> strUpKeysNow s' = status f \<and> (device_updated s' \<longleftrightarrow> strUpKeysNow s \<noteq> status f)"
  unfolding upstream_result [OF assms] Let_def
  using assms(3) by (auto simp: length_report)

theorem upstream_reports_witness:
  "\<exists>s'. upstream (0xAA # replicate 18 3)
      \<lparr>dataOut = replicate 64 7, outLen = 9, device_updated = False, strUpKeysNow = zero_up,
       strUpKeysDirty = zero_up, strDownKeysNow = shifted zero_up, strDownKeysDirty = shifted zero_up\<rparr>
      = Inr s' \<and> take 50 (dataOut s') = report (status (0xAA # replicate 18 3))"
  using upstream_reports [of "0xAA # replicate 18 3" "\<lparr>dataOut = replicate 64 7, outLen = 9,
      device_updated = False, strUpKeysNow = zero_up, strUpKeysDirty = zero_up,
      strDownKeysNow = shifted zero_up, strDownKeysDirty = shifted zero_up\<rparr>"] by auto

section \<open>Control frames\<close>

text \<open>A setting is a tag and the bytes of its value; \<open>set_one\<close> is what it means.\<close>

definition setting_ok :: "u8 \<times> u8 list \<Rightarrow> bool" where
  "setting_ok s = (case s of (t, v) \<Rightarrow> t \<noteq> 0 \<and> 0 < length v \<and> length v < 256 \<and> (t = 9 \<longrightarrow> 2 \<le> length v))"

definition set_one :: "u8 \<times> u8 list \<Rightarrow> StrDownKeys \<Rightarrow> StrDownKeys" where
  "set_one s k =
     (case s of (t, v) \<Rightarrow>
        if t = 1 then k\<lparr>d_SN_POWER := v ! 0\<rparr>
        else if t = 2 then k\<lparr>d_SN_CHILD_SAFETY_LOCK := v ! 0\<rparr>
        else if t = 3 then k\<lparr>d_UV_LIGHT := v ! 0\<rparr>
        else if t = 4 then k\<lparr>d_SN_NEGATIVE_ION := v ! 0\<rparr>
        else if t = 5 then k\<lparr>d_SN_LED_LIGHT := v ! 0\<rparr>
        else if t = 6 then k\<lparr>d_BEEP := v ! 0\<rparr>
        else if t = 7 then k\<lparr>d_SN_RESET_FILTER_MESH := v ! 0\<rparr>
        else if t = 8 then k\<lparr>d_SN_MODE := v ! 0\<rparr>
        else if t = 9 then k\<lparr>d_TIMER_OFF := le_word v 0\<rparr>
        else if t = 10 then k\<lparr>d_SN_FANSPEED := v ! 0\<rparr>
        else k)"

definition wire :: "(u8 \<times> u8 list) list \<Rightarrow> u8 list" where
  "wire fs = concat (map (\<lambda>(t, v). tagged t v) fs)"

lemma set_key_value:
  assumes "setting_ok (t, v)"
  shows "set_key (pre @ v @ rest) t (length pre) k = Inr (set_one (t, v) k)"
proof (cases "t = 9")
  case True
  then have "Suc (length pre) < length (pre @ v @ rest)" using assms by (simp add: setting_ok_def)
  then show ?thesis using True assms by (simp add: setting_ok_def set_key_def set_one_def le_word_def nth_append)
next
  case False
  then show ?thesis using assms by (simp add: setting_ok_def set_key_def set_one_def nth_append)
qed

lemma set_fields_wire:
  assumes "\<forall>s \<in> set fs. setting_ok s"
  shows "set_fields (pre @ wire fs @ 0 # b # rest) (length pre) k = Inr (fold set_one fs k)"
  using assms
proof (induction fs arbitrary: pre k)
  case Nil
  show ?case by (subst set_fields.simps) (simp add: wire_def getFeild_def nth_append)
next
  case (Cons s fs)
  obtain t v where s: "s = (t, v)" by (cases s)
  let ?d = "pre @ wire (s # fs) @ 0 # b # rest" and ?n = "of_nat (length v) :: u8"
  have ok: "setting_ok (t, v)" using Cons.prems s by simp
  then have n: "t \<noteq> 0" "?n \<noteq> 0" "unat ?n = length v"
    by (auto simp: setting_ok_def unat_of_nat word_of_nat_eq_0_iff dest: nat_dvd_not_less)
  have d: "?d = (pre @ [t, ?n]) @ v @ wire fs @ 0 # b # rest"
    by (simp add: wire_def tagged_def s)
  have "getFeild ?d (length pre) = Inr (Some (t, length pre + 2, length pre + 2 + length v))"
    using n unfolding d by (simp add: getFeild_def nth_append)
  moreover have "set_key ?d t (length pre + 2) k = Inr (set_one (t, v) k)"
    using set_key_value [OF ok, of "pre @ [t, ?n]" "wire fs @ 0 # b # rest"] unfolding d by simp
  moreover have "set_fields ?d (length pre + 2 + length v) k' = Inr (fold set_one fs k')" for k'
    using Cons.IH [of "pre @ [t, ?n] @ v"] Cons.prems unfolding d by (simp add: add.assoc)
  ultimately show ?case by (subst set_fields.simps) (simp add: s)
qed

definition frame :: "StrDownKeys \<Rightarrow> u8 list" where
  "frame k =
     [0xAA, 0, 0, 0, 0, 0,
      foldr (OR) [d_SN_POWER k AND 1, push_bit 1 (d_SN_CHILD_SAFETY_LOCK k) AND 2, push_bit 2 (d_UV_LIGHT k) AND 4,
        push_bit 3 (d_SN_NEGATIVE_ION k) AND 8, push_bit 4 (d_SN_LED_LIGHT k) AND 16, push_bit 5 (d_BEEP k) AND 32,
        push_bit 6 (d_SN_RESET_FILTER_MESH k) AND 64] 0,
      d_SN_MODE k] @ be16 (d_TIMER_OFF k) @ [d_SN_FANSPEED k]"

lemmas dn_key_defs =
  dn_key_SN_POWER_def dn_key_SN_CHILD_SAFETY_LOCK_def dn_key_UV_LIGHT_def dn_key_SN_NEGATIVE_ION_def
  dn_key_SN_LED_LIGHT_def dn_key_BEEP_def dn_key_SN_RESET_FILTER_MESH_def dn_key_SN_MODE_def
  dn_key_TIMER_OFF_def dn_key_SN_FANSPEED_def

lemma dn_keys_frame:
  assumes "dataOut s = replicate (m + 11) 0" "outLen s = 0"
  shows "foldM (\<lambda>f. f) dn_keys s =
    Inr (s\<lparr>dataOut := frame (strDownKeysDirty s) @ replicate m 0, outLen := 11\<rparr>)"
proof -
  have r: "replicate (m + 11) (0 :: u8) = [0, 0, 0, 0, 0, 0, 0, 0, 0, 0, 0] @ replicate m 0"
    by (simp add: eval_nat_numeral)
  show ?thesis
    using assms
    by (simp add: dn_keys_def dn_key_defs dn_put_def putBits_def outMaxLen_def r)
       (simp add: eval_nat_numeral frame_def be16_def or.assoc)
qed

text \<open>
  C10. Settings become a control frame: from any list of well-formed settings that ends in a zero
  tag, \<open>downstream\<close> starts with the current settings, applies the list in its order, and writes
  the frame of 11 bytes with the flags in byte 6 and mode, timer and fan speed behind it.
\<close>

theorem downstream_frame:
  assumes "\<forall>s \<in> set fs. setting_ok s" "11 \<le> length (dataOut h)"
  shows "\<exists>h'. downstream (wire fs @ 0 # b # rest) h = Inr h'
    \<and> strDownKeysDirty h' = fold set_one fs (strDownKeysNow h)
    \<and> take (outLen h') (dataOut h') = frame (fold set_one fs (strDownKeysNow h))
    \<and> strDownKeysNow h' = strDownKeysNow h"
proof -
  obtain m where m: "length (dataOut h) = m + 11" using assms(2) by (metis add.commute le_Suc_ex)
  let ?h = "h\<lparr>dataOut := replicate (m + 11) 0, outLen := 0, strDownKeysDirty := fold set_one fs (strDownKeysNow h)\<rparr>"
  have s: "set_fields (wire fs @ 0 # b # rest) 0 k = Inr (fold set_one fs k)" for k
    using set_fields_wire [OF assms(1), of "[]" b rest k] by simp
  have "downstream (wire fs @ 0 # b # rest) h = foldM (\<lambda>f. f) dn_keys ?h"
    by (simp add: downstream_def ACT_CODE_SET_def Let_def act_SET_def setStruct_def s m)
  moreover have "length (frame k) = 11" for k by (simp add: frame_def)
  ultimately show ?thesis using dn_keys_frame [of ?h m] by simp
qed

theorem downstream_frame_witness:
  "\<exists>h'. downstream [8, 1, 3, 0, 0]
      \<lparr>dataOut = replicate 11 7, outLen = 9, device_updated = False, strUpKeysNow = zero_up,
       strUpKeysDirty = zero_up, strDownKeysNow = shifted zero_up, strDownKeysDirty = shifted zero_up\<rparr>
      = Inr h' \<and> d_SN_MODE (strDownKeysDirty h') = 3"
  using downstream_frame [of "[(8, [3])]" "\<lparr>dataOut = replicate 11 7, outLen = 9, device_updated = False,
      strUpKeysNow = zero_up, strUpKeysDirty = zero_up, strDownKeysNow = shifted zero_up,
      strDownKeysDirty = shifted zero_up\<rparr>" 0 "[]"]
  by (auto simp: setting_ok_def wire_def tagged_def set_one_def)

text \<open>
  C11. The status is copied over the settings byte by byte, but the structures differ from the
  eighth field on: after a status frame that changed something, a control request that only sets
  the power makes the frame whose mode is the filter warning, whose timer is the mode and whose
  fan speed is the low byte of the timer.
\<close>

theorem status_shifts_settings:
  assumes "19 \<le> length f" "f ! 0 = 0xAA" "50 \<le> length (dataOut h)" "strUpKeysNow h \<noteq> status f"
  shows "\<exists>h1 h2 k. upstream f h = Inr h1 \<and> downstream [1, 1, p, 0, 0] h1 = Inr h2
    \<and> take (outLen h2) (dataOut h2) = frame k
    \<and> d_SN_POWER k = p \<and> d_SN_MODE k = u_FILTER_WARN (status f)
    \<and> d_TIMER_OFF k = ucast (u_SN_MODE (status f)) \<and> d_SN_FANSPEED k = ucast (u_LEFT_TIMER_OFF (status f))"
proof -
  let ?r = "emitted (length (dataOut h)) (report (status f)) (status f) h"
  let ?h1 = "structUpSynch (?r\<lparr>strUpKeysNow := status f, device_updated := True\<rparr>)"
  have u: "upstream f h = Inr ?h1" using upstream_result [OF assms(1-3)] assms(4) by (simp add: Let_def)
  have k: "strDownKeysNow ?h1 = shifted (status f)" by (simp add: structUpSynch_shifts)
  have "11 \<le> length (dataOut ?h1)" using assms(3) by (simp add: length_report)
  from downstream_frame [of "[(1, [p])]", OF _ this, of 0 "[]"] obtain h2
    where d: "downstream [1, 1, p, 0, 0] ?h1 = Inr h2"
      "take (outLen h2) (dataOut h2) = frame (set_one (1, [p]) (shifted (status f)))"
    by (auto simp: setting_ok_def wire_def tagged_def k)
  have "u_pad9 (status f) = 0" by (simp add: status_def zero_up_def up_of_bytes_def UP_SIZE_def)
  then show ?thesis using u d by (intro exI conjI) (auto simp: set_one_def shifted_def)
qed

theorem status_shifts_settings_witness:
  "\<exists>h1 h2 k. upstream (0xAA # replicate 5 0 @ [0x80, 5] @ replicate 11 2)
      \<lparr>dataOut = replicate 50 0, outLen = 0, device_updated = False, strUpKeysNow = zero_up,
       strUpKeysDirty = zero_up, strDownKeysNow = shifted zero_up, strDownKeysDirty = shifted zero_up\<rparr> = Inr h1
    \<and> downstream [1, 1, 1, 0, 0] h1 = Inr h2 \<and> take (outLen h2) (dataOut h2) = frame k
    \<and> d_SN_MODE k = 1 \<and> d_TIMER_OFF k = 5"
proof -
  let ?f = "0xAA # replicate 5 0 @ [0x80, 5] @ replicate 11 2 :: u8 list"
  have s: "u_FILTER_WARN (status ?f) = 1" "u_SN_MODE (status ?f) = 5"
    by (simp_all add: status_def flag_def nth_append)
  moreover have "u_SN_MODE zero_up = 0" by (simp add: zero_up_def up_of_bytes_def UP_SIZE_def)
  ultimately have "zero_up \<noteq> status ?f" by (auto dest: arg_cong [where f = u_SN_MODE])
  then show ?thesis
    using status_shifts_settings [of ?f "\<lparr>dataOut = replicate 50 0, outLen = 0, device_updated = False,
       strUpKeysNow = zero_up, strUpKeysDirty = zero_up, strDownKeysNow = shifted zero_up,
       strDownKeysDirty = shifted zero_up\<rparr>" 1] s by auto
qed

end
