(* ===== verification/Jsmn.thy ===== *)
theory Jsmn
  imports Prelude
begin

text \<open>
  The tokenizer \<open>src/thirdpartylib/JingDong/jsmn/jsmn.c\<close>, in the configuration of \<open>jsmn-priv.h\<close>:
  strict, and with links to the parents.  It fills a caller's array with tokens, each a kind and
  an interval of the text.

  \<open>js\<close> is the text before its NUL, so position \<open>length js\<close> holds the NUL and reading behind it
  is the fault \<open>OutOfBounds\<close>.  Texts and arrays are shorter than 2 to the 15, the range of the
  positions; the number of children of a token is a byte.  \<open>None\<close> as the array is the mode that
  only counts.  A call that would not come back is \<open>None\<close>.
\<close>

section \<open>Data\<close>

definition JSMN_PRIMITIVE :: u8 where "JSMN_PRIMITIVE = 0"
definition JSMN_OBJECT :: u8 where "JSMN_OBJECT = 1"
definition JSMN_ARRAY :: u8 where "JSMN_ARRAY = 2"
definition JSMN_STRING :: u8 where "JSMN_STRING = 3"

definition JSMN_ERROR_NOMEM :: int where "JSMN_ERROR_NOMEM = - 1"
definition JSMN_ERROR_INVAL :: int where "JSMN_ERROR_INVAL = - 2"
definition JSMN_ERROR_PART :: int where "JSMN_ERROR_PART = - 3"

record jsontok =
  t_type :: u8
  t_size :: u8
  t_start :: int
  t_end :: int
  t_parent :: int

record jsmn_parser =
  j_pos :: nat
  j_toknext :: nat
  j_toksuper :: int

definition jsmn_init :: jsmn_parser where
  "jsmn_init = \<lparr>j_pos = 0, j_toknext = 0, j_toksuper = - 1\<rparr>"

definition js_at :: "string \<Rightarrow> nat \<Rightarrow> char res" where
  "js_at js i =
     (if i < length js then Inr (js ! i) else if i = length js then Inr NUL else Inl OutOfBounds)"

section \<open>Tokens\<close>

text \<open>The index of the new token; \<open>None\<close> when the array is full.\<close>

definition jsmn_alloc_token ::
  "jsmn_parser \<Rightarrow> jsontok list \<Rightarrow> nat \<Rightarrow> (nat \<times> jsmn_parser \<times> jsontok list) option res" where
  "jsmn_alloc_token p toks num =
     (if num \<le> j_toknext p then Inr None
      else if j_toknext p < length toks
      then Inr (Some (j_toknext p, p\<lparr>j_toknext := j_toknext p + 1\<rparr>,
             toks[j_toknext p := (toks ! j_toknext p)\<lparr>t_start := - 1, t_end := - 1, t_size := 0, t_parent := - 1\<rparr>]))
      else Inl BufferOverflow)"

definition jsmn_fill_token :: "u8 \<Rightarrow> nat \<Rightarrow> nat \<Rightarrow> jsontok \<Rightarrow> jsontok" where
  "jsmn_fill_token ty s e t = t\<lparr>t_type := ty, t_start := int s, t_end := int e, t_size := 0\<rparr>"

section \<open>Primitives and strings\<close>

text \<open>Where a leaf ends, or the error it is left with.\<close>

type_synonym leaf_end = "(int + nat) res"

definition prim_stop :: "char \<Rightarrow> bool" where
  "prim_stop c \<longleftrightarrow> c \<in> {CHR 0x09, CHR 0x0D, CHR 0x0A, CHR '' '', CHR '','', CHR '']'', CHR ''}''}"

definition prim_bad :: "char \<Rightarrow> bool" where
  "prim_bad c \<longleftrightarrow> code c < 32 \<or> 127 \<le> code c"

function primitive_end :: "string \<Rightarrow> nat \<Rightarrow> nat \<Rightarrow> leaf_end" where
  "primitive_end js len i =
     (if i < len
      then rbind (js_at js i) (\<lambda>c.
           if c = NUL then Inr (Inl JSMN_ERROR_PART)
           else if prim_stop c then Inr (Inr i)
           else if prim_bad c then Inr (Inl JSMN_ERROR_INVAL)
           else primitive_end js len (i + 1))
      else Inr (Inl JSMN_ERROR_PART))"
  by pat_completeness auto
termination by (relation "measure (\<lambda>(js, len, i). len - i)") auto

declare primitive_end.simps [simp del]

text \<open>The up to four digits of an escape: the position behind them, or \<open>None\<close> for another character.\<close>

definition is_hexdig :: "char \<Rightarrow> bool" where
  "is_hexdig c \<longleftrightarrow> (48 \<le> code c \<and> code c \<le> 57) \<or> (65 \<le> code c \<and> code c \<le> 70) \<or> (97 \<le> code c \<and> code c \<le> 102)"

fun hex_end :: "string \<Rightarrow> nat \<Rightarrow> nat \<Rightarrow> nat option res" where
  "hex_end js 0 i = Inr (Some i)"
| "hex_end js (Suc n) i =
     rbind (js_at js i) (\<lambda>c.
       if c = NUL then Inr (Some i) else if is_hexdig c then hex_end js n (i + 1) else Inr None)"

lemma hex_end_ge: "hex_end js n i = Inr (Some j) \<Longrightarrow> i \<le> j"
  by (induction n arbitrary: i) (auto simp: rbind_eq_Inr split: if_splits, fastforce)

definition simple_escape :: "char \<Rightarrow> bool" where
  "simple_escape d \<longleftrightarrow>
     d \<in> {CHR 0x22, CHR ''/'', CHR 0x5C, CHR ''b'', CHR ''f'', CHR ''r'', CHR ''n'', CHR ''t''}"

function string_end :: "string \<Rightarrow> nat \<Rightarrow> nat \<Rightarrow> leaf_end" where
  "string_end js len i =
     (if i < len
      then rbind (js_at js i) (\<lambda>c.
           if c = NUL then Inr (Inl JSMN_ERROR_PART)
           else if c = CHR 0x22 then Inr (Inr i)
           else if c = CHR 0x5C
           then rbind (js_at js (i + 1)) (\<lambda>d.
                if simple_escape d then string_end js len (i + 2)
                else if d = CHR ''u''
                then rbind (hex_end js 4 (i + 2)) (\<lambda>r. case r of
                       None \<Rightarrow> Inr (Inl JSMN_ERROR_INVAL)
                     | Some j \<Rightarrow> string_end js len j)
                else Inr (Inl JSMN_ERROR_INVAL))
           else string_end js len (i + 1))
      else Inr (Inl JSMN_ERROR_PART))"
  by pat_completeness auto
termination by (relation "measure (\<lambda>(js, len, i). len - i)") (auto dest!: hex_end_ge)

declare string_end.simps [simp del]

text \<open>
  The return value, the parser and the array.  On an error the position is back at the start.
  Both leaf parsers end by taking and filling a token and leaving the position at \<open>pos\<close>.
\<close>

type_synonym leaf_out = "(int \<times> jsmn_parser \<times> jsontok list option) res"

definition leaf_finish ::
  "u8 \<Rightarrow> nat \<Rightarrow> nat \<Rightarrow> nat \<Rightarrow> nat \<Rightarrow> jsmn_parser \<Rightarrow> jsontok list option \<Rightarrow> leaf_out" where
  "leaf_finish ty s e pos num p tokens =
     (case tokens of
        None \<Rightarrow> Inr (0, p\<lparr>j_pos := pos\<rparr>, None)
      | Some toks \<Rightarrow>
          rbind (jsmn_alloc_token p toks num) (\<lambda>r. case r of
            None \<Rightarrow> Inr (JSMN_ERROR_NOMEM, p, tokens)
          | Some (i, p', toks') \<Rightarrow>
              Inr (0, p'\<lparr>j_pos := pos\<rparr>,
                   Some (toks'[i := (jsmn_fill_token ty s e (toks' ! i))\<lparr>t_parent := j_toksuper p'\<rparr>]))))"

definition jsmn_parse_primitive :: "string \<Rightarrow> nat \<Rightarrow> nat \<Rightarrow> jsmn_parser \<Rightarrow> jsontok list option \<Rightarrow> leaf_out" where
  "jsmn_parse_primitive js len num p tokens =
     (let start = j_pos p
      in rbind (primitive_end js len start) (\<lambda>r. case r of
           Inl e \<Rightarrow> Inr (e, p, tokens)
         | Inr i \<Rightarrow> leaf_finish JSMN_PRIMITIVE start i (i - 1) num p tokens))"

definition jsmn_parse_string :: "string \<Rightarrow> nat \<Rightarrow> nat \<Rightarrow> jsmn_parser \<Rightarrow> jsontok list option \<Rightarrow> leaf_out" where
  "jsmn_parse_string js len num p tokens =
     (let start = j_pos p
      in rbind (string_end js len (start + 1)) (\<lambda>r. case r of
           Inl e \<Rightarrow> Inr (e, p, tokens)
         | Inr i \<Rightarrow> leaf_finish JSMN_STRING (start + 1) i i num p tokens))"

section \<open>The main loop\<close>

text \<open>\<open>tokens[toksuper].size++\<close>, if there is such a token.\<close>

definition bump_size :: "int \<Rightarrow> jsontok list \<Rightarrow> jsontok list res" where
  "bump_size s toks =
     (if s = - 1 then Inr toks
      else if 0 \<le> s \<and> nat s < length toks
      then Inr (toks[nat s := (toks ! nat s)\<lparr>t_size := t_size (toks ! nat s) + 1\<rparr>])
      else Inl OutOfBounds)"

definition bump_tokens :: "int \<Rightarrow> jsontok list option \<Rightarrow> jsontok list option res" where
  "bump_tokens s tokens =
     (case tokens of None \<Rightarrow> Inr None | Some toks \<Rightarrow> rmap Some (bump_size s toks))"

definition is_open :: "jsontok \<Rightarrow> bool" where
  "is_open t \<longleftrightarrow> t_start t \<noteq> - 1 \<and> t_end t = - 1"

text \<open>
  The state of the loop: parser, array and count.  A turn ends with \<open>Some e\<close> when the function
  returns \<open>e\<close>.
\<close>

type_synonym jstate = "jsmn_parser \<times> jsontok list option \<times> int"
type_synonym jturn = "(int option \<times> jstate) res"

definition open_turn :: "nat \<Rightarrow> u8 \<Rightarrow> jstate \<Rightarrow> jturn" where
  "open_turn num ty s =
     (case s of (p, tokens, count) \<Rightarrow>
        (case tokens of
           None \<Rightarrow> Inr (None, p, tokens, count + 1)
         | Some toks \<Rightarrow>
             rbind (jsmn_alloc_token p toks num) (\<lambda>r.
               (case r of
                  None \<Rightarrow> Inr (Some JSMN_ERROR_NOMEM, p, tokens, count + 1)
                | Some (i, p1, toks1) \<Rightarrow>
                    rbind (bump_size (j_toksuper p1) toks1) (\<lambda>toks2.
                      let par = (if j_toksuper p1 \<noteq> - 1 then j_toksuper p1 else t_parent (toks2 ! i))
                      in Inr (None, p1\<lparr>j_toksuper := int (j_toknext p1) - 1\<rparr>,
                              Some (toks2[i := (toks2 ! i)\<lparr>t_parent := par, t_type := ty, t_start := int (j_pos p1)\<rparr>]),
                              count + 1))))))"

text \<open>
  The search of a closing bracket for its token, from token \<open>i\<close> up the parents: \<open>None\<close> inside
  is the return of \<open>JSMN_ERROR_INVAL\<close>, \<open>None\<close> outside a chain longer than the fuel.
\<close>

fun close_loop :: "nat \<Rightarrow> u8 \<Rightarrow> jsmn_parser \<Rightarrow> jsontok list \<Rightarrow> nat \<Rightarrow> (jsmn_parser \<times> jsontok list) option res option" where
  "close_loop 0 ty p toks i = None"
| "close_loop (Suc k) ty p toks i =
     (if length toks \<le> i then Some (Inl OutOfBounds)
      else let t = toks ! i
           in if is_open t
              then Some (Inr (if t_type t \<noteq> ty then None
                              else Some (p\<lparr>j_toksuper := t_parent t\<rparr>, toks[i := t\<lparr>t_end := int (j_pos p) + 1\<rparr>])))
              else if t_parent t = - 1 then Some (Inr (Some (p, toks)))
              else if t_parent t < 0 then Some (Inl OutOfBounds)
              else close_loop k ty p toks (nat (t_parent t)))"

definition close_turn :: "u8 \<Rightarrow> jstate \<Rightarrow> jturn option" where
  "close_turn ty s =
     (case s of (p, tokens, count) \<Rightarrow>
        (case tokens of
           None \<Rightarrow> Some (Inr (None, s))
         | Some toks \<Rightarrow>
             if j_toknext p < 1 then Some (Inr (Some JSMN_ERROR_INVAL, s))
             else map_option (rmap (\<lambda>r.
                    (case r of
                       None \<Rightarrow> (Some JSMN_ERROR_INVAL, s)
                     | Some (p', toks') \<Rightarrow> (None, p', Some toks', count))))
                  (close_loop (j_toknext p) ty p toks (j_toknext p - 1))))"

definition leaf_turn :: "leaf_out \<Rightarrow> int \<Rightarrow> jturn" where
  "leaf_turn r count =
     rbind r (\<lambda>(e, p, tokens).
       if e < 0 then Inr (Some e, p, tokens, count)
       else rmap (\<lambda>tokens'. (None, p, tokens', count + 1)) (bump_tokens (j_toksuper p) tokens))"

definition prim_first :: "char \<Rightarrow> bool" where
  "prim_first c \<longleftrightarrow> c = CHR ''-'' \<or> 48 \<le> code c \<and> code c \<le> 57 \<or> c \<in> {CHR ''t'', CHR ''f'', CHR ''n''}"

lemma prim_first_not_stop: "prim_first c \<Longrightarrow> \<not> prim_stop c"
  by (auto simp: prim_first_def prim_stop_def)

definition parse_turn :: "string \<Rightarrow> nat \<Rightarrow> nat \<Rightarrow> char \<Rightarrow> jstate \<Rightarrow> jturn option" where
  "parse_turn js len num c s =
     (case s of (p, tokens, count) \<Rightarrow>
        if c = CHR ''{'' then Some (open_turn num JSMN_OBJECT s)
        else if c = CHR ''['' then Some (open_turn num JSMN_ARRAY s)
        else if c = CHR ''}'' then close_turn JSMN_OBJECT s
        else if c = CHR '']'' then close_turn JSMN_ARRAY s
        else if c = CHR 0x22 then Some (leaf_turn (jsmn_parse_string js len num p tokens) count)
        else if c \<in> {CHR 0x09, CHR 0x0D, CHR 0x0A, CHR '':'', CHR '','', CHR '' ''} then Some (Inr (None, s))
        else if prim_first c
        then Some (leaf_turn (jsmn_parse_primitive js len num p tokens) count)
        else Some (Inr (Some JSMN_ERROR_INVAL, s)))"

lemma primitive_end_ge: "primitive_end js len i = Inr (Inr j) \<Longrightarrow> i \<le> j"
proof (induction js len i rule: primitive_end.induct)
  case (1 js len i)
  show ?case
  proof (cases "i < len")
    case True
    then obtain c where c: "js_at js i = Inr c" using "1.prems" primitive_end.simps [of js len i]
      by (cases "js_at js i") auto
    show ?thesis
      using "1.prems" True c "1.IH" [OF True c] primitive_end.simps [of js len i]
      by (cases "c = NUL"; cases "prim_stop c"; cases "prim_bad c") simp_all
  qed (use "1.prems" primitive_end.simps [of js len i] in simp)
qed

lemma primitive_end_first:
  assumes "primitive_end js len i = Inr (Inr j)" "js_at js i = Inr c" "\<not> prim_stop c"
  shows "i < j"
  using assms primitive_end_ge [of js len "i + 1" j] primitive_end.simps [of js len i]
  by (cases "i < len"; cases "c = NUL"; cases "prim_bad c") simp_all

text \<open>The ways a string can end, as one rule for every fact on it.\<close>

lemma string_end_induct [consumes 1, case_names part inval quote step]:
  assumes "string_end js len i = Inr r"
    and part: "\<And>i. P i (Inl JSMN_ERROR_PART)"
    and inval: "\<And>i. P i (Inl JSMN_ERROR_INVAL)"
    and quote: "\<And>i. i < len \<Longrightarrow> js_at js i = Inr (CHR 0x22) \<Longrightarrow> P i (Inr i)"
    and step: "\<And>i j r. i < j \<Longrightarrow> P j r \<Longrightarrow> P i r"
  shows "P i r"
  using assms(1)
proof (induction "len - i" arbitrary: i rule: less_induct)
  case less
  note unfold = string_end.simps [of js len i]
  have next_i: "P i r" if "i < len" "i < j" "string_end js len j = Inr r" for j
    using that less.hyps [of j] step [of i j r] by (meson diff_less_mono2)
  show ?case
  proof (cases "i < len")
    case True
    then obtain c where c: "js_at js i = Inr c" using less.prems unfold
      by (cases "js_at js i") auto
    consider "c = NUL" | "c = CHR 0x22" | "c = CHR 0x5C" | "c \<noteq> NUL" "c \<noteq> CHR 0x22" "c \<noteq> CHR 0x5C" by blast
    then show ?thesis
    proof cases
      case 3
      then obtain d where d: "js_at js (i + 1) = Inr d" using less.prems True c unfold
        by (cases "js_at js (i + 1)") auto
      consider "simple_escape d" | "\<not> simple_escape d" "d = CHR ''u''" | "\<not> simple_escape d" "d \<noteq> CHR ''u''"
        by blast
      then show ?thesis
      proof cases
        case 1
        then show ?thesis using less.prems True c d 3 unfold next_i [of "i + 2"] by simp
      next
        case 2
        then obtain h where h: "hex_end js 4 (i + 2) = Inr h"
          using less.prems True c d 3 unfold by (cases "hex_end js 4 (i + 2)") auto
        show ?thesis
        proof (cases h)
          case None
          then show ?thesis using less.prems True c d 3 2 h unfold inval by auto
        next
          case (Some k)
          then show ?thesis
            using less.prems True c d 3 2 h unfold next_i [of k] hex_end_ge [of js 4 "i + 2" k] by simp
        qed
      qed (use less.prems True c d 3 unfold inval in auto)
    qed (use less.prems True c unfold part quote next_i [of "i + 1"] in auto)
  qed (use less.prems unfold part in auto)
qed

lemma string_end_facts:
  assumes "string_end js len i = Inr r"
  shows "case r of Inl e \<Rightarrow> e \<in> {JSMN_ERROR_PART, JSMN_ERROR_INVAL}
                 | Inr j \<Rightarrow> i \<le> j \<and> j < len \<and> js_at js j = Inr (CHR 0x22)"
  using assms by (induction rule: string_end_induct) (auto split: sum.splits)

lemma primitive_end_error: "primitive_end js len i = Inr (Inl e) \<Longrightarrow> e \<in> {JSMN_ERROR_PART, JSMN_ERROR_INVAL}"
proof (induction js len i rule: primitive_end.induct)
  case (1 js len i)
  show ?case
    using "1.prems" "1.IH" primitive_end.simps [of js len i]
    by (cases "js_at js i") (auto split: if_splits)
qed

lemma alloc_pos: "jsmn_alloc_token p toks num = Inr (Some (i, p', toks')) \<Longrightarrow> j_pos p' = j_pos p"
  by (auto simp: jsmn_alloc_token_def split: if_splits)

lemma close_pos: "close_loop k ty p toks i = Some (Inr (Some (p', toks'))) \<Longrightarrow> j_pos p' = j_pos p"
  by (induction k arbitrary: i) (auto simp: Let_def split: if_splits)

lemma leaf_turn_pos:
  "leaf_turn r count = Inr (None, p', t', n') \<Longrightarrow> \<exists>e t. r = Inr (e, p', t) \<and> \<not> e < 0"
  by (auto simp: leaf_turn_def rbind_eq_Inr rmap_eq_Inr split: if_splits)

lemma errors_negative: "JSMN_ERROR_PART < 0" "JSMN_ERROR_INVAL < 0" "JSMN_ERROR_NOMEM < 0"
  by (simp_all add: JSMN_ERROR_PART_def JSMN_ERROR_INVAL_def JSMN_ERROR_NOMEM_def)

lemma leaf_finish_pos:
  "leaf_finish ty s i pos num p tokens = Inr (e, p', tokens') \<Longrightarrow> \<not> e < 0 \<Longrightarrow> j_pos p' = pos"
  by (auto simp: leaf_finish_def jsmn_alloc_token_def errors_negative split: option.splits if_splits)

lemma primitive_pos:
  assumes "jsmn_parse_primitive js len num p tokens = Inr (e, p', tokens')" "\<not> e < 0"
    and "js_at js (j_pos p) = Inr c" "\<not> prim_stop c"
  shows "j_pos p \<le> j_pos p'"
proof -
  from assms(1) obtain r where r: "primitive_end js len (j_pos p) = Inr r"
    by (auto simp: jsmn_parse_primitive_def Let_def)
  show ?thesis
  proof (cases r)
    case (Inl x)
    then show ?thesis using assms r primitive_end_error [of js len "j_pos p" x]
      by (auto simp: jsmn_parse_primitive_def Let_def errors_negative)
  next
    case (Inr i)
    then show ?thesis using assms r primitive_end_first [of js len "j_pos p" i c]
      by (auto simp: jsmn_parse_primitive_def Let_def dest!: leaf_finish_pos)
  qed
qed

lemma string_pos:
  assumes "jsmn_parse_string js len num p tokens = Inr (e, p', tokens')" "\<not> e < 0"
  shows "j_pos p < j_pos p'"
proof -
  from assms(1) obtain r where r: "string_end js len (j_pos p + 1) = Inr r"
    by (auto simp: jsmn_parse_string_def Let_def)
  show ?thesis
    using assms r string_end_facts [OF r]
    by (cases r) (auto simp: jsmn_parse_string_def Let_def errors_negative dest!: leaf_finish_pos)
qed

lemma open_pos: "open_turn num ty (p, t, n) = Inr (None, p', t', n') \<Longrightarrow> j_pos p' = j_pos p"
  by (auto simp: open_turn_def Let_def rbind_eq_Inr split: option.splits dest!: alloc_pos)

lemma close_turn_pos: "close_turn ty (p, t, n) = Some (Inr (None, p', t', n')) \<Longrightarrow> j_pos p' = j_pos p"
  by (auto simp: close_turn_def rmap_eq_Inr split: option.splits if_splits dest!: close_pos)

text \<open>The arms of the switch; which one is taken depends on the character alone.\<close>

lemma parse_turn_arms:
  obtains (opener) ty where "(c, ty) \<in> {(CHR ''{'', JSMN_OBJECT), (CHR ''['', JSMN_ARRAY)}"
    "\<And>num s. parse_turn js len num c s = Some (open_turn num ty s)"
  | (closer) ty where "(c, ty) \<in> {(CHR ''}'', JSMN_OBJECT), (CHR '']'', JSMN_ARRAY)}"
    "\<And>num s. parse_turn js len num c s = close_turn ty s"
  | (string) "c = CHR 0x22"
    "\<And>num p t n. parse_turn js len num c (p, t, n) = Some (leaf_turn (jsmn_parse_string js len num p t) n)"
  | (blank) "\<And>num s. parse_turn js len num c s = Some (Inr (None, s))"
  | (primitive) "prim_first c"
    "\<And>num p t n. parse_turn js len num c (p, t, n) = Some (leaf_turn (jsmn_parse_primitive js len num p t) n)"
  | (other) "\<And>num s. parse_turn js len num c s = Some (Inr (Some JSMN_ERROR_INVAL, s))"
proof -
  let ?blank = "c \<in> {CHR 0x09, CHR 0x0D, CHR 0x0A, CHR '':'', CHR '','', CHR '' ''}"
  have r: "parse_turn js len num c s =
      (if c = CHR ''{'' then Some (open_turn num JSMN_OBJECT s)
       else if c = CHR ''['' then Some (open_turn num JSMN_ARRAY s)
       else if c = CHR ''}'' then close_turn JSMN_OBJECT s
       else if c = CHR '']'' then close_turn JSMN_ARRAY s
       else if c = CHR 0x22 then Some (leaf_turn (jsmn_parse_string js len num (fst s) (fst (snd s))) (snd (snd s)))
       else if ?blank then Some (Inr (None, s))
       else if prim_first c
       then Some (leaf_turn (jsmn_parse_primitive js len num (fst s) (fst (snd s))) (snd (snd s)))
       else Some (Inr (Some JSMN_ERROR_INVAL, s)))" for num s
    unfolding parse_turn_def by (cases s) (simp only: prod.case fst_conv snd_conv)
  consider "c = CHR ''{''" | "c = CHR ''[''" | "c = CHR ''}''" | "c = CHR '']''" | "c = CHR 0x22"
    | "c \<noteq> CHR ''{''" "c \<noteq> CHR ''[''" "c \<noteq> CHR ''}''" "c \<noteq> CHR '']''" "c \<noteq> CHR 0x22"
    by metis
  then show thesis
  proof cases
    case 1 then show thesis using r opener [of JSMN_OBJECT] by simp
  next
    case 2 then show thesis using r opener [of JSMN_ARRAY] by simp
  next
    case 3 then show thesis using r closer [of JSMN_OBJECT] by simp
  next
    case 4 then show thesis using r closer [of JSMN_ARRAY] by simp
  next
    case 5 then show thesis using r string by simp
  next
    case 6
    note r = r [unfolded if_not_P [OF 6(1)] if_not_P [OF 6(2)] if_not_P [OF 6(3)] if_not_P [OF 6(4)] if_not_P [OF 6(5)]]
    show thesis
    proof (cases ?blank)
      case True
      then show thesis using r [unfolded if_P [OF True]] blank by simp
    next
      case False
      note r = r [unfolded if_not_P [OF False]]
      show thesis by (cases "prim_first c") (use r primitive other in simp_all)
    qed
  qed
qed

lemma parse_turn_pos:
  assumes "parse_turn js len num c (p, t, n) = Some (Inr (None, p', t', n'))"
    and "js_at js (j_pos p) = Inr c"
  shows "j_pos p \<le> j_pos p'"
proof (cases rule: parse_turn_arms [where c = c and js = js and len = len])
  case (opener ty)
  then show ?thesis using assms(1) by (auto dest: open_pos)
next
  case (closer ty)
  then show ?thesis using assms(1) by (auto dest: close_turn_pos)
next
  case string
  then show ?thesis using assms(1) by (auto dest!: leaf_turn_pos dest: string_pos intro: less_imp_le)
next
  case primitive
  then show ?thesis
    using assms(1) by (auto dest!: leaf_turn_pos dest: primitive_pos [OF _ _ assms(2) prim_first_not_stop])
qed (use assms in simp_all)

function parse_loop :: "string \<Rightarrow> nat \<Rightarrow> nat \<Rightarrow> jstate \<Rightarrow> jturn option" where
  "parse_loop js len num (p, tokens, count) =
     (if len \<le> j_pos p then Some (Inr (None, p, tokens, count))
      else (case js_at js (j_pos p) of
        Inl e \<Rightarrow> Some (Inl e)
      | Inr c \<Rightarrow>
          if c = NUL then Some (Inr (None, p, tokens, count))
          else (case parse_turn js len num c (p, tokens, count) of
            None \<Rightarrow> None
          | Some (Inl e) \<Rightarrow> Some (Inl e)
          | Some (Inr (Some e, s)) \<Rightarrow> Some (Inr (Some e, s))
          | Some (Inr (None, p', tokens', count')) \<Rightarrow>
              parse_loop js len num (p'\<lparr>j_pos := j_pos p' + 1\<rparr>, tokens', count'))))"
  by pat_completeness auto
termination
  by (relation "measure (\<lambda>(js, len, num, p, t, n). len - j_pos p)") (auto dest!: parse_turn_pos)

declare parse_loop.simps [simp del]

text \<open>The whole call: an array in which a token is still open is a part of a text.\<close>

definition jsmn_parse ::
  "string \<Rightarrow> nat \<Rightarrow> nat \<Rightarrow> jsmn_parser \<Rightarrow> jsontok list option \<Rightarrow> (int \<times> jsmn_parser \<times> jsontok list option) res option" where
  "jsmn_parse js len num p tokens =
     map_option (\<lambda>r. rbind r (\<lambda>(e, p', tokens', count).
       case e of
         Some err \<Rightarrow> Inr (err, p', tokens')
       | None \<Rightarrow>
           (case tokens' of
              None \<Rightarrow> if j_toknext p' = 0 then Inr (count, p', None) else Inl NullDeref
            | Some toks \<Rightarrow>
                if length toks < j_toknext p' then Inl OutOfBounds
                else if \<exists>t \<in> set (take (j_toknext p') toks). is_open t
                then Inr (JSMN_ERROR_PART, p', tokens')
                else Inr (count, p', tokens'))))
       (parse_loop js len num (p, tokens, 0))"

end
