(* ===== verification/Json_Access.thy ===== *)
theory Json_Access
  imports Jsmn
begin

text \<open>
  The reading side of \<open>src/thirdpartylib/JingDong/jsmn/json_wrappers.c\<close>: a text is parsed by the
  tokenizer of \<open>jsmn.c\<close>, and its values are found by walking the array of tokens.

  A pointer to a token is its index; stepping behind the array is the fault \<open>OutOfBounds\<close>.  A
  function that fills a variable of its caller returns the value it writes, \<open>None\<close> when it
  writes nothing.  \<open>CONFIG_JSON_FLOAT\<close> is not set, so the readers of floats are their
  stubs.  \<open>unsigned long\<close> has 32 bits, \<open>unsigned long long\<close> 64.
\<close>

section \<open>Data\<close>

definition WM_SUCCESS :: int where "WM_SUCCESS = 0"
definition WM_FAIL :: int where "WM_FAIL = 1"
definition WM_E_JSON_FAIL :: int where "WM_E_JSON_FAIL = 1001"
definition WM_E_JSON_NOMEM :: int where "WM_E_JSON_NOMEM = 1002"
definition WM_E_JSON_INVAL :: int where "WM_E_JSON_INVAL = 1003"
definition WM_E_JSON_INCOMPLETE :: int where "WM_E_JSON_INCOMPLETE = 1004"
definition WM_E_JSON_INVALID_JOBJ :: int where "WM_E_JSON_INVALID_JOBJ = 1005"
definition WM_E_JSON_NOT_FOUND :: int where "WM_E_JSON_NOT_FOUND = 1006"
definition WM_E_JSON_INVALID_TYPE :: int where "WM_E_JSON_INVALID_TYPE = 1007"
definition WM_E_JSON_INVALID_INDEX :: int where "WM_E_JSON_INVALID_INDEX = 1008"
definition WM_E_JSON_INVALID_JARRAY :: int where "WM_E_JSON_INVALID_JARRAY = 1009"

text \<open>\<open>parser\<close>, \<open>js\<close>, \<open>tokens\<close>, \<open>cur\<close> and \<open>num_tokens\<close>; a NULL pointer is \<open>None\<close>.\<close>

record json_parser_t =
  a_parser :: jsmn_parser
  a_js :: "string option"
  a_tokens :: "jsontok list"
  a_cur :: "nat option"
  a_num :: int

datatype parse_state = KEY | FOUND | SKIP

definition tok_at :: "jsontok list \<Rightarrow> nat \<Rightarrow> jsontok res" where
  "tok_at toks i = (if i < length toks then Inr (toks ! i) else Inl OutOfBounds)"

section \<open>Comparing and skipping\<close>

text \<open>\<open>strncmp(p, s, n) == 0\<close>.\<close>

fun strncmp_eq :: "string \<Rightarrow> string \<Rightarrow> nat \<Rightarrow> bool" where
  "strncmp_eq p s 0 = True"
| "strncmp_eq p s (Suc n) = (peek p = peek s \<and> (peek p = NUL \<or> strncmp_eq (tl p) (tl s) n))"

definition json_token_streq :: "string \<Rightarrow> jsontok \<Rightarrow> string \<Rightarrow> bool res" where
  "json_token_streq js t s =
     (if t_start t < 0 \<or> int (length js) < t_start t then Inl OutOfBounds
      else let n = nat ((t_end t - t_start t) mod 2 ^ 32)
           in Inr (strncmp_eq (drop (nat (t_start t)) js) s n \<and> length s = n))"

text \<open>
  The loop of \<open>skip_to_last\<close>: \<open>cnt\<close> elements are stepped over from \<open>t\<close>, each with everything
  inside it.  The inner call never goes back, so \<open>max u (t + 1)\<close> is \<open>u\<close>; it makes the termination
  plain, and \<open>skip_loop_eq\<close> is the equation of the code.
\<close>

function skip_loop :: "jsontok list \<Rightarrow> nat \<Rightarrow> nat \<Rightarrow> nat res" where
  "skip_loop toks cnt t =
     (if cnt = 0 then Inr t
      else if length toks \<le> t + 1 then Inl OutOfBounds
      else if t_size (toks ! (t + 1)) \<noteq> 0
      then rbind (skip_loop toks (unat (t_size (toks ! (t + 1)))) (t + 1))
             (\<lambda>u. skip_loop toks (cnt - 1) (max u (t + 1)))
      else skip_loop toks (cnt - 1) (t + 1))"
  by pat_completeness auto
termination by (relation "measure (\<lambda>(toks, cnt, t). length toks - t)") auto

declare skip_loop.simps [simp del]

lemma skip_loop_ge: "skip_loop toks cnt t = Inr u \<Longrightarrow> t \<le> u"
proof (induction toks cnt t arbitrary: u rule: skip_loop.induct)
  case (1 toks cnt t)
  note unfold = skip_loop.simps [of toks cnt t]
  consider "cnt = 0 \<or> length toks \<le> t + 1"
    | "cnt \<noteq> 0" "\<not> length toks \<le> t + 1" "t_size (toks ! (t + 1)) \<noteq> 0"
    | "cnt \<noteq> 0" "\<not> length toks \<le> t + 1" "\<not> t_size (toks ! (t + 1)) \<noteq> 0" by blast
  then show ?case
  proof cases
    case 1
    then show ?thesis using "1.prems" unfold by (cases "cnt = 0") simp_all
  next
    case 2
    then obtain v where v: "skip_loop toks (unat (t_size (toks ! (t + 1)))) (t + 1) = Inr v"
        "skip_loop toks (cnt - 1) (max v (t + 1)) = Inr u"
      using "1.prems" unfold by auto
    show ?thesis using "1.IH"(2) [OF 2 v] by simp
  next
    case 3
    then have "skip_loop toks (cnt - 1) (t + 1) = Inr u" using "1.prems" unfold by simp
    then show ?thesis using "1.IH"(3) [OF 3] by fastforce
  qed
qed

lemma skip_loop_eq:
  "skip_loop toks cnt t =
     (if cnt = 0 then Inr t
      else if length toks \<le> t + 1 then Inl OutOfBounds
      else if t_size (toks ! (t + 1)) \<noteq> 0
      then rbind (skip_loop toks (unat (t_size (toks ! (t + 1)))) (t + 1)) (skip_loop toks (cnt - 1))
      else skip_loop toks (cnt - 1) (t + 1))"
proof -
  have "rbind (skip_loop toks k (t + 1)) (\<lambda>u. skip_loop toks (cnt - 1) (max u (t + 1))) =
      rbind (skip_loop toks k (t + 1)) (skip_loop toks (cnt - 1))" for k
    by (rule rbind_cong [OF refl]) (simp add: max_absorb1 skip_loop_ge)
  then show ?thesis by (subst skip_loop.simps) simp
qed

definition skip_to_last :: "jsontok list \<Rightarrow> nat \<Rightarrow> nat res" where
  "skip_to_last toks i =
     rbind (tok_at toks i) (\<lambda>t. if t_size t = 0 then Inr i else skip_loop toks (unat (t_size t)) i)"

text \<open>An element that is an array or object is skipped to its end; any other is its own end.\<close>

definition skip_element :: "jsontok list \<Rightarrow> jsontok \<Rightarrow> nat \<Rightarrow> nat res" where
  "skip_element toks e i =
     (if t_type e = JSMN_ARRAY \<or> t_type e = JSMN_OBJECT then skip_to_last toks i else Inr i)"

section \<open>Values of tokens\<close>

definition json_str_to_bool :: "string \<Rightarrow> jsontok \<Rightarrow> (int \<times> int option) res" where
  "json_str_to_bool js t =
     (if t_type t \<noteq> JSMN_PRIMITIVE then Inr (- WM_E_JSON_INVALID_TYPE, None)
      else rbind (json_token_streq js t ''true'') (\<lambda>a.
           rbind (if a then Inr True else json_token_streq js t ''1'') (\<lambda>yes.
           if yes then Inr (WM_SUCCESS, Some 1)
           else rbind (json_token_streq js t ''false'') (\<lambda>b.
                rbind (if b then Inr True else json_token_streq js t ''0'') (\<lambda>no.
                if no then Inr (WM_SUCCESS, Some 0) else Inr (- WM_E_JSON_INVALID_TYPE, None))))))"

text \<open>
  \<open>strtoul\<close> and \<open>strtoull\<close> with base 0: blanks, a sign, \<open>0x\<close> or \<open>0\<close> for the base, digits.  The
  result is the value in \<open>w\<close> bits and the number of characters read; a value that does not fit
  is the largest one.
\<close>

definition is_space :: "char \<Rightarrow> bool" where
  "is_space c \<longleftrightarrow> code c = 32 \<or> 9 \<le> code c \<and> code c \<le> 13"

definition alnum_value :: "char \<Rightarrow> nat option" where
  "alnum_value c =
     (if 48 \<le> code c \<and> code c \<le> 57 then Some (code c - 48)
      else if 65 \<le> code c \<and> code c \<le> 90 then Some (code c - 55)
      else if 97 \<le> code c \<and> code c \<le> 122 then Some (code c - 87)
      else None)"

definition base_digit :: "nat \<Rightarrow> char \<Rightarrow> bool" where
  "base_digit b c \<longleftrightarrow> (case alnum_value c of None \<Rightarrow> False | Some d \<Rightarrow> d < b)"

definition digits_value :: "nat \<Rightarrow> string \<Rightarrow> nat" where
  "digits_value b ds = foldl (\<lambda>n c. n * b + the (alnum_value c)) 0 ds"

definition base_and_prefix :: "string \<Rightarrow> nat \<times> nat" where
  "base_and_prefix p =
     (if peek p = CHR ''0''
      then if peek (tl p) \<in> {CHR ''x'', CHR ''X''} \<and> base_digit 16 (peek (tl (tl p))) then (16, 2) else (8, 0)
      else (10, 0))"

definition strtoul :: "nat \<Rightarrow> string \<Rightarrow> nat \<times> nat" where
  "strtoul w s =
     (let blanks = length (takeWhile is_space s);
          p = drop blanks s;
          neg = (peek p = CHR ''-'');
          sign = (if peek p \<in> {CHR ''-'', CHR ''+''} then 1 else 0);
          q = drop sign p;
          (b, hd) = base_and_prefix q;
          ds = takeWhile (base_digit b) (drop hd q);
          v = digits_value b ds
      in if ds = [] then (0, 0)
         else (if 2 ^ w \<le> v then 2 ^ w - 1 else if neg then (2 ^ w - v) mod 2 ^ w else v,
               blanks + sign + hd + length ds))"

definition to_signed :: "nat \<Rightarrow> nat \<Rightarrow> int" where
  "to_signed w v = (if v < 2 ^ (w - 1) then int v else int v - 2 ^ w)"

definition number_of :: "nat \<Rightarrow> nat \<Rightarrow> string \<Rightarrow> jsontok \<Rightarrow> (int \<times> int option) res" where
  "number_of w out js t =
     (if t_type t \<noteq> JSMN_PRIMITIVE then Inr (- WM_E_JSON_INVALID_TYPE, None)
      else if t_start t < 0 \<or> int (length js) < t_start t then Inl OutOfBounds
      else let (v, n) = strtoul w (drop (nat (t_start t)) js)
           in if t_start t + int n = t_end t then Inr (WM_SUCCESS, Some (to_signed out (v mod 2 ^ out)))
              else Inr (- WM_E_JSON_INVALID_TYPE, None))"

definition json_str_to_int :: "string \<Rightarrow> jsontok \<Rightarrow> (int \<times> int option) res" where
  "json_str_to_int js t = number_of 32 32 js t"

definition json_str_to_int64 :: "string \<Rightarrow> jsontok \<Rightarrow> (int \<times> int option) res" where
  "json_str_to_int64 js t = number_of 64 64 js t"

text \<open>\<open>strncpy\<close> fills up with NULs what the source does not have.\<close>

definition strncpy_bytes :: "string \<Rightarrow> nat \<Rightarrow> string" where
  "strncpy_bytes s n = take n (s @ replicate n NUL)"

definition json_str_to_str :: "string \<Rightarrow> jsontok \<Rightarrow> string \<Rightarrow> int \<Rightarrow> (int \<times> string) res" where
  "json_str_to_str js t buf maxlen =
     (let n = t_end t - t_start t
      in if t_type t \<noteq> JSMN_STRING then Inr (- WM_E_JSON_INVALID_TYPE, buf)
         else if maxlen \<le> n then Inr (- WM_E_JSON_NOMEM, buf)
         else if t_start t < 0 \<or> int (length js) < t_start t then Inl OutOfBounds
         else if n < 0 \<or> int (length buf) \<le> n then Inl BufferOverflow
         else Inr (WM_SUCCESS, strncpy_bytes (drop (nat (t_start t)) js) (nat n) @ NUL # drop (nat n + 1) buf))"

section \<open>Searching an object\<close>

text \<open>The return value and \<open>*val_t\<close>.\<close>

type_synonym found = "int \<times> nat option"

fun get_loop :: "string \<Rightarrow> jsontok list \<Rightarrow> nat \<Rightarrow> string \<Rightarrow> parse_state \<Rightarrow> nat \<Rightarrow> nat \<Rightarrow> found res" where
  "get_loop js toks cur key st 0 t = Inr (- WM_E_JSON_NOT_FOUND, None)"
| "get_loop js toks cur key st (Suc n) t =
     rbind (tok_at toks (t + 1)) (\<lambda>e.
       if t_end (toks ! cur) < t_end e then Inr (- WM_E_JSON_FAIL, None)
       else (case st of
         KEY \<Rightarrow>
           if t_type e \<noteq> JSMN_STRING then Inr (- WM_E_JSON_FAIL, None)
           else rbind (json_token_streq js e key) (\<lambda>b.
                get_loop js toks cur key (if b then FOUND else SKIP) n (t + 1))
       | SKIP \<Rightarrow>
           rbind (skip_element toks e (t + 1)) (get_loop js toks cur key KEY n)
       | FOUND \<Rightarrow> Inr (WM_SUCCESS, Some (t + 1))))"

definition the_cur :: "json_parser_t \<Rightarrow> (nat \<times> jsontok) res" where
  "the_cur j = rbind (deref (a_cur j)) (\<lambda>i. rmap (Pair i) (tok_at (a_tokens j) i))"

definition json_get_value :: "json_parser_t \<Rightarrow> string \<Rightarrow> found res" where
  "json_get_value j key =
     rbind (the_cur j) (\<lambda>(cur, t).
       let num = unat (t_size t)
       in if num = 0 \<or> num mod 2 \<noteq> 0 then Inr (- WM_E_JSON_FAIL, None)
          else if t_type t \<noteq> JSMN_OBJECT then Inr (- WM_E_JSON_INVALID_JOBJ, None)
          else rbind (deref (a_js j)) (\<lambda>js. get_loop js (a_tokens j) cur key KEY num cur))"

text \<open>
  Every reader finds its token first.  \<open>with_token\<close> is the beginning they share: an error of the
  search is returned as it is, with \<open>d\<close> for the value.
\<close>

definition with_token :: "json_parser_t \<Rightarrow> found res \<Rightarrow> 'a \<Rightarrow> (string \<Rightarrow> nat \<Rightarrow> jsontok \<Rightarrow> (int \<times> 'a) res) \<Rightarrow> (int \<times> 'a) res" where
  "with_token j r d f =
     rbind r (\<lambda>(ret, v).
       if ret \<noteq> WM_SUCCESS then Inr (ret, d)
       else rbind (deref v) (\<lambda>i. rbind (tok_at (a_tokens j) i) (\<lambda>t. rbind (deref (a_js j)) (\<lambda>js. f js i t))))"

definition json_get_val_bool :: "json_parser_t \<Rightarrow> string \<Rightarrow> (int \<times> int option) res" where
  "json_get_val_bool j key = with_token j (json_get_value j key) None (\<lambda>js i t. json_str_to_bool js t)"

definition json_get_val_int :: "json_parser_t \<Rightarrow> string \<Rightarrow> (int \<times> int option) res" where
  "json_get_val_int j key = with_token j (json_get_value j key) None (\<lambda>js i t. json_str_to_int js t)"

definition json_get_val_int64 :: "json_parser_t \<Rightarrow> string \<Rightarrow> (int \<times> int option) res" where
  "json_get_val_int64 j key = with_token j (json_get_value j key) None (\<lambda>js i t. json_str_to_int64 js t)"

definition json_get_val_float :: "json_parser_t \<Rightarrow> string \<Rightarrow> int" where
  "json_get_val_float j key = - WM_E_JSON_FAIL"

definition json_get_val_str :: "json_parser_t \<Rightarrow> string \<Rightarrow> string \<Rightarrow> int \<Rightarrow> (int \<times> string) res" where
  "json_get_val_str j key buf maxlen =
     with_token j (json_get_value j key) buf (\<lambda>js i t. json_str_to_str js t buf maxlen)"

definition str_len_of :: "jsontok \<Rightarrow> (int \<times> int option) res" where
  "str_len_of t =
     (if t_type t \<noteq> JSMN_STRING then Inr (- WM_E_JSON_INVALID_TYPE, None)
      else Inr (WM_SUCCESS, Some (t_end t - t_start t)))"

definition json_get_val_str_len :: "json_parser_t \<Rightarrow> string \<Rightarrow> (int \<times> int option) res" where
  "json_get_val_str_len j key = with_token j (json_get_value j key) None (\<lambda>js i t. str_len_of t)"

text \<open>Narrowing the search to an object, and to an array with its number of elements.\<close>

definition enter_object :: "json_parser_t \<Rightarrow> nat \<Rightarrow> jsontok \<Rightarrow> (int \<times> json_parser_t) res" where
  "enter_object j i t =
     (if t_type t \<noteq> JSMN_OBJECT then Inr (- WM_E_JSON_INVALID_TYPE, j)
      else if unat (t_size t) mod 2 \<noteq> 0 then Inr (- WM_E_JSON_INVALID_JOBJ, j)
      else Inr (WM_SUCCESS, j\<lparr>a_cur := Some i\<rparr>))"

definition enter_array :: "json_parser_t \<Rightarrow> nat \<Rightarrow> jsontok \<Rightarrow> (int \<times> json_parser_t \<times> int option) res" where
  "enter_array j i t =
     (if t_type t \<noteq> JSMN_ARRAY then Inr (- WM_E_JSON_INVALID_TYPE, j, None)
      else Inr (WM_SUCCESS, j\<lparr>a_cur := Some i\<rparr>, Some (int (unat (t_size t)))))"

definition json_get_composite_object :: "json_parser_t \<Rightarrow> string \<Rightarrow> (int \<times> json_parser_t) res" where
  "json_get_composite_object j key = with_token j (json_get_value j key) j (\<lambda>js i t. enter_object j i t)"

definition json_get_array_object :: "json_parser_t \<Rightarrow> string \<Rightarrow> (int \<times> json_parser_t \<times> int option) res" where
  "json_get_array_object j key = with_token j (json_get_value j key) (j, None) (\<lambda>js i t. enter_array j i t)"

definition json_release_composite_object :: "json_parser_t \<Rightarrow> (int \<times> json_parser_t) res" where
  "json_release_composite_object j =
     rmap (\<lambda>(i, t). if t_parent t < 0 then (- WM_E_JSON_FAIL, j)
                    else (WM_SUCCESS, j\<lparr>a_cur := Some (nat (t_parent t))\<rparr>))
       (the_cur j)"

definition json_release_array_object :: "json_parser_t \<Rightarrow> (int \<times> json_parser_t) res" where
  "json_release_array_object j = json_release_composite_object j"

section \<open>Searching an array\<close>

definition json_array_get_num_elements :: "json_parser_t \<Rightarrow> int res" where
  "json_array_get_num_elements j =
     rmap (\<lambda>(i, t). if t_type t \<noteq> JSMN_ARRAY then - WM_FAIL else int (unat (t_size t))) (the_cur j)"

fun index_loop :: "jsontok list \<Rightarrow> nat \<Rightarrow> nat \<Rightarrow> nat \<Rightarrow> found res" where
  "index_loop toks cur 0 t = Inr (WM_SUCCESS, Some t)"
| "index_loop toks cur (Suc n) t =
     rbind (tok_at toks t) (\<lambda>e.
       if t_end (toks ! cur) < t_end e then Inr (- WM_E_JSON_FAIL, None)
       else rbind (skip_element toks e t) (\<lambda>u. index_loop toks cur n (u + 1)))"

definition json_get_array_index :: "json_parser_t \<Rightarrow> u16 \<Rightarrow> found res" where
  "json_get_array_index j index =
     rbind (the_cur j) (\<lambda>(cur, t).
       if t_type t \<noteq> JSMN_ARRAY then Inr (- WM_E_JSON_INVALID_JARRAY, None)
       else if unat (t_size t) \<le> unat index then Inr (- WM_E_JSON_INVALID_INDEX, None)
       else index_loop (a_tokens j) cur (unat index) (cur + 1))"

definition json_array_get_bool :: "json_parser_t \<Rightarrow> u16 \<Rightarrow> (int \<times> int option) res" where
  "json_array_get_bool j k = with_token j (json_get_array_index j k) None (\<lambda>js i t. json_str_to_bool js t)"

definition json_array_get_int :: "json_parser_t \<Rightarrow> u16 \<Rightarrow> (int \<times> int option) res" where
  "json_array_get_int j k = with_token j (json_get_array_index j k) None (\<lambda>js i t. json_str_to_int js t)"

definition json_array_get_int64 :: "json_parser_t \<Rightarrow> u16 \<Rightarrow> (int \<times> int option) res" where
  "json_array_get_int64 j k = with_token j (json_get_array_index j k) None (\<lambda>js i t. json_str_to_int64 js t)"

definition json_array_get_float :: "json_parser_t \<Rightarrow> u16 \<Rightarrow> int" where
  "json_array_get_float j k = - WM_E_JSON_FAIL"

definition json_array_get_str :: "json_parser_t \<Rightarrow> u16 \<Rightarrow> string \<Rightarrow> int \<Rightarrow> (int \<times> string) res" where
  "json_array_get_str j k buf maxlen =
     with_token j (json_get_array_index j k) buf (\<lambda>js i t. json_str_to_str js t buf maxlen)"

definition json_array_get_str_len :: "json_parser_t \<Rightarrow> u16 \<Rightarrow> (int \<times> int option) res" where
  "json_array_get_str_len j k = with_token j (json_get_array_index j k) None (\<lambda>js i t. str_len_of t)"

definition json_array_get_composite_object :: "json_parser_t \<Rightarrow> u16 \<Rightarrow> (int \<times> json_parser_t) res" where
  "json_array_get_composite_object j k =
     with_token j (json_get_array_index j k) j (\<lambda>js i t. enter_object j i t)"

definition json_array_release_composite_object :: "json_parser_t \<Rightarrow> (int \<times> json_parser_t) res" where
  "json_array_release_composite_object j = json_release_composite_object j"

definition json_array_get_array_object :: "json_parser_t \<Rightarrow> u16 \<Rightarrow> (int \<times> json_parser_t \<times> int option) res" where
  "json_array_get_array_object j k =
     with_token j (json_get_array_index j k) (j, None) (\<lambda>js i t. enter_array j i t)"

definition json_array_release_array_object :: "json_parser_t \<Rightarrow> (int \<times> json_parser_t) res" where
  "json_array_release_array_object j = json_release_composite_object j"

section \<open>Parsing\<close>

definition json_obj_init :: "jsontok list \<Rightarrow> int \<Rightarrow> json_parser_t" where
  "json_obj_init toks num =
     \<lparr>a_parser = jsmn_init, a_js = None, a_tokens = toks, a_cur = None, a_num = num\<rparr>"

definition json_is_object :: "json_parser_t \<Rightarrow> bool res" where
  "json_is_object j = rmap (\<lambda>(i, t). t_type t = JSMN_OBJECT) (the_cur j)"

definition json_is_array :: "json_parser_t \<Rightarrow> bool res" where
  "json_is_array j = rmap (\<lambda>(i, t). t_type t = JSMN_ARRAY) (the_cur j)"

definition init_error :: "int \<Rightarrow> int" where
  "init_error e =
     (if e = JSMN_ERROR_NOMEM then - WM_E_JSON_NOMEM
      else if e = JSMN_ERROR_INVAL then - WM_E_JSON_INVAL
      else if e = JSMN_ERROR_PART then - WM_E_JSON_INCOMPLETE
      else - WM_E_JSON_FAIL)"

text \<open>The check of the first token looks at the array even when no token was found.\<close>

definition init_check :: "json_parser_t \<Rightarrow> (int \<times> json_parser_t) res" where
  "init_check j =
     rmap (\<lambda>t. if t_type t = JSMN_OBJECT \<and> unat (t_size t) mod 2 = 0 then (WM_SUCCESS, j)
               else if t_type t = JSMN_ARRAY then (WM_SUCCESS, j)
               else (- WM_E_JSON_INVALID_JOBJ, j))
       (tok_at (a_tokens j) 0)"

definition json_init :: "jsontok list \<Rightarrow> nat \<Rightarrow> string \<Rightarrow> nat \<Rightarrow> (int \<times> json_parser_t) res option" where
  "json_init toks num js len =
     (let j = json_obj_init toks (int num)
      in map_option (\<lambda>r. rbind r (\<lambda>(n, p, tokens).
           rbind (deref tokens) (\<lambda>toks'.
             let j' = j\<lparr>a_parser := p, a_tokens := toks'\<rparr>
             in if n < 0 then Inr (init_error n, j')
                else init_check (j'\<lparr>a_js := Some js, a_num := n, a_cur := Some 0\<rparr>))))
         (jsmn_parse js len num (a_parser j) (Some toks)))"

end
