(* ===== verification/Jsmn_Props.thy ===== *)
theory Jsmn_Props
  imports Jsmn
begin

text \<open>
  What the tokenizer of \<open>jsmn.c\<close> promises.  The specification is a stack: the indices of the
  tokens that are still open, the innermost first.  The code keeps no stack; it finds the token a
  bracket closes by following the parent links from the last token.  The invariant below ties the
  two together; from it follow that no call leaves the text or the array, and what the array holds
  when a call succeeds.
\<close>

section \<open>Specification\<close>

definition skel :: "jsontok \<Rightarrow> u8 \<times> int \<times> int \<times> int" where
  "skel t = (t_type t, t_start t, t_end t, t_parent t)"

definition opens :: "char \<Rightarrow> u8 \<Rightarrow> bool" where
  "opens c ty \<longleftrightarrow> (c, ty) \<in> {(CHR ''{'', JSMN_OBJECT), (CHR ''['', JSMN_ARRAY)}"

definition closes :: "char \<Rightarrow> u8 \<Rightarrow> bool" where
  "closes c ty \<longleftrightarrow> (c, ty) \<in> {(CHR ''}'', JSMN_OBJECT), (CHR '']'', JSMN_ARRAY)}"

text \<open>What the interval of a finished token is in the text.\<close>

definition spans :: "string \<Rightarrow> u8 \<Rightarrow> nat \<Rightarrow> nat \<Rightarrow> bool" where
  "spans js ty s e \<longleftrightarrow>
     s < e \<and> opens (js ! s) ty \<and> closes (js ! (e - 1)) ty \<or>
     ty = JSMN_STRING \<and> 0 < s \<and> js ! (s - 1) = CHR 0x22 \<and> e < length js \<and> js ! e = CHR 0x22 \<or>
     ty = JSMN_PRIMITIVE \<and> s < e \<and> prim_first (js ! s)"

definition tok_ok :: "string \<Rightarrow> nat \<Rightarrow> jsontok \<Rightarrow> bool" where
  "tok_ok js q t \<longleftrightarrow>
     0 \<le> t_start t \<and> t_start t < int q \<and>
     (if t_end t = - 1 then opens (js ! nat (t_start t)) (t_type t)
      else t_start t \<le> t_end t \<and> t_end t \<le> int q \<and> spans js (t_type t) (nat (t_start t)) (nat (t_end t)))"

text \<open>A token lies inside its parent, which is an earlier container.\<close>

definition nested :: "jsontok list \<Rightarrow> nat \<Rightarrow> bool" where
  "nested toks i \<longleftrightarrow>
     t_parent (toks ! i) = - 1 \<or>
     (\<exists>j < i. t_parent (toks ! i) = int j \<and> t_type (toks ! j) \<in> {JSMN_OBJECT, JSMN_ARRAY} \<and>
        (is_open (toks ! j) \<or> \<not> is_open (toks ! i) \<and> t_end (toks ! i) < t_end (toks ! j)))"

definition kids :: "jsontok list \<Rightarrow> nat \<Rightarrow> nat \<Rightarrow> nat" where
  "kids toks n i = card {j. j < n \<and> t_parent (toks ! j) = int i}"

definition innermost :: "nat list \<Rightarrow> int" where
  "innermost st = (case st of [] \<Rightarrow> - 1 | i # _ \<Rightarrow> int i)"

fun chain :: "jsontok list \<Rightarrow> nat list \<Rightarrow> bool" where
  "chain toks [] = True"
| "chain toks (i # st) = (t_parent (toks ! i) = innermost st \<and> (\<forall>j \<in> set st. j < i) \<and> chain toks st)"

text \<open>Where the search up the parent links from a token ends.\<close>

inductive seek :: "jsontok list \<Rightarrow> nat \<Rightarrow> int \<Rightarrow> bool" for toks where
  seek_open: "is_open (toks ! i) \<Longrightarrow> seek toks i (int i)"
| seek_end: "\<not> is_open (toks ! i) \<Longrightarrow> t_parent (toks ! i) = - 1 \<Longrightarrow> seek toks i (- 1)"
| seek_up: "\<not> is_open (toks ! i) \<Longrightarrow> t_parent (toks ! i) = int j \<Longrightarrow> j < i \<Longrightarrow> seek toks j r \<Longrightarrow> seek toks i r"

text \<open>The token itself, its parent and so on, and \<open>- 1\<close> above the outermost.\<close>

inductive up :: "jsontok list \<Rightarrow> nat \<Rightarrow> int \<Rightarrow> bool" for toks where
  up_refl: "up toks i (int i)"
| up_end: "t_parent (toks ! i) = - 1 \<Longrightarrow> up toks i (- 1)"
| up_step: "t_parent (toks ! i) = int j \<Longrightarrow> j < i \<Longrightarrow> up toks j r \<Longrightarrow> up toks i r"

definition jinv :: "string \<Rightarrow> nat \<Rightarrow> nat list \<Rightarrow> nat \<Rightarrow> jsontok list \<Rightarrow> bool" where
  "jinv js q st n toks \<longleftrightarrow>
     n \<le> length toks \<and> q \<le> length js \<and>
     (\<forall>i < n. tok_ok js q (toks ! i)) \<and>
     (\<forall>j < n. \<forall>i < j. t_start (toks ! i) < t_start (toks ! j)) \<and>
     (\<forall>i < n. nested toks i) \<and>
     (\<forall>i < n. t_size (toks ! i) = of_nat (kids toks n i)) \<and>
     (\<forall>i. Suc i < n \<longrightarrow> up toks i (t_parent (toks ! Suc i))) \<and>
     chain toks st \<and> set st = {i. i < n \<and> is_open (toks ! i)} \<and>
     (0 < n \<longrightarrow> seek toks (n - 1) (innermost st))"

section \<open>What depends on what\<close>

lemma skel_eqD:
  assumes "skel t = skel u"
  shows "t_type t = t_type u" "t_start t = t_start u" "t_end t = t_end u" "t_parent t = t_parent u"
    "is_open t = is_open u" "tok_ok js q t = tok_ok js q u"
  using assms by (simp_all add: skel_def is_open_def tok_ok_def)

lemma nested_cong: "(\<And>k. k \<le> i \<Longrightarrow> skel (t ! k) = skel (u ! k)) \<Longrightarrow> nested t i = nested u i"
proof -
  assume A: "\<And>k. k \<le> i \<Longrightarrow> skel (t ! k) = skel (u ! k)"
  note same = skel_eqD(1,3,4,5) [OF A]
  show ?thesis unfolding nested_def
    by (intro arg_cong2 [where f = "(\<or>)"] ex_cong1 conj_cong refl) (simp_all add: same)
qed

lemma chain_cong: "(\<And>k. k \<in> set st \<Longrightarrow> skel (t ! k) = skel (u ! k)) \<Longrightarrow> chain t st = chain u st"
proof (induction st)
  case (Cons i st)
  then show ?case using skel_eqD(4) [OF Cons.prems [of i]] by simp
qed simp

lemma kids_cong: "(\<And>k. k < n \<Longrightarrow> skel (t ! k) = skel (u ! k)) \<Longrightarrow> kids t n i = kids u n i"
proof -
  assume A: "\<And>k. k < n \<Longrightarrow> skel (t ! k) = skel (u ! k)"
  have "{j. j < n \<and> t_parent (t ! j) = int i} = {j. j < n \<and> t_parent (u ! j) = int i}"
    using skel_eqD(4) [OF A] by auto
  then show ?thesis by (simp add: kids_def)
qed

lemma seek_cong:
  assumes "seek t i r" "\<And>k. k \<le> i \<Longrightarrow> skel (t ! k) = skel (u ! k)"
  shows "seek u i r"
  using assms
proof induction
  case (seek_open i)
  then show ?case using skel_eqD [OF seek_open.prems [of i]] by (auto intro: seek.seek_open)
next
  case (seek_end i)
  then show ?case using skel_eqD [OF seek_end.prems [of i]] by (auto intro: seek.seek_end)
next
  case (seek_up i j r)
  then show ?case using skel_eqD [OF seek_up.prems [of i]] by (auto intro: seek.seek_up)
qed

lemma seek_up_links: "seek toks i r \<Longrightarrow> up toks i r"
  by (induction rule: seek.induct) (auto intro: up.intros)

lemma up_cong:
  assumes "up t i r" "\<And>k. k \<le> i \<Longrightarrow> t_parent (t ! k) = t_parent (u ! k)"
  shows "up u i r"
  using assms
proof induction
  case (up_step i j r)
  then show ?case using up_step.prems [of i] by (auto intro: up.up_step)
next
  case (up_end i)
  then show ?case using up_end.prems [of i] by (auto intro: up.up_end)
qed (rule up.up_refl)

lemma kids_Suc:
  "kids toks (Suc n) i = kids toks n i + (if t_parent (toks ! n) = int i then 1 else 0)"
proof -
  have "{j. j < Suc n \<and> t_parent (toks ! j) = int i} =
      {j. j < n \<and> t_parent (toks ! j) = int i} \<union> (if t_parent (toks ! n) = int i then {n} else {})"
    by (auto simp: less_Suc_eq)
  then show ?thesis by (simp add: kids_def)
qed

lemma tok_ok_mono: "tok_ok js q t \<Longrightarrow> q \<le> q' \<Longrightarrow> tok_ok js q' t"
  by (auto simp: tok_ok_def split: if_splits)

lemma jinv_advance: "jinv js q st n toks \<Longrightarrow> q \<le> q' \<Longrightarrow> q' \<le> length js \<Longrightarrow> jinv js q' st n toks"
  unfolding jinv_def by (meson tok_ok_mono)

section \<open>The steps on the stack\<close>

lemma innermost_cases:
  assumes "jinv js q st n toks"
  obtains "innermost st = - 1" "st = []"
  | j where "innermost st = int j" "j < n" "is_open (toks ! j)"
proof (cases st)
  case (Cons j st')
  then have "j \<in> {i. i < n \<and> is_open (toks ! i)}" using assms by (auto simp: jinv_def)
  then show thesis using that(2) [of j] Cons by (simp add: innermost_def)
qed (use that in \<open>simp add: innermost_def\<close>)

text \<open>A new token is taken, and its parent gets a child more.\<close>

definition pushed :: "jsontok list \<Rightarrow> nat \<Rightarrow> int \<Rightarrow> jsontok \<Rightarrow> jsontok list \<Rightarrow> bool" where
  "pushed toks n s t u \<longleftrightarrow>
     length u = length toks \<and> u ! n = t \<and>
     (\<forall>k < n. skel (u ! k) = skel (toks ! k) \<and>
        t_size (u ! k) = t_size (toks ! k) + (if s = int k then 1 else 0))"

lemma pushed_bump:
  assumes "jinv js q st n toks" "n < length toks"
  obtains u where "bump_size (innermost st) (toks[n := t]) = Inr u" "pushed toks n (innermost st) t u"
  using assms(1)
proof (cases rule: innermost_cases)
  case 1
  then show ?thesis using assms(2) that [of "toks[n := t]"] by (simp add: bump_size_def pushed_def)
next
  case (2 j)
  then show ?thesis
    using assms(2) that [of "toks[n := t, j := (toks ! j)\<lparr>t_size := t_size (toks ! j) + 1\<rparr>]"]
    by (simp add: bump_size_def pushed_def nth_list_update skel_def)
qed

lemma open_is_container: "tok_ok js q t \<Longrightarrow> is_open t \<Longrightarrow> t_type t \<in> {JSMN_OBJECT, JSMN_ARRAY}"
  by (auto simp: tok_ok_def is_open_def opens_def)

lemma pushedD:
  assumes "pushed toks n s t u"
  shows "u ! n = t" "length u = length toks"
    and "k < n \<Longrightarrow> skel (u ! k) = skel (toks ! k)"
    and "k < n \<Longrightarrow> t_size (u ! k) = t_size (toks ! k) + (if s = int k then 1 else 0)"
  using assms by (simp_all add: pushed_def)

lemma push_tokens:
  assumes inv: "jinv js q st n toks" and push: "pushed toks n s t u"
    and t: "tok_ok js q' t" "int q \<le> t_start t" "q \<le> q'" and j: "j < Suc n"
  shows "tok_ok js q' (u ! j)" and "\<And>i. i < j \<Longrightarrow> t_start (u ! i) < t_start (u ! j)"
proof -
  note same = skel_eqD [OF pushedD(3) [OF push]]
  have old: "tok_ok js q (toks ! i)" if "i < n" for i using inv that by (simp add: jinv_def)
  show "tok_ok js q' (u ! j)"
    using j old [of j] t tok_ok_mono [of js q "toks ! j" q'] same(6) pushedD(1) [OF push]
    by (cases "j = n") simp_all
  show "t_start (u ! i) < t_start (u ! j)" if "i < j" for i
  proof (cases "j = n")
    case True
    then show ?thesis using that t(2) old [of i] same(2) [of i] pushedD(1) [OF push] by (simp add: tok_ok_def)
  qed (use that j inv same(2) in \<open>simp add: jinv_def\<close>)
qed

lemma push_nested:
  assumes inv: "jinv js q st n toks" and push: "pushed toks n (innermost st) t u"
    and t: "t_parent t = innermost st" and i: "i < Suc n"
  shows "nested u i"
proof (cases "i = n")
  case True
  note same = skel_eqD [OF pushedD(3) [OF push]]
  show ?thesis using inv
  proof (cases rule: innermost_cases)
    case (2 j)
    then have "tok_ok js q (toks ! j)" using inv by (simp add: jinv_def)
    then have "t_type (u ! j) \<in> {JSMN_OBJECT, JSMN_ARRAY}" "is_open (u ! j)"
      using 2 same(1,5) [of j] open_is_container by auto
    then show ?thesis using 2 True t pushedD(1) [OF push] by (auto simp: nested_def)
  qed (use True t pushedD(1) [OF push] in \<open>simp add: nested_def\<close>)
next
  case False
  then have "nested toks i" using inv i by (simp add: jinv_def)
  then show ?thesis using nested_cong [of i u toks] pushedD(3) [OF push] False i by simp
qed

lemma no_early_kids:
  assumes "jinv js q st n toks"
  shows "kids toks n n = 0"
proof -
  have "t_parent (toks ! j) \<noteq> int n" if "j < n" for j
  proof -
    have "nested toks j" using assms that by (simp add: jinv_def)
    then show ?thesis using that by (auto simp: nested_def)
  qed
  then show ?thesis by (auto simp: kids_def)
qed

lemma push_size:
  assumes inv: "jinv js q st n toks" and push: "pushed toks n (innermost st) t u"
    and t: "t_parent t = innermost st" "t_size t = 0" and i: "i < Suc n"
  shows "t_size (u ! i) = of_nat (kids u (Suc n) i)"
proof -
  have kids: "kids u (Suc n) i = kids toks n i + (if innermost st = int i then 1 else 0)" for i
    unfolding kids_Suc pushedD(1) [OF push] t(1)
    using kids_cong [of n u toks i, OF pushedD(3) [OF push]] by simp
  have ne: "innermost st \<noteq> int n" using inv by (cases rule: innermost_cases) auto
  show ?thesis
  proof (cases "i = n")
    case True
    then show ?thesis using ne t(2) kids no_early_kids [OF inv] pushedD(1) [OF push] by simp
  next
    case False
    then have "i < n" using i by simp
    then have "t_size (toks ! i) = of_nat (kids toks n i)" using inv by (simp add: jinv_def)
    then show ?thesis using pushedD(4) [OF push \<open>i < n\<close>] kids by simp
  qed
qed

lemma push_up:
  assumes inv: "jinv js q st n toks" and push: "pushed toks n (innermost st) t u"
    and t: "t_parent t = innermost st" and i: "Suc i < Suc n"
  shows "up u i (t_parent (u ! Suc i))"
proof -
  have parent: "t_parent (toks ! k) = t_parent (u ! k)" if "k < n" for k
    using skel_eqD(4) [OF pushedD(3) [OF push that]] by simp
  have "up toks i (t_parent (u ! Suc i))"
  proof (cases "Suc i = n")
    case True
    then have "seek toks i (innermost st)" using inv by (auto simp: jinv_def)
    then show ?thesis using True t pushedD(1) [OF push] seek_up_links by simp
  next
    case False
    then have "Suc i < n" using i by simp
    then have "up toks i (t_parent (toks ! Suc i))" using inv by (simp add: jinv_def)
    then show ?thesis using parent [OF \<open>Suc i < n\<close>] by simp
  qed
  then show ?thesis using up_cong [of toks i _ u] parent i by simp
qed

lemma push_stack:
  assumes inv: "jinv js q st n toks" and push: "pushed toks n (innermost st) t u"
    and t: "t_parent t = innermost st"
  defines "st' \<equiv> if is_open t then n # st else st"
  shows "chain u st'" "set st' = {i. i < Suc n \<and> is_open (u ! i)}" "seek u n (innermost st')"
proof -
  note same = skel_eqD [OF pushedD(3) [OF push]]
  note un = pushedD(1) [OF push]
  have st: "set st = {i. i < n \<and> is_open (toks ! i)}" "chain toks st" using inv by (simp_all add: jinv_def)
  then have "chain u st" using chain_cong [of st u toks] pushedD(3) [OF push] by auto
  then show "chain u st'" using st t un by (auto simp: st'_def)
  show "set st' = {i. i < Suc n \<and> is_open (u ! i)}"
    using st(1) same(5) un by (auto simp: less_Suc_eq st'_def)
  show "seek u n (innermost st')"
  proof (cases "is_open t")
    case True
    then show ?thesis using seek.seek_open [of u n] un by (simp add: innermost_def st'_def)
  next
    case closed: False
    show ?thesis using inv
    proof (cases rule: innermost_cases)
      case (2 j)
      then have "seek u j (int j)" using same(5) [of j] by (simp add: seek.seek_open)
      then show ?thesis using seek.seek_up [of u n j] closed 2 un t by (simp add: st'_def)
    qed (use closed un t in \<open>simp add: seek.seek_end st'_def\<close>)
  qed
qed

lemma jinv_push:
  assumes "jinv js q st n toks" "pushed toks n (innermost st) t u" "n < length toks"
    and "t_parent t = innermost st" "t_size t = 0" "tok_ok js q' t" "int q \<le> t_start t"
    and "q \<le> q'" "q' \<le> length js"
  shows "jinv js q' (if is_open t then n # st else st) (Suc n) u"
  unfolding jinv_def
  using assms(3,9) pushedD(2) [OF assms(2)] push_tokens [OF assms(1,2,6,7,8)]
    push_nested [OF assms(1,2,4)] push_size [OF assms(1,2,4,5)] push_up [OF assms(1,2,4)] push_stack [OF assms(1,2,4)]
  by simp

text \<open>A closing bracket finishes the innermost open token.\<close>

lemma end_update [simp]:
  assumes "i < length toks"
  shows "t_type (toks[i := (toks ! i)\<lparr>t_end := e\<rparr>] ! k) = t_type (toks ! k)"
    and "t_size (toks[i := (toks ! i)\<lparr>t_end := e\<rparr>] ! k) = t_size (toks ! k)"
    and "t_start (toks[i := (toks ! i)\<lparr>t_end := e\<rparr>] ! k) = t_start (toks ! k)"
    and "t_parent (toks[i := (toks ! i)\<lparr>t_end := e\<rparr>] ! k) = t_parent (toks ! k)"
  using assms by (simp_all add: nth_list_update)

lemma seek_close:
  assumes "seek toks k r" "r = int i" "k < length toks"
    and "is_open (toks ! i)" "t_parent (toks ! i) = s" "s = - 1 \<or> (\<exists>j < i. s = int j \<and> is_open (toks ! j))"
    and "e \<noteq> - 1"
  shows "seek (toks[i := (toks ! i)\<lparr>t_end := e\<rparr>]) k s"
  using assms
proof (induction rule: seek.induct)
  case (seek_open k)
  let ?u = "toks[i := (toks ! i)\<lparr>t_end := e\<rparr>]"
  have k: "k = i" using seek_open by simp
  then have i: "\<not> is_open (?u ! i)" "t_parent (?u ! i) = s" using seek_open by (simp_all add: is_open_def)
  from seek_open.prems(5) show ?case
  proof (elim disjE exE conjE)
    fix j assume j: "j < i" "s = int j" "is_open (toks ! j)"
    then have "seek ?u j (int j)" by (simp add: seek.seek_open)
    then show ?thesis using seek.seek_up [of ?u i j] i j k by simp
  qed (use i k in \<open>simp add: seek.seek_end\<close>)
next
  case (seek_up k j r)
  then have "k \<noteq> i" by auto
  then show ?case using seek_up seek.seek_up [of "toks[i := (toks ! i)\<lparr>t_end := e\<rparr>]" k j] by simp
qed simp

lemma close_nested:
  assumes inv: "jinv js q (i # st) n toks" and k: "k < n"
  shows "nested (toks[i := (toks ! i)\<lparr>t_end := int q + 1\<rparr>]) k"
proof -
  let ?u = "toks[i := (toks ! i)\<lparr>t_end := int q + 1\<rparr>]"
  have i: "i < n" "is_open (toks ! i)" "n \<le> length toks" and st: "\<forall>j \<in> set st. j < i"
    and op: "set (i # st) = {k. k < n \<and> is_open (toks ! k)}"
    using inv by (auto simp: jinv_def)
  have nest: "nested toks k" and ok: "tok_ok js q (toks ! k)" using inv k by (simp_all add: jinv_def)
  show ?thesis
  proof (cases "t_parent (toks ! k) = - 1")
    case True
    then show ?thesis using i by (simp add: nested_def)
  next
    case False
    then obtain j where j: "j < k" "t_parent (toks ! k) = int j" "t_type (toks ! j) \<in> {JSMN_OBJECT, JSMN_ARRAY}"
      and w: "is_open (toks ! j) \<or> \<not> is_open (toks ! k) \<and> t_end (toks ! k) < t_end (toks ! j)"
      using nest unfolding nested_def by blast
    have "is_open (?u ! j) \<or> \<not> is_open (?u ! k) \<and> t_end (?u ! k) < t_end (?u ! j)"
    proof (cases "j = i")
      case True
      then have "k \<notin> set (i # st)" using st j(1) by auto
      then have closed: "\<not> is_open (toks ! k)" using op k by auto
      then have "t_end (toks ! k) \<le> int q" using ok by (auto simp: tok_ok_def is_open_def split: if_splits)
      then show ?thesis using True j(1) closed i by simp
    next
      case False
      then show ?thesis using w i j(1) by (cases "k = i") auto
    qed
    then show ?thesis unfolding nested_def using j i by (intro disjI2 exI [of _ j]) simp
  qed
qed

lemma tok_ok_close:
  assumes "tok_ok js q t" "is_open t" "closes (js ! q) (t_type t)"
  shows "tok_ok js (q + 1) (t\<lparr>t_end := int q + 1\<rparr>)"
proof -
  have t: "0 \<le> t_start t" "t_start t < int q" "opens (js ! nat (t_start t)) (t_type t)"
    using assms(1,2) by (simp_all add: tok_ok_def is_open_def)
  then have "spans js (t_type t) (nat (t_start t)) (q + 1)"
    unfolding spans_def using assms(3) by (intro disjI1) (simp add: nat_less_iff)
  then show ?thesis using t by (simp add: tok_ok_def nat_add_distrib)
qed

lemma jinv_close:
  assumes inv: "jinv js q (i # st) n toks" and q: "q < length js" "closes (js ! q) (t_type (toks ! i))"
  shows "jinv js (q + 1) st n (toks[i := (toks ! i)\<lparr>t_end := int q + 1\<rparr>])"
    and "t_parent (toks ! i) = innermost st"
proof -
  let ?u = "toks[i := (toks ! i)\<lparr>t_end := int q + 1\<rparr>]"
  have i: "i < n" "is_open (toks ! i)" "n \<le> length toks" and st: "\<forall>j \<in> set st. j < i" "chain toks st"
    and op: "set (i # st) = {k. k < n \<and> is_open (toks ! k)}"
    using inv by (auto simp: jinv_def)
  show par: "t_parent (toks ! i) = innermost st" using inv by (simp add: jinv_def)
  have ok: "tok_ok js (q + 1) (?u ! k)" if "k < n" for k
  proof -
    have "tok_ok js q (toks ! k)" using inv that by (simp add: jinv_def)
    then show ?thesis
      using i q tok_ok_mono [of js q "toks ! k" "q + 1"] tok_ok_close [of js q "toks ! i"] by (cases "k = i") simp_all
  qed
  have kids: "kids ?u n k = kids toks n k" for k using i by (simp add: kids_def)
  have up: "up ?u k (t_parent (?u ! Suc k))" if "Suc k < n" for k
    using that i inv up_cong [of toks k _ ?u] by (simp add: jinv_def)
  have "chain ?u st" using chain_cong [of st ?u toks] st by (metis less_irrefl nth_list_update_neq)
  moreover have "set st = {k. k < n \<and> is_open (?u ! k)}"
  proof -
    have "is_open (?u ! k) \<longleftrightarrow> k \<noteq> i \<and> is_open (toks ! k)" if "k < n" for k
      using that i by (cases "k = i") (simp_all add: is_open_def)
    then have "{k. k < n \<and> is_open (?u ! k)} = set (i # st) - {i}" using op by auto
    then show ?thesis using st(1) by auto
  qed
  moreover have "seek ?u (n - 1) (innermost st)" if "0 < n"
  proof (rule seek_close [where r = "innermost (i # st)"])
    show "innermost st = - 1 \<or> (\<exists>j < i. innermost st = int j \<and> is_open (toks ! j))"
      using op st(1) by (cases st) (auto simp: innermost_def)
  qed (use inv i par that in \<open>simp_all add: jinv_def innermost_def\<close>)
  ultimately show "jinv js (q + 1) st n ?u"
    using inv i q(1) ok kids up close_nested [OF inv] by (simp add: jinv_def)
qed

section \<open>The turns of the loop\<close>

lemma js_at_simps [simp]:
  "i < length js \<Longrightarrow> js_at js i = Inr (js ! i)" "js_at js (length js) = Inr NUL"
  by (simp_all add: js_at_def)

lemma js_at_inside: "js_at js i = Inr c \<Longrightarrow> c \<noteq> NUL \<Longrightarrow> i < length js \<and> js ! i = c"
  by (auto simp: js_at_def split: if_splits)

lemma js_at_total: "i \<le> length js \<Longrightarrow> \<exists>c. js_at js i = Inr c \<and> (c \<noteq> NUL \<longrightarrow> i < length js)"
  by (auto simp: js_at_def)

text \<open>No leaf leaves the text.\<close>

lemma primitive_end_total: "i \<le> length js \<Longrightarrow> \<exists>r. primitive_end js len i = Inr r"
proof (induction js len i rule: primitive_end.induct)
  case (1 js len i)
  obtain c where c: "js_at js i = Inr c" "c \<noteq> NUL \<longrightarrow> i < length js" using js_at_total 1(2) by blast
  show ?case using c 1(1) [OF _ c(1)] by (subst primitive_end.simps) auto
qed

lemma primitive_end_inside:
  "primitive_end js len i = Inr (Inr j) \<Longrightarrow> j < length js"
proof (induction js len i rule: primitive_end.induct)
  case (1 js len i)
  then obtain c where c: "js_at js i = Inr c"
    using primitive_end.simps [of js len i] by (cases "js_at js i") (auto split: if_splits)
  show ?case
    using 1(1) [OF _ c] 1(2) c js_at_inside [OF c] primitive_end.simps [of js len i]
    by (auto split: if_splits)
qed

lemma hex_end_total:
  "i \<le> length js \<Longrightarrow> \<exists>r. hex_end js n i = Inr r \<and> (\<forall>j. r = Some j \<longrightarrow> j \<le> length js)"
proof (induction n arbitrary: i)
  case (Suc n)
  obtain c where c: "js_at js i = Inr c" "c \<noteq> NUL \<longrightarrow> i < length js" using js_at_total Suc.prems by blast
  show ?case using c Suc.IH [of "i + 1"] Suc.prems by (cases "c = NUL"; cases "is_hexdig c") simp_all
qed simp

lemma string_end_total: "i \<le> length js \<Longrightarrow> \<exists>r. string_end js len i = Inr r"
proof (induction js len i rule: string_end.induct)
  case (1 js len i)
  obtain c where c: "js_at js i = Inr c" "c \<noteq> NUL \<longrightarrow> i < length js" using js_at_total "1.prems" by blast
  note unfold = string_end.simps [of js len i]
  consider "len \<le> i \<or> c = NUL \<or> c = CHR 0x22" | "i < len" "c \<noteq> NUL" "c = CHR 0x5C" "c \<noteq> CHR 0x22"
    | "i < len" "c \<noteq> NUL" "c \<noteq> CHR 0x22" "c \<noteq> CHR 0x5C" by force
  then show ?case
  proof cases
    case 2
    obtain d where d: "js_at js (i + 1) = Inr d" "d \<noteq> NUL \<longrightarrow> i + 1 < length js"
      using js_at_total [of "i + 1" js] c(2) 2(2) by auto
    consider "simple_escape d" | "\<not> simple_escape d" "d = CHR ''u''" | "\<not> simple_escape d" "d \<noteq> CHR ''u''" by blast
    then show ?thesis
    proof cases
      case 1
      then have "d \<noteq> NUL" by (auto simp: simple_escape_def)
      then show ?thesis using 1 "1.IH"(1) [OF 2(1) c(1) 2(2) 2(4) 2(3) d(1) 1] c d 2 unfold by simp
    next
      case u: 2
      then obtain r where r: "hex_end js 4 (i + 2) = Inr r" "\<forall>j. r = Some j \<longrightarrow> j \<le> length js"
        using hex_end_total [of "i + 2" js 4] d(2) by auto
      then show ?thesis
        using u "1.IH"(2) [OF 2(1) c(1) 2(2) 2(4) 2(3) d(1) u r(1)] c d 2 unfold by (cases r) simp_all
    qed (use c d 2 unfold in simp)
  next
    case 3
    then show ?thesis using "1.IH"(3) [OF 3(1) c(1) 3(2,3,4)] c unfold by simp
  qed (use c unfold in auto)
qed

text \<open>The state of the loop on an array of \<open>m\<close> tokens.\<close>

definition linv :: "string \<Rightarrow> nat \<Rightarrow> nat \<Rightarrow> nat list \<Rightarrow> jsmn_parser \<Rightarrow> jsontok list \<Rightarrow> int \<Rightarrow> bool" where
  "linv js num m st p toks count \<longleftrightarrow>
     jinv js (j_pos p) st (j_toknext p) toks \<and> j_toksuper p = innermost st \<and>
     j_toknext p \<le> num \<and> num \<le> m \<and> length toks = m \<and> count = int (j_toknext p)"

definition turn_ok :: "string \<Rightarrow> nat \<Rightarrow> nat \<Rightarrow> jturn \<Rightarrow> bool" where
  "turn_ok js num m r \<longleftrightarrow>
     (\<exists>p toks count st. r = Inr (None, p, Some toks, count) \<and>
        linv js num m st (p\<lparr>j_pos := j_pos p + 1\<rparr>) toks count) \<or>
     (\<exists>e p toks count. r = Inr (Some e, p, Some toks, count) \<and> length toks = m \<and>
        e \<in> {JSMN_ERROR_NOMEM, JSMN_ERROR_INVAL, JSMN_ERROR_PART})"

lemma turn_okI:
  "linv js num m st (p\<lparr>j_pos := j_pos p + 1\<rparr>) toks count \<Longrightarrow> turn_ok js num m (Inr (None, p, Some toks, count))"
  "length toks = m \<Longrightarrow> e \<in> {JSMN_ERROR_NOMEM, JSMN_ERROR_INVAL, JSMN_ERROR_PART} \<Longrightarrow>
     turn_ok js num m (Inr (Some e, p, Some toks, count))"
  by (auto simp: turn_ok_def)

lemma turn_blank:
  assumes "linv js num m st p toks count" "j_pos p < length js"
  shows "turn_ok js num m (Inr (None, p, Some toks, count))"
  using assms jinv_advance [of js "j_pos p" st _ toks "j_pos p + 1"]
  by (intro turn_okI(1) [of js num m st]) (simp add: linv_def)

lemma turn_push:
  assumes inv: "linv js num m st p toks count" and room: "j_toknext p < num"
    and t: "t_parent t = innermost st" "t_size t = 0" "tok_ok js (pos + 1) t" "int (j_pos p) \<le> t_start t"
    and pos: "j_pos p \<le> pos" "pos < length js"
  obtains u where "bump_size (j_toksuper p) (toks[j_toknext p := t]) = Inr u"
    "u ! j_toknext p = t" "length u = m"
    "linv js num m (if is_open t then j_toknext p # st else st)
       (p\<lparr>j_toknext := j_toknext p + 1,
          j_toksuper := if is_open t then int (j_toknext p) else j_toksuper p, j_pos := pos + 1\<rparr>) u (count + 1)"
proof -
  have j: "jinv js (j_pos p) st (j_toknext p) toks" and n: "j_toknext p < length toks"
    using inv room by (simp_all add: linv_def)
  obtain u where u: "bump_size (innermost st) (toks[j_toknext p := t]) = Inr u"
    "pushed toks (j_toknext p) (innermost st) t u" using pushed_bump [OF j n] .
  have "jinv js (pos + 1) (if is_open t then j_toknext p # st else st) (Suc (j_toknext p)) u"
    using jinv_push [OF j u(2) n t(1,2,3,4)] pos by simp
  then show thesis
    using that [of u] u inv room pushedD(1,2) [OF u(2)] by (simp add: linv_def innermost_def)
qed

text \<open>All five fields of a token are set, whatever it held before.\<close>

lemma token_fields:
  fixes t :: jsontok
  shows "t\<lparr>t_type := ty, t_start := s, t_end := e, t_size := z, t_parent := r\<rparr> =
      \<lparr>t_type = ty, t_size = z, t_start = s, t_end = e, t_parent = r\<rparr>"
    and "t\<lparr>t_end := e, t_size := z, t_parent := r, t_type := ty, t_start := s\<rparr> =
      \<lparr>t_type = ty, t_size = z, t_start = s, t_end = e, t_parent = r\<rparr>"
  by (cases t; simp)+

lemma turn_leaf:
  assumes inv: "linv js num m st p toks count" and pos: "j_pos p \<le> pos" "pos < length js"
    and s: "j_pos p \<le> s" "s \<le> e" "s \<le> pos" "e \<le> pos + 1" "spans js ty s e"
  shows "turn_ok js num m (leaf_turn (leaf_finish ty s e pos num p (Some toks)) count)"
proof (cases "num \<le> j_toknext p")
  case True
  then show ?thesis
    using inv by (auto simp: leaf_finish_def jsmn_alloc_token_def leaf_turn_def errors_negative linv_def
        intro!: turn_okI(2))
next
  case False
  let ?n = "j_toknext p"
  let ?t = "\<lparr>t_type = ty, t_size = 0, t_start = int s, t_end = int e, t_parent = j_toksuper p\<rparr>"
  have n: "?n < length toks" "j_toksuper p = innermost st" using False inv by (auto simp: linv_def)
  have tok: "tok_ok js (pos + 1) ?t" using s by (simp add: tok_ok_def)
  have "p\<lparr>j_toknext := ?n + 1, j_toksuper := j_toksuper p, j_pos := pos + 1\<rparr> = p\<lparr>j_toknext := ?n + 1, j_pos := pos + 1\<rparr>"
    by (cases p) simp
  moreover obtain u where u: "bump_size (j_toksuper p) (toks[?n := ?t]) = Inr u"
    and "linv js num m st (p\<lparr>j_toknext := ?n + 1, j_toksuper := j_toksuper p, j_pos := pos + 1\<rparr>) u (count + 1)"
    using turn_push [OF inv _ _ _ tok _ pos] False n s(1) by (auto simp: is_open_def)
  ultimately have linv: "linv js num m st (p\<lparr>j_toknext := ?n + 1, j_pos := pos + 1\<rparr>) u (count + 1)" by simp
  have "leaf_turn (leaf_finish ty s e pos num p (Some toks)) count =
      Inr (None, p\<lparr>j_toknext := ?n + 1, j_pos := pos\<rparr>, Some u, count + 1)"
    using False n(1) u
    by (simp add: token_fields leaf_finish_def jsmn_alloc_token_def jsmn_fill_token_def leaf_turn_def bump_tokens_def)
  then show ?thesis using linv by (auto intro!: turn_okI(1))
qed

lemma turn_string:
  assumes inv: "linv js num m st p toks count" and c: "j_pos p < length js" "js ! j_pos p = CHR 0x22"
  shows "turn_ok js num m (leaf_turn (jsmn_parse_string js len num p (Some toks)) count)"
proof -
  obtain r where r: "string_end js len (j_pos p + 1) = Inr r"
    using string_end_total [of "j_pos p + 1" js len] c(1) by auto
  show ?thesis
  proof (cases r)
    case (Inl e)
    then show ?thesis
      using string_end_facts [OF r] r inv
      by (auto simp: jsmn_parse_string_def leaf_turn_def errors_negative linv_def intro!: turn_okI(2))
  next
    case (Inr i)
    have i: "j_pos p + 1 \<le> i" "i < length js" "js ! i = CHR 0x22"
      using string_end_facts [OF r] Inr js_at_inside [of js i "CHR 0x22"] by auto
    then have "turn_ok js num m (leaf_turn (leaf_finish JSMN_STRING (j_pos p + 1) i i num p (Some toks)) count)"
      using c by (intro turn_leaf [OF inv]) (auto simp: spans_def)
    then show ?thesis using r Inr by (simp add: jsmn_parse_string_def)
  qed
qed

lemma turn_primitive:
  assumes inv: "linv js num m st p toks count" and c: "j_pos p < length js" "prim_first (js ! j_pos p)"
  shows "turn_ok js num m (leaf_turn (jsmn_parse_primitive js len num p (Some toks)) count)"
proof -
  obtain r where r: "primitive_end js len (j_pos p) = Inr r"
    using primitive_end_total [of "j_pos p" js len] c(1) by auto
  show ?thesis
  proof (cases r)
    case (Inl e)
    then show ?thesis
      using primitive_end_error [of js len "j_pos p" e] r inv
      by (auto simp: jsmn_parse_primitive_def leaf_turn_def errors_negative linv_def intro!: turn_okI(2))
  next
    case (Inr i)
    have i: "j_pos p < i" "i < length js"
      using r Inr c primitive_end_inside [of js len "j_pos p" i] prim_first_not_stop
        primitive_end_first [of js len "j_pos p" i "js ! j_pos p"] by auto
    then have "turn_ok js num m (leaf_turn (leaf_finish JSMN_PRIMITIVE (j_pos p) i (i - 1) num p (Some toks)) count)"
      using c by (intro turn_leaf [OF inv]) (auto simp: spans_def)
    then show ?thesis using r Inr by (simp add: jsmn_parse_primitive_def)
  qed
qed

lemma turn_open:
  assumes inv: "linv js num m st p toks count" and c: "j_pos p < length js" "opens (js ! j_pos p) ty"
  shows "turn_ok js num m (open_turn num ty (p, Some toks, count))"
proof (cases "num \<le> j_toknext p")
  case True
  then show ?thesis
    using inv by (auto simp: open_turn_def jsmn_alloc_token_def linv_def intro!: turn_okI(2))
next
  case False
  let ?n = "j_toknext p"
  let ?fresh = "(toks ! ?n)\<lparr>t_start := - 1, t_end := - 1, t_size := 0, t_parent := - 1\<rparr>"
  let ?t = "\<lparr>t_type = ty, t_size = 0, t_start = int (j_pos p), t_end = - 1, t_parent = j_toksuper p\<rparr>"
  have n: "?n < length toks" "j_toksuper p = innermost st" using False inv by (auto simp: linv_def)
  have tok: "tok_ok js (j_pos p + 1) ?t" using c by (simp add: tok_ok_def)
  obtain u where u: "bump_size (j_toksuper p) (toks[?n := ?t]) = Inr u" "length u = m" "u ! ?n = ?t"
    and linv: "linv js num m (?n # st)
      (p\<lparr>j_toknext := ?n + 1, j_toksuper := int ?n, j_pos := j_pos p + 1\<rparr>) u (count + 1)"
    using turn_push [OF inv _ _ _ tok _ _ c(1)] False n by (auto simp: is_open_def)
  have sup: "j_toksuper p = - 1 \<or> 0 \<le> j_toksuper p \<and> nat (j_toksuper p) < ?n"
    using inv n(2) by (auto simp: linv_def elim: innermost_cases)
  then obtain v where v: "bump_size (j_toksuper p) (toks[?n := ?fresh]) = Inr v" "length v = m"
      "v ! ?n = ?fresh" "v[?n := ?t] = u"
    using u(1) n(1) inv by (auto simp: bump_size_def linv_def list_update_swap split: if_splits)
  have "open_turn num ty (p, Some toks, count) =
      Inr (None, p\<lparr>j_toknext := ?n + 1, j_toksuper := int ?n\<rparr>, Some u, count + 1)"
    using False n(1) v by (auto simp: token_fields open_turn_def jsmn_alloc_token_def)
  then show ?thesis using linv by (auto intro!: turn_okI(1))
qed

text \<open>The search of the code ends where \<open>seek\<close> does.\<close>

lemma close_loop_seek:
  assumes "seek toks i r" "i < k" "i < length toks"
  shows "close_loop k ty p toks i = Some (Inr (
    if r = - 1 then Some (p, toks)
    else let t = toks ! nat r
         in if t_type t \<noteq> ty then None
            else Some (p\<lparr>j_toksuper := t_parent t\<rparr>, toks[nat r := t\<lparr>t_end := int (j_pos p) + 1\<rparr>])))"
  using assms
proof (induction arbitrary: k)
  case (seek_open i)
  then show ?case by (cases k) (simp_all add: Let_def)
next
  case (seek_end i)
  then show ?case by (cases k) (simp_all add: Let_def)
next
  case (seek_up i j r)
  then show ?case by (cases k) (simp_all add: Let_def)
qed

lemma turn_close:
  assumes inv: "linv js num m st p toks count" and c: "j_pos p < length js" "closes (js ! j_pos p) ty"
  shows "\<exists>r. close_turn ty (p, Some toks, count) = Some r \<and> turn_ok js num m r"
proof (cases "j_toknext p < 1")
  case True
  then show ?thesis using inv by (auto simp: close_turn_def linv_def intro!: turn_okI(2))
next
  case False
  have j: "jinv js (j_pos p) st (j_toknext p) toks" using inv by (simp add: linv_def)
  have "seek toks (j_toknext p - 1) (innermost st)" "j_toknext p \<le> length toks"
    using j False by (simp_all add: jinv_def)
  then have loop: "close_loop (j_toknext p) ty p toks (j_toknext p - 1) = Some (Inr (
    if innermost st = - 1 then Some (p, toks)
    else let t = toks ! nat (innermost st)
         in if t_type t \<noteq> ty then None
            else Some (p\<lparr>j_toksuper := t_parent t\<rparr>,
                       toks[nat (innermost st) := t\<lparr>t_end := int (j_pos p) + 1\<rparr>])))"
    using False close_loop_seek by simp
  show ?thesis
  proof (cases st)
    case Nil
    then show ?thesis
      using loop False turn_blank [OF inv c(1)] by (simp add: close_turn_def innermost_def)
  next
    case (Cons i st')
    then have i: "innermost st = int i" by (simp add: innermost_def)
    show ?thesis
    proof (cases "t_type (toks ! i) = ty")
      case True
      have "jinv js (j_pos p + 1) st' (j_toknext p) (toks[i := (toks ! i)\<lparr>t_end := int (j_pos p) + 1\<rparr>])"
        and par: "t_parent (toks ! i) = innermost st'"
        using jinv_close [of js "j_pos p" i st' "j_toknext p" toks] j c Cons True by simp_all
      then have "linv js num m st' (p\<lparr>j_toksuper := innermost st', j_pos := j_pos p + 1\<rparr>)
          (toks[i := (toks ! i)\<lparr>t_end := int (j_pos p) + 1\<rparr>]) count"
        using inv by (simp add: linv_def)
      then show ?thesis using loop False True i par by (auto simp: close_turn_def intro!: turn_okI(1))
    next
      case wrong: False
      then show ?thesis using loop False i inv by (auto simp: close_turn_def linv_def intro!: turn_okI(2))
    qed
  qed
qed

lemma parse_turn_ok:
  assumes inv: "linv js num m st p toks count" and c: "j_pos p < length js"
  shows "\<exists>r. parse_turn js len num (js ! j_pos p) (p, Some toks, count) = Some r \<and> turn_ok js num m r"
proof (cases rule: parse_turn_arms [where c = "js ! j_pos p" and js = js and len = len])
  case (opener ty)
  then show ?thesis using turn_open [OF inv c, of ty] by (simp add: opens_def)
next
  case (closer ty)
  then show ?thesis using turn_close [OF inv c, of ty] by (simp add: closes_def)
next
  case string
  then show ?thesis using turn_string [OF inv c] by simp
next
  case blank
  then show ?thesis using turn_blank [OF inv c] by simp
next
  case primitive
  then show ?thesis using turn_primitive [OF inv c] by simp
next
  case other
  then show ?thesis using inv by (auto simp: linv_def intro!: turn_okI(2))
qed

section \<open>The whole call\<close>

definition loop_ok :: "string \<Rightarrow> nat \<Rightarrow> nat \<Rightarrow> jturn \<Rightarrow> bool" where
  "loop_ok js num m r \<longleftrightarrow>
     (\<exists>p toks count st. r = Inr (None, p, Some toks, count) \<and> linv js num m st p toks count) \<or>
     (\<exists>e p toks count. r = Inr (Some e, p, Some toks, count) \<and> length toks = m \<and>
        e \<in> {JSMN_ERROR_NOMEM, JSMN_ERROR_INVAL, JSMN_ERROR_PART})"

lemma parse_loop_ok:
  "linv js num m st p toks count \<Longrightarrow> \<exists>r. parse_loop js len num (p, Some toks, count) = Some r \<and> loop_ok js num m r"
proof (induction "len - j_pos p" arbitrary: p toks count st rule: less_induct)
  case less
  note unfold = parse_loop.simps [of js len num p "Some toks" count]
  have inside: "j_pos p \<le> length js" using less.prems by (simp add: linv_def jinv_def)
  obtain c where c: "js_at js (j_pos p) = Inr c" "c \<noteq> NUL \<longrightarrow> j_pos p < length js"
    using js_at_total [OF inside] by blast
  show ?case
  proof (cases "len \<le> j_pos p \<or> c = NUL")
    case True
    then have "parse_loop js len num (p, Some toks, count) = Some (Inr (None, p, Some toks, count))"
      unfolding unfold using c(1) by auto
    moreover have "loop_ok js num m (Inr (None, p, Some toks, count))"
      using less.prems by (auto simp: loop_ok_def)
    ultimately show ?thesis by blast
  next
    case False
    then have pos: "j_pos p < length js" "js ! j_pos p = c" using js_at_inside [OF c(1)] by simp_all
    obtain r where r: "parse_turn js len num c (p, Some toks, count) = Some r" "turn_ok js num m r"
      using parse_turn_ok [OF less.prems pos(1), of len] unfolding pos(2) by blast
    from r(2) show ?thesis unfolding turn_ok_def
    proof (elim disjE exE conjE)
      fix p' toks' count' st'
      assume r': "r = Inr (None, p', Some toks', count')"
        and inv': "linv js num m st' (p'\<lparr>j_pos := j_pos p' + 1\<rparr>) toks' count'"
      have "j_pos p \<le> j_pos p'" using parse_turn_pos [OF _ c(1)] r(1) r' by auto
      then have "len - j_pos (p'\<lparr>j_pos := j_pos p' + 1\<rparr>) < len - j_pos p" using False by auto
      from less.hyps [OF this inv'] obtain s where s: "parse_loop js len num (p'\<lparr>j_pos := j_pos p' + 1\<rparr>, Some toks', count') = Some s"
        and ok: "loop_ok js num m s"
        by blast
      have "parse_loop js len num (p, Some toks, count) = Some s"
        unfolding unfold using False c(1) r(1) r' s by simp
      then show ?thesis using ok by blast
    next
      fix e p' toks' count'
      assume r': "r = Inr (Some e, p', Some toks', count')" "length toks' = m"
        "e \<in> {JSMN_ERROR_NOMEM, JSMN_ERROR_INVAL, JSMN_ERROR_PART}"
      then have "loop_ok js num m r" unfolding loop_ok_def by blast
      moreover have "parse_loop js len num (p, Some toks, count) = Some r"
        unfolding unfold using False c(1) r(1) r'(1) by simp
      ultimately show ?thesis by blast
    qed
  qed
qed

lemma linv_init: "num \<le> m \<Longrightarrow> length toks = m \<Longrightarrow> linv js num m [] jsmn_init toks 0"
  by (simp add: linv_def jinv_def jsmn_init_def innermost_def)

text \<open>The contents of the array after a success.\<close>

definition tree_ok :: "string \<Rightarrow> nat \<Rightarrow> jsontok list \<Rightarrow> bool" where
  "tree_ok js n toks \<longleftrightarrow>
     (\<forall>i < n. 0 \<le> t_start (toks ! i) \<and> t_start (toks ! i) \<le> t_end (toks ! i) \<and>
        t_end (toks ! i) \<le> int (length js) \<and>
        spans js (t_type (toks ! i)) (nat (t_start (toks ! i))) (nat (t_end (toks ! i)))) \<and>
     (\<forall>j < n. \<forall>i < j. t_start (toks ! i) < t_start (toks ! j)) \<and>
     (\<forall>i < n. t_parent (toks ! i) = - 1 \<or>
        (\<exists>j < i. t_parent (toks ! i) = int j \<and> t_type (toks ! j) \<in> {JSMN_OBJECT, JSMN_ARRAY} \<and>
           t_end (toks ! i) < t_end (toks ! j))) \<and>
     (\<forall>i. Suc i < n \<longrightarrow> up toks i (t_parent (toks ! Suc i))) \<and>
     (\<forall>i < n. t_size (toks ! i) = of_nat (card {j. j < n \<and> t_parent (toks ! j) = int i}))"

lemma tree_okI:
  assumes "jinv js q st n toks" "\<forall>i < n. \<not> is_open (toks ! i)"
  shows "tree_ok js n toks"
proof -
  have q: "q \<le> length js" and ok: "\<forall>i < n. tok_ok js q (toks ! i)" and nest: "\<forall>i < n. nested toks i"
    using assms(1) by (simp_all add: jinv_def)
  have "0 \<le> t_start (toks ! i) \<and> t_start (toks ! i) \<le> t_end (toks ! i) \<and> t_end (toks ! i) \<le> int (length js) \<and>
      spans js (t_type (toks ! i)) (nat (t_start (toks ! i))) (nat (t_end (toks ! i)))" if "i < n" for i
  proof -
    have "tok_ok js q (toks ! i)" "\<not> is_open (toks ! i)" using ok assms(2) that by simp_all
    then show ?thesis using q by (auto simp: tok_ok_def is_open_def split: if_splits)
  qed
  moreover have "t_parent (toks ! i) = - 1 \<or>
        (\<exists>j < i. t_parent (toks ! i) = int j \<and> t_type (toks ! j) \<in> {JSMN_OBJECT, JSMN_ARRAY} \<and>
           t_end (toks ! i) < t_end (toks ! j))" if "i < n" for i
    using nest assms(2) that unfolding nested_def by (meson less_trans)
  ultimately show ?thesis using assms(1) by (simp add: tree_ok_def jinv_def kids_def)
qed

lemma jsmn_parse_outcome:
  assumes "num \<le> length toks" "length js < 2 ^ 15" "num < 2 ^ 15"
  shows "\<exists>r p' toks'. jsmn_parse js len num jsmn_init (Some toks) = Some (Inr (r, p', Some toks')) \<and>
    length toks' = length toks \<and>
    (if r < 0 then r \<in> {JSMN_ERROR_NOMEM, JSMN_ERROR_INVAL, JSMN_ERROR_PART}
     else r = int (j_toknext p') \<and> j_toknext p' \<le> num \<and> tree_ok js (j_toknext p') toks')"
proof -
  obtain s where s: "parse_loop js len num (jsmn_init, Some toks, 0) = Some s" "loop_ok js num (length toks) s"
    using parse_loop_ok [OF linv_init [OF assms(1) refl], of js len] by blast
  from s(2) show ?thesis unfolding loop_ok_def
  proof (elim disjE exE conjE)
    fix p u count st
    assume s': "s = Inr (None, p, Some u, count)" and inv: "linv js num (length toks) st p u count"
    have len: "j_toknext p \<le> length u" "length u = length toks" "count = int (j_toknext p)" "j_toknext p \<le> num"
      and j: "jinv js (j_pos p) st (j_toknext p) u"
      using inv by (simp_all add: linv_def)
    have all: "(\<exists>t \<in> set (take (j_toknext p) u). is_open t) \<longleftrightarrow> (\<exists>i < j_toknext p. is_open (u ! i))"
      using nth_image [OF len(1)] by (metis (no_types, lifting) atLeastLessThan_iff imageE imageI zero_le)
    show ?thesis
    proof (cases "\<exists>t \<in> set (take (j_toknext p) u). is_open t")
      case True
      then show ?thesis using s(1) s' len by (simp add: jsmn_parse_def errors_negative)
    next
      case False
      then have "tree_ok js (j_toknext p) u" using tree_okI [OF j] all by blast
      then show ?thesis using False s(1) s' len by (simp add: jsmn_parse_def)
    qed
  next
    fix e p u count
    assume "s = Inr (Some e, p, Some u, count)" "length u = length toks"
      "e \<in> {JSMN_ERROR_NOMEM, JSMN_ERROR_INVAL, JSMN_ERROR_PART}"
    then show ?thesis using s(1) errors_negative by (auto simp: jsmn_parse_def)
  qed
qed

text \<open>C13. Whatever text is parsed into an array of at least \<open>num\<close> tokens, the call returns, without
  reading behind the text or writing behind the array.  It returns one of the three errors, or
  the number of tokens it filled.  Then every token is a span of the text: a bracket to the
  bracket that matches it, the inside of a pair of quotes, or a primitive.  The tokens stand in
  the order of the text, each inside its parent, which is the token before it or a container
  around that one, and the size of each is the number of its
  children modulo 256.
\<close>

theorem jsmn_sound:
  assumes "num \<le> length toks" "length js < 2 ^ 15" "num < 2 ^ 15"
  shows "\<exists>r p' toks'. jsmn_parse js len num jsmn_init (Some toks) = Some (Inr (r, p', Some toks')) \<and>
    length toks' = length toks \<and>
    (if r < 0 then r \<in> {JSMN_ERROR_NOMEM, JSMN_ERROR_INVAL, JSMN_ERROR_PART}
     else r = int (j_toknext p') \<and> j_toknext p' \<le> num \<and> tree_ok js (j_toknext p') toks')"
  by (rule jsmn_parse_outcome [OF assms])

definition blank_token :: jsontok where
  "blank_token = \<lparr>t_type = 9, t_size = 9, t_start = 9, t_end = 9, t_parent = 9\<rparr>"

text \<open>Three tokens for the list of a string and an object.\<close>

definition example_text :: string where
  "example_text = ''['' @ [CHR 0x22] @ ''a'' @ [CHR 0x22] @ '',{}]''"

lemma jsmn_example:
  "map_option (rmap (\<lambda>(r, p, t). (r, j_pos p, map_option (map skel) t)))
     (jsmn_parse example_text 8 4 jsmn_init (Some (replicate 4 blank_token))) =
   Some (Inr (3, 8, Some [(JSMN_ARRAY, 0, 8, - 1), (JSMN_STRING, 2, 3, 0), (JSMN_OBJECT, 5, 7, 0), skel blank_token]))"
  by code_simp

theorem jsmn_sound_witness:
  "(4::nat) \<le> length (replicate 4 blank_token) \<and>
   (\<exists>p' toks'. jsmn_parse example_text 8 4 jsmn_init (Some (replicate 4 blank_token)) = Some (Inr (3, p', Some toks')) \<and>
      tree_ok example_text 3 toks')"
  using jsmn_sound [of 4 "replicate 4 blank_token" example_text 8] jsmn_example
  by (auto simp: rmap_eq_Inr example_text_def split: if_splits)

section \<open>The counting mode\<close>

text \<open>Without an array the loop passes the same positions and counts the same tokens.\<close>

lemma leaf_count:
  assumes "leaf_turn (leaf_finish ty s e pos num p (Some toks)) count = Inr (None, p', t', count')"
    and "j_toksuper q = - 1"
  shows "leaf_turn (leaf_finish ty s e pos n q None) count = Inr (None, q\<lparr>j_pos := j_pos p'\<rparr>, None, count')
     \<and> t' \<noteq> None"
  using assms
  by (auto simp: leaf_turn_def leaf_finish_def jsmn_alloc_token_def bump_tokens_def errors_negative rmap_eq_Inr
      split: if_splits)

lemma string_count:
  assumes "leaf_turn (jsmn_parse_string js len num p (Some toks)) count = Inr (None, p', t', count')"
    and "j_pos q = j_pos p" "j_toksuper q = - 1"
  shows "leaf_turn (jsmn_parse_string js len n q None) count = Inr (None, q\<lparr>j_pos := j_pos p'\<rparr>, None, count')
     \<and> t' \<noteq> None"
proof -
  obtain r where r: "string_end js len (j_pos p + 1) = Inr r"
    using assms(1) by (auto simp: jsmn_parse_string_def leaf_turn_def Let_def)
  show ?thesis
  proof (cases r)
    case (Inl e)
    then show ?thesis
      using assms(1) r string_end_facts [OF r] by (auto simp: jsmn_parse_string_def leaf_turn_def errors_negative)
  next
    case (Inr i)
    then show ?thesis using assms r by (auto simp: jsmn_parse_string_def dest!: leaf_count)
  qed
qed

lemma primitive_count:
  assumes "leaf_turn (jsmn_parse_primitive js len num p (Some toks)) count = Inr (None, p', t', count')"
    and "j_pos q = j_pos p" "j_toksuper q = - 1"
  shows "leaf_turn (jsmn_parse_primitive js len n q None) count = Inr (None, q\<lparr>j_pos := j_pos p'\<rparr>, None, count')
     \<and> t' \<noteq> None"
proof -
  obtain r where r: "primitive_end js len (j_pos p) = Inr r"
    using assms(1) by (auto simp: jsmn_parse_primitive_def leaf_turn_def Let_def)
  show ?thesis
  proof (cases r)
    case (Inl e)
    then show ?thesis
      using assms(1) r primitive_end_error [of js len "j_pos p" e]
      by (auto simp: jsmn_parse_primitive_def leaf_turn_def errors_negative)
  next
    case (Inr i)
    then show ?thesis using assms r by (auto simp: jsmn_parse_primitive_def dest!: leaf_count)
  qed
qed

lemma open_count:
  assumes "open_turn num ty (p, Some toks, count) = Inr (None, p', t', count')" "j_pos q = j_pos p"
  shows "open_turn n ty (q, None, count) = Inr (None, q\<lparr>j_pos := j_pos p'\<rparr>, None, count') \<and> t' \<noteq> None"
  using assms by (cases q) (auto simp: open_turn_def jsmn_alloc_token_def split: if_splits)

lemma close_count:
  assumes "close_turn ty (p, Some toks, count) = Some (Inr (None, p', t', count'))" "j_pos q = j_pos p"
  shows "close_turn ty (q, None, count) = Some (Inr (None, q\<lparr>j_pos := j_pos p'\<rparr>, None, count')) \<and> t' \<noteq> None"
  using assms close_pos
  by (cases q) (fastforce simp: close_turn_def rmap_eq_Inr split: option.splits if_splits)

lemma parse_turn_count:
  assumes "parse_turn js len num c (p, Some toks, count) = Some (Inr (None, p', t', count'))"
    and q: "j_pos q = j_pos p" "j_toksuper q = - 1"
  shows "parse_turn js len n c (q, None, count) = Some (Inr (None, q\<lparr>j_pos := j_pos p'\<rparr>, None, count'))
     \<and> t' \<noteq> None"
proof (cases rule: parse_turn_arms [where c = c and js = js and len = len])
  case (opener ty)
  then show ?thesis using assms(1) open_count [OF _ q(1)] by simp
next
  case (closer ty)
  then show ?thesis using assms(1) close_count [OF _ q(1)] by simp
next
  case string
  then show ?thesis using assms(1) string_count [OF _ q] by simp
next
  case blank
  then show ?thesis using assms(1) q(1) by (cases q) auto
next
  case primitive
  then show ?thesis using assms(1) primitive_count [OF _ q] by simp
next
  case other
  then show ?thesis using assms(1) by simp
qed

lemma parse_loop_count:
  assumes "parse_loop js len num (p, Some toks, count) = Some (Inr (None, p', t', count'))"
    and "j_pos q = j_pos p" "j_toksuper q = - 1"
  shows "parse_loop js len n (q, None, count) = Some (Inr (None, q\<lparr>j_pos := j_pos p'\<rparr>, None, count'))"
  using assms
proof (induction "len - j_pos p" arbitrary: p toks count q rule: less_induct)
  case less
  note array = less.prems(1) [unfolded parse_loop.simps [of js len num p "Some toks" count]]
  note none = parse_loop.simps [of js len n q None count, unfolded less.prems(2)]
  have here: "q\<lparr>j_pos := j_pos p\<rparr> = q" using less.prems(2) by (cases q) simp
  show ?case
  proof (cases "len \<le> j_pos p \<or> js_at js (j_pos p) = Inr NUL")
    case True
    then have "p' = p" "count' = count" using array by (cases "len \<le> j_pos p"; auto)+
    then show ?thesis unfolding none using True here by (cases "len \<le> j_pos p"; auto)
  next
    case False
    then obtain c where c: "js_at js (j_pos p) = Inr c" "c \<noteq> NUL"
      using array by (cases "js_at js (j_pos p)") auto
    note array = array [unfolded if_not_P [OF c(2)] c(1) sum.case]
    obtain p1 t1 n1 where turn: "parse_turn js len num c (p, Some toks, count) = Some (Inr (None, p1, t1, n1))"
      and rest: "parse_loop js len num (p1\<lparr>j_pos := j_pos p1 + 1\<rparr>, t1, n1) = Some (Inr (None, p', t', count'))"
      using array False by (auto split: option.splits sum.splits)
    have turn': "parse_turn js len n c (q, None, count) = Some (Inr (None, q\<lparr>j_pos := j_pos p1\<rparr>, None, n1))"
      and "t1 \<noteq> None"
      using parse_turn_count [OF turn less.prems(2,3)] by simp_all
    then obtain toks1 where t1: "t1 = Some toks1" by blast
    have "j_pos p \<le> j_pos p1" using parse_turn_pos [OF turn c(1)] .
    then have "parse_loop js len n (q\<lparr>j_pos := j_pos p1 + 1\<rparr>, None, n1) =
        Some (Inr (None, q\<lparr>j_pos := j_pos p1 + 1\<rparr>\<lparr>j_pos := j_pos p'\<rparr>, None, count'))"
      using False less.prems(3) by (intro less.hyps [OF _ rest [unfolded t1]]) auto
    then show ?thesis unfolding none using False c turn' by simp
  qed
qed

text \<open>C14. The mode without an array answers how many tokens are needed: if a text is parsed into some
  array of tokens, the call without an array returns the same number.
\<close>

theorem jsmn_counts:
  assumes "num \<le> length toks" "length js < 2 ^ 15" "num < 2 ^ 15"
    and "jsmn_parse js len num jsmn_init (Some toks) = Some (Inr (r, p', t'))" "0 \<le> r"
  shows "\<exists>p''. jsmn_parse js len n jsmn_init None = Some (Inr (r, p'', None))"
proof -
  obtain s where s: "parse_loop js len num (jsmn_init, Some toks, 0) = Some s" "loop_ok js num (length toks) s"
    using parse_loop_ok [OF linv_init [OF assms(1) refl], of js len] by blast
  from s(2) show ?thesis unfolding loop_ok_def
  proof (elim disjE exE conjE)
    fix p u count st
    assume s': "s = Inr (None, p, Some u, count)" and inv: "linv js num (length toks) st p u count"
    then have "r = count" using assms(4,5) s(1)
      by (auto simp: jsmn_parse_def JSMN_ERROR_PART_def split: if_splits)
    moreover have "parse_loop js len n (jsmn_init, None, 0) = Some (Inr (None, jsmn_init\<lparr>j_pos := j_pos p\<rparr>, None, count))"
      by (rule parse_loop_count [OF s(1) [unfolded s']]) (simp_all add: jsmn_init_def)
    ultimately show ?thesis by (simp add: jsmn_parse_def jsmn_init_def)
  next
    fix e p u count
    assume "s = Inr (Some e, p, Some u, count)" "e \<in> {JSMN_ERROR_NOMEM, JSMN_ERROR_INVAL, JSMN_ERROR_PART}"
    then have "r < 0" using assms(4) s(1) errors_negative by (auto simp: jsmn_parse_def)
    then show ?thesis using assms(5) by simp
  qed
qed

theorem jsmn_counts_witness:
  "\<exists>p''. jsmn_parse example_text 8 0 jsmn_init None = Some (Inr (3, p'', None))"
proof -
  obtain p t where "jsmn_parse example_text 8 4 jsmn_init (Some (replicate 4 blank_token)) = Some (Inr (3, p, t))"
    using jsmn_example by (auto simp: rmap_eq_Inr)
  then show ?thesis
    using jsmn_counts [of 4 "replicate 4 blank_token" example_text 8 3 p t 0] by (simp add: example_text_def)
qed

section \<open>What it does not notice\<close>

text \<open>
  A closing bracket without a token to close is passed over as long as some token was there
  before, and an object may hold a list of values without names.
\<close>

lemma jsmn_accepts:
  "map_option (rmap fst) (jsmn_parse ''[]]}'' 4 4 jsmn_init (Some (replicate 4 blank_token))) = Some (Inr 1)"
  "map_option (rmap fst) (jsmn_parse ''{1 2,,}'' 7 4 jsmn_init (Some (replicate 4 blank_token))) = Some (Inr 3)"
  by code_simp+

end
