(* ===== verification/Json_Access_Props.thy ===== *)
theory Json_Access_Props
  imports Json_Access Jsmn_Props
begin

text \<open>
  What the accessors of \<open>json_wrappers.c\<close> find in the array the tokenizer filled.  The tokens are
  the nodes of a forest in preorder; the specification speaks of the children of a node, the code
  steps through the array.  First the order of the array is worked out from the parent links,
  then the skipping loop, then both searches.
\<close>

section \<open>Preorder\<close>

definition children :: "jsontok list \<Rightarrow> nat \<Rightarrow> nat \<Rightarrow> nat list" where
  "children toks n i = filter (\<lambda>j. t_parent (toks ! j) = int i) [0 ..< n]"

definition linked :: "jsontok list \<Rightarrow> nat \<Rightarrow> bool" where
  "linked toks n \<longleftrightarrow>
     (\<forall>i < n. t_parent (toks ! i) = - 1 \<or> (\<exists>j < i. t_parent (toks ! i) = int j)) \<and>
     (\<forall>i. Suc i < n \<longrightarrow> up toks i (t_parent (toks ! Suc i)))"

abbreviation below :: "jsontok list \<Rightarrow> nat \<Rightarrow> nat \<Rightarrow> bool" where
  "below toks i j \<equiv> up toks j (int i)"

definition last_of :: "jsontok list \<Rightarrow> nat \<Rightarrow> nat \<Rightarrow> nat" where
  "last_of toks n i = Max {j. j < n \<and> below toks i j}"

lemma below_le: "below toks i j \<Longrightarrow> i \<le> j"
  by (induction j "int i" rule: up.induct) auto

lemma up_trans: "up toks k s \<Longrightarrow> s = int j \<Longrightarrow> up toks j r \<Longrightarrow> up toks k r"
  by (induction rule: up.induct) (auto intro: up.intros)

lemma below_trans: "below toks j k \<Longrightarrow> up toks j r \<Longrightarrow> up toks k r"
  by (rule up_trans [OF _ refl])

lemma below_parent:
  assumes "below toks i j" "j \<noteq> i"
  obtains p where "t_parent (toks ! j) = int p" "p < j" "below toks i p"
  using assms(1) by (cases rule: up.cases) (use assms(2) that in auto)

lemma below_step: "t_parent (toks ! j) = int i \<Longrightarrow> i < j \<Longrightarrow> below toks i j"
  by (rule up.up_step) (auto intro: up.up_refl)

lemma below_child:
  assumes "below toks i j" "j \<noteq> i"
  shows "\<exists>c \<le> j. t_parent (toks ! c) = int i"
  using assms
proof (induction j rule: less_induct)
  case (less j)
  obtain p where p: "t_parent (toks ! j) = int p" "p < j" "below toks i p"
    using less.prems by (rule below_parent)
  show ?case
  proof (cases "p = i")
    case False
    then obtain c where "c \<le> p" "t_parent (toks ! c) = int i" using less.IH [OF p(2,3)] by blast
    then show ?thesis using p(2) by (intro exI [of _ c]) simp
  qed (use p(1) in blast)
qed

lemma up_linear:
  assumes "up toks l s" "s = int c" "below toks p l"
  shows "below toks p c \<or> below toks c p"
  using assms
proof (induction rule: up.induct)
  case (up_step i j r)
  show ?case
  proof (cases "i = p")
    case True
    then show ?thesis using up_step.hyps up_step.prems(1) up.up_step [of toks i j r] by auto
  next
    case False
    then show ?thesis using up_step by (auto elim: below_parent)
  qed
qed auto

lemma linked_before:
  assumes "linked toks n" "Suc i < n" "t_parent (toks ! Suc i) = int p"
  shows "below toks p i"
proof -
  have "up toks i (t_parent (toks ! Suc i))" using assms(1,2) by (simp add: linked_def)
  then show ?thesis unfolding assms(3) .
qed

lemma below_pred:
  assumes "linked toks n" "Suc j < n" "below toks i (Suc j)" "i \<noteq> Suc j"
  shows "below toks i j"
proof -
  obtain p where p: "t_parent (toks ! Suc j) = int p" "p < Suc j" "below toks i p"
    by (rule below_parent [OF assms(3) assms(4) [symmetric]])
  have "below toks p j" using linked_before [OF assms(1,2) p(1)] .
  then show ?thesis using p(3) by (rule below_trans)
qed

lemma below_interval:
  assumes "linked toks n" "j < n" "below toks i j" "i \<le> k" "k \<le> j"
  shows "below toks i k"
  using assms(2-5)
proof (induction j)
  case (Suc j)
  then show ?case using below_pred [OF assms(1), of j i] by (cases "k = Suc j") auto
qed simp

lemma last_of_props:
  assumes "i < n"
  shows "last_of toks n i < n" "below toks i (last_of toks n i)" "i \<le> last_of toks n i"
    and "\<And>j. j < n \<Longrightarrow> below toks i j \<Longrightarrow> j \<le> last_of toks n i"
proof -
  let ?B = "{j. j < n \<and> below toks i j}"
  have fin: "finite ?B" by simp
  have "i \<in> ?B" using assms by (simp add: up.up_refl)
  then have "Max ?B \<in> ?B" using fin Max_in by blast
  then show "last_of toks n i < n" "below toks i (last_of toks n i)" by (simp_all add: last_of_def)
  then show "i \<le> last_of toks n i" by (simp add: below_le)
  show "j \<le> last_of toks n i" if "j < n" "below toks i j" for j
    unfolding last_of_def using fin that by (intro Max_ge) auto
qed

lemma last_of_eqI:
  assumes "i < n" "t < n" "below toks i t" "\<And>j. j < n \<Longrightarrow> below toks i j \<Longrightarrow> j \<le> t"
  shows "last_of toks n i = t"
  using assms last_of_props [OF assms(1), where toks = toks] by (meson le_antisym)

text \<open>Each child stands right behind everything inside the child before.\<close>

fun layout :: "jsontok list \<Rightarrow> nat \<Rightarrow> nat \<Rightarrow> nat list \<Rightarrow> nat \<Rightarrow> bool" where
  "layout toks n t [] e = (t = e)"
| "layout toks n t (c # cs) e = (c = t + 1 \<and> c < n \<and> layout toks n (last_of toks n c) cs e)"

lemma after_child:
  assumes link: "linked toks n" and c: "t_parent (toks ! c) = int i" "i < c" "c < n"
    and l: "l = last_of toks n c" and nxt: "Suc l < n" "below toks i (Suc l)"
  shows "t_parent (toks ! Suc l) = int i"
proof -
  have cl: "below toks c l" "c \<le> l" and max: "\<not> below toks c (Suc l)"
    using last_of_props [OF c(3), where toks = toks] nxt(1) l by fastforce+
  obtain p where p: "t_parent (toks ! Suc l) = int p" "p < Suc l" "below toks i p"
    by (rule below_parent [OF nxt(2)]) (use cl c(2) in auto)
  have "below toks p l" using linked_before [OF link nxt(1) p(1)] .
  moreover have "\<not> below toks c p" using max p up.up_step by blast
  ultimately have pc: "below toks p c" using up_linear [OF cl(1) refl] by blast
  have "c \<noteq> p" using \<open>\<not> below toks c p\<close> up.up_refl by blast
  obtain k where k: "t_parent (toks ! c) = int k" "below toks p k"
    by (rule below_parent [OF pc \<open>c \<noteq> p\<close>])
  then have "below toks p i" using c(1) by simp
  from below_le [OF this] show ?thesis using p(1) below_le [OF p(3)] by simp
qed

lemma layout_from:
  assumes link: "linked toks n" and i: "i < n"
  shows "t < n \<Longrightarrow> below toks i t \<Longrightarrow>
    (Suc t < n \<Longrightarrow> below toks i (Suc t) \<Longrightarrow> t_parent (toks ! Suc t) = int i) \<Longrightarrow>
    layout toks n t (filter (\<lambda>j. t_parent (toks ! j) = int i) [Suc t ..< n]) (last_of toks n i)"
proof (induction "n - t" arbitrary: t rule: less_induct)
  case less
  have it: "i \<le> t" using less.prems(2) by (rule below_le)
  show ?case
  proof (cases "Suc t < n \<and> below toks i (Suc t)")
    case True
    let ?c = "Suc t" and ?P = "\<lambda>j. t_parent (toks ! j) = int i"
    define l where "l = last_of toks n ?c"
    have c: "t_parent (toks ! ?c) = int i" "?c < n" using True less.prems(3) by auto
    have l: "?c \<le> l" "l < n" "below toks ?c l" using last_of_props [OF c(2), where toks = toks] l_def by simp_all
    have "\<not> ?P k" if "k \<in> {Suc ?c ..< Suc l}" for k
    proof
      assume "?P k"
      have inside: "below toks ?c k" using below_interval [OF link l(2,3)] that by simp
      have "k \<noteq> ?c" using that by simp
      obtain m where "t_parent (toks ! k) = int m" "below toks ?c m"
        by (rule below_parent [OF inside \<open>k \<noteq> ?c\<close>])
      then have "below toks ?c i" using \<open>?P k\<close> by simp
      from below_le [OF this] show False using it by simp
    qed
    then have none: "filter ?P [Suc ?c ..< Suc l] = []" by (auto simp: filter_empty_conv)
    have "[?c ..< n] = ?c # [Suc ?c ..< Suc l] @ [Suc l ..< n]"
      using c(2) l upt_add_eq_append [of "Suc ?c" "Suc l" "n - Suc l"] by (simp add: upt_conv_Cons)
    then have split: "filter ?P [?c ..< n] = ?c # filter ?P [Suc l ..< n]" using none c(1) by simp
    have "layout toks n l (filter ?P [Suc l ..< n]) (last_of toks n i)"
    proof (rule less.hyps)
      show "n - l < n - t" using l c(2) by simp
      show "below toks i l" using below_trans [OF l(3)] below_step [OF c(1)] it by simp
      show "t_parent (toks ! Suc l) = int i" if "Suc l < n" "below toks i (Suc l)"
        using after_child [OF link c(1) _ c(2) l_def that] it by simp
    qed (rule l(2))
    then show ?thesis using split c(2) l_def by simp
  next
    case False
    have above: "\<not> below toks i k" if "t < k" "k < n" for k
      using below_interval [OF link that(2), of i "Suc t"] False it that by auto
    have "t_parent (toks ! k) \<noteq> int i" if "k \<in> set [Suc t ..< n]" for k
      using above [of k] below_step [of toks k i] it that by fastforce
    then have "filter (\<lambda>j. t_parent (toks ! j) = int i) [Suc t ..< n] = []" by (simp add: filter_empty_conv)
    moreover have "last_of toks n i = t"
      using last_of_eqI [OF i less.prems(1,2)] above by (meson not_le)
    ultimately show ?thesis by simp
  qed
qed

lemma children_layout:
  assumes link: "linked toks n" and i: "i < n"
  shows "layout toks n i (children toks n i) (last_of toks n i)"
proof -
  have "t_parent (toks ! j) \<noteq> int i" if "j \<le> i" for j
  proof -
    have "t_parent (toks ! j) = - 1 \<or> (\<exists>p < j. t_parent (toks ! j) = int p)"
      using link that i by (simp add: linked_def)
    then show ?thesis using that by auto
  qed
  then have "filter (\<lambda>j. t_parent (toks ! j) = int i) [0 ..< Suc i] = []" by (auto simp: filter_empty_conv)
  moreover have "[0 ..< n] = [0 ..< Suc i] @ [Suc i ..< n]"
    using i upt_add_eq_append [of 0 "Suc i" "n - Suc i"] by simp
  ultimately have "children toks n i = filter (\<lambda>j. t_parent (toks ! j) = int i) [Suc i ..< n]"
    by (simp add: children_def del: upt_Suc)
  moreover have "t_parent (toks ! Suc i) = int i" if nxt: "Suc i < n" "below toks i (Suc i)"
  proof -
    obtain p where p: "t_parent (toks ! Suc i) = int p" "p < Suc i" "below toks i p"
      by (rule below_parent [OF nxt(2)]) simp
    then show ?thesis using below_le [OF p(3)] by simp
  qed
  ultimately show ?thesis using layout_from [OF link i i up.up_refl] by simp
qed

section \<open>Skipping\<close>

text \<open>No count of children has wrapped around its byte.\<close>

definition counted :: "jsontok list \<Rightarrow> nat \<Rightarrow> bool" where
  "counted toks n \<longleftrightarrow> (\<forall>i < n. unat (t_size (toks ! i)) = length (children toks n i))"

lemma skip_loop_layout:
  assumes "\<And>c. c \<in> set cs \<Longrightarrow> skip_to_last toks c = Inr (last_of toks n c)"
    and "layout toks n t cs e" "n \<le> length toks"
  shows "skip_loop toks (length cs) t = Inr e"
  using assms(1,2)
proof (induction cs arbitrary: t)
  case (Cons c cs)
  have c: "c = t + 1" "c < length toks" and rest: "layout toks n (last_of toks n c) cs e"
    using Cons.prems(2) assms(3) by auto
  have "skip_to_last toks c = Inr (last_of toks n c)" using Cons.prems(1) by simp
  moreover have "skip_loop toks (length cs) (last_of toks n c) = Inr e" using Cons.IH [OF _ rest] Cons.prems(1) by simp
  ultimately show ?case using c by (simp add: skip_loop_eq [of toks _ t] skip_to_last_def tok_at_def split: if_splits)
qed (simp add: skip_loop_eq)

theorem skip_to_last_spec:
  assumes "linked toks n" "counted toks n" "n \<le> length toks"
  shows "i < n \<Longrightarrow> skip_to_last toks i = Inr (last_of toks n i)"
proof (induction "n - i" arbitrary: i rule: less_induct)
  case less
  have later: "i < c \<and> c < n" if "c \<in> set (children toks n i)" for c
  proof -
    have "c < n" "t_parent (toks ! c) = int i" using that by (simp_all add: children_def)
    moreover have "t_parent (toks ! c) = - 1 \<or> (\<exists>j < c. t_parent (toks ! c) = int j)"
      using assms(1) \<open>c < n\<close> by (simp add: linked_def)
    ultimately show ?thesis by auto
  qed
  have size: "unat (t_size (toks ! i)) = length (children toks n i)" using assms(2) less.prems by (simp add: counted_def)
  have layout: "layout toks n i (children toks n i) (last_of toks n i)" using children_layout [OF assms(1) less.prems] .
  show ?case
  proof (cases "t_size (toks ! i) = 0")
    case True
    then have "children toks n i = []" using size by simp
    then show ?thesis using layout True less.prems assms(3) by (simp add: skip_to_last_def tok_at_def)
  next
    case False
    have "skip_loop toks (length (children toks n i)) i = Inr (last_of toks n i)"
    proof (rule skip_loop_layout [OF _ layout assms(3)])
      fix c assume "c \<in> set (children toks n i)"
      then have c: "i < c" "c < n" using later by simp_all
      then have "n - c < n - i" by simp
      then show "skip_to_last toks c = Inr (last_of toks n c)" using less.hyps c(2) by blast
    qed
    then show ?thesis using False size less.prems assms(3) by (simp add: skip_to_last_def tok_at_def)
  qed
qed

section \<open>Specification of the searches\<close>

definition token_text :: "string \<Rightarrow> jsontok \<Rightarrow> string" where
  "token_text js t = take (nat (t_end t - t_start t)) (drop (nat (t_start t)) js)"

text \<open>
  The children of an object are names and values in turn.  The first value whose name is the key
  is found; a name that is no string before it ends the search.
\<close>

fun lookup :: "string \<Rightarrow> jsontok list \<Rightarrow> string \<Rightarrow> nat list \<Rightarrow> found" where
  "lookup js toks key [] = (- WM_E_JSON_NOT_FOUND, None)"
| "lookup js toks key [k] =
     (if t_type (toks ! k) \<noteq> JSMN_STRING then (- WM_E_JSON_FAIL, None) else (- WM_E_JSON_NOT_FOUND, None))"
| "lookup js toks key (k # v # cs) =
     (if t_type (toks ! k) \<noteq> JSMN_STRING then (- WM_E_JSON_FAIL, None)
      else if token_text js (toks ! k) = key then (WM_SUCCESS, Some v)
      else lookup js toks key cs)"

lemma strncmp_eq_take:
  "NUL \<notin> set p \<Longrightarrow> NUL \<notin> set s \<Longrightarrow> n \<le> length p \<Longrightarrow> length s = n \<Longrightarrow> strncmp_eq p s n \<longleftrightarrow> take n p = s"
proof (induction n arbitrary: p s)
  case (Suc n)
  then obtain a p' b s' where "p = a # p'" "s = b # s'" by (metis Suc_le_length_iff le_refl)
  then show ?case using Suc by auto
qed simp

lemma tree_token:
  assumes "tree_ok js n toks" "i < n"
  shows "0 \<le> t_start (toks ! i)" "t_start (toks ! i) \<le> t_end (toks ! i)" "t_end (toks ! i) \<le> int (length js)"
  using assms by (auto simp: tree_ok_def)

lemma streq_text:
  assumes tree: "tree_ok js n toks" "i < n" and short: "length js < 2 ^ 15"
    and nul: "NUL \<notin> set js" "NUL \<notin> set s"
  shows "json_token_streq js (toks ! i) s = Inr (token_text js (toks ! i) = s)"
proof -
  note range = tree_token [OF tree]
  let ?t = "toks ! i"
  let ?n = "nat (t_end ?t - t_start ?t)" and ?p = "drop (nat (t_start ?t)) js"
  have n: "nat ((t_end ?t - t_start ?t) mod 2 ^ 32) = ?n" using range short by (simp add: mod_pos_pos_trivial)
  have len: "?n \<le> length ?p" using range by simp
  have "NUL \<notin> set ?p" using nul(1) by (meson in_set_dropD)
  then have "strncmp_eq ?p s ?n \<and> length s = ?n \<longleftrightarrow> token_text js ?t = s"
    using strncmp_eq_take [of ?p s ?n] nul(2) len by (auto simp: token_text_def)
  then show ?thesis using range n by (simp add: json_token_streq_def Let_def)
qed

lemma tree_linked: "tree_ok js n toks \<Longrightarrow> linked toks n"
  unfolding tree_ok_def linked_def by blast

lemma tree_counted:
  assumes "tree_ok js n toks" "\<forall>i < n. length (children toks n i) < 256"
  shows "counted toks n"
  unfolding counted_def
proof (intro allI impI)
  fix i assume i: "i < n"
  have "length (children toks n i) = card {j. j < n \<and> t_parent (toks ! j) = int i}"
    unfolding children_def length_filter_conv_card by (rule arg_cong [where f = card]) auto
  then have "t_size (toks ! i) = of_nat (length (children toks n i))" using assms(1) i by (simp add: tree_ok_def)
  then show "unat (t_size (toks ! i)) = length (children toks n i)"
    using assms(2) i by (simp add: unat_of_nat)
qed

lemma child_props:
  assumes "tree_ok js n toks" "c \<in> set (children toks n i)"
  shows "c < n" "t_end (toks ! c) < t_end (toks ! i)" "t_type (toks ! i) \<in> {JSMN_OBJECT, JSMN_ARRAY}"
proof -
  have c: "c < n" "t_parent (toks ! c) = int i" using assms(2) by (simp_all add: children_def)
  have "t_parent (toks ! c) = - 1 \<or> (\<exists>j < c. t_parent (toks ! c) = int j \<and>
      t_type (toks ! j) \<in> {JSMN_OBJECT, JSMN_ARRAY} \<and> t_end (toks ! c) < t_end (toks ! j))"
    using assms(1) c(1) by (simp add: tree_ok_def)
  then show "c < n" "t_end (toks ! c) < t_end (toks ! i)" "t_type (toks ! i) \<in> {JSMN_OBJECT, JSMN_ARRAY}"
    using c by auto
qed

lemma leaf_last:
  assumes "tree_ok js n toks" "i < n" "t_type (toks ! i) \<notin> {JSMN_OBJECT, JSMN_ARRAY}"
  shows "last_of toks n i = i"
proof -
  have "c \<notin> set (children toks n i)" for c using child_props(3) [OF assms(1), of c i] assms(3) by metis
  then have "children toks n i = []" by (cases "children toks n i") auto
  then show ?thesis using children_layout [OF tree_linked [OF assms(1)] assms(2)] by simp
qed

text \<open>One step over an element, as both loops do it.\<close>

lemma skip_element_spec:
  assumes "tree_ok js n toks" "counted toks n" "n \<le> length toks" "i < n"
  shows "skip_element toks (toks ! i) i = Inr (last_of toks n i)"
  using skip_to_last_spec [OF tree_linked [OF assms(1)] assms(2,3,4)] leaf_last [OF assms(1,4)]
  by (auto simp: skip_element_def)

section \<open>The searches\<close>

lemma get_loop_spec:
  assumes tree: "tree_ok js n toks" and cnt: "counted toks n" "n \<le> length toks"
    and short: "length js < 2 ^ 15" and nul: "NUL \<notin> set js" "NUL \<notin> set key"
  shows "set cs \<subseteq> set (children toks n cur) \<Longrightarrow> layout toks n t cs e \<Longrightarrow>
    get_loop js toks cur key KEY (length cs) t = Inr (lookup js toks key cs)"
proof (induction cs arbitrary: t rule: induct_list012)
  case (2 k)
  then have k: "k = t + 1" "k < n" "t_end (toks ! k) < t_end (toks ! cur)" using child_props [OF tree, of k cur] by auto
  show ?case using k cnt(2) streq_text [OF tree k(2) short nul] by (simp add: tok_at_def)
next
  case (3 k v cs)
  have k: "k = t + 1" "k < n" "t_end (toks ! k) < t_end (toks ! cur)"
    using "3.prems" child_props [OF tree, of k cur] by auto
  have v: "v = last_of toks n k + 1" "v < n" "t_end (toks ! v) < t_end (toks ! cur)"
    and rest: "layout toks n (last_of toks n v) cs e"
    using "3.prems" child_props [OF tree, of v cur] by auto
  note streq = streq_text [OF tree k(2) short nul]
  show ?case
  proof (cases "t_type (toks ! k) = JSMN_STRING")
    case True
    then have "last_of toks n k = k" using leaf_last [OF tree k(2)] by (simp add: JSMN_STRING_def JSMN_OBJECT_def JSMN_ARRAY_def)
    then have v': "v = k + 1" using v(1) by simp
    have "get_loop js toks cur key KEY (length cs) (last_of toks n v) = Inr (lookup js toks key cs)"
      using "3.IH"(1) [OF _ rest] "3.prems"(1) by simp
    then show ?thesis
      using True k v v' cnt(2) streq skip_element_spec [OF tree cnt v(2)]
      by (cases "token_text js (toks ! k) = key") (simp_all add: tok_at_def)
  next
    case False
    then show ?thesis using k cnt(2) by (simp add: tok_at_def)
  qed
qed simp

lemma index_loop_spec:
  assumes tree: "tree_ok js n toks" and cnt: "counted toks n" "n \<le> length toks"
  shows "set cs \<subseteq> set (children toks n cur) \<Longrightarrow> layout toks n t cs e \<Longrightarrow> m < length cs \<Longrightarrow>
    index_loop toks cur m (t + 1) = Inr (WM_SUCCESS, Some (cs ! m))"
proof (induction m arbitrary: t cs)
  case 0
  then show ?case by (cases cs) auto
next
  case (Suc m)
  then obtain c cs' where cs: "cs = c # cs'" by (cases cs) auto
  have c: "c = t + 1" "c < n" "t_end (toks ! c) < t_end (toks ! cur)"
    and rest: "layout toks n (last_of toks n c) cs' e"
    using Suc.prems cs child_props [OF tree, of c cur] by auto
  have "index_loop toks cur m (last_of toks n c + 1) = Inr (WM_SUCCESS, Some (cs' ! m))"
    using Suc.IH [OF _ rest] Suc.prems cs by simp
  then show ?case using c cs cnt(2) skip_element_spec [OF tree cnt c(2)] by (simp add: tok_at_def)
qed

section \<open>From the text to the value\<close>

lemma init_error_nonzero: "init_error e \<noteq> WM_SUCCESS"
  by (simp add: init_error_def WM_SUCCESS_def WM_E_JSON_NOMEM_def WM_E_JSON_INVAL_def
      WM_E_JSON_INCOMPLETE_def WM_E_JSON_FAIL_def)

definition opened :: "string \<Rightarrow> json_parser_t \<Rightarrow> bool" where
  "opened js j \<longleftrightarrow> a_js j = Some js \<and> (\<exists>n. a_num j = int n \<and> n \<le> length (a_tokens j) \<and> tree_ok js n (a_tokens j))"

lemma json_init_opened:
  assumes "num \<le> length toks" "length js < 2 ^ 15" "num < 2 ^ 15"
    and "json_init toks num js len = Some (Inr (WM_SUCCESS, j))"
  shows "opened js j"
proof -
  obtain r p toks' where parse: "jsmn_parse js len num jsmn_init (Some toks) = Some (Inr (r, p, Some toks'))"
    and len: "length toks' = length toks"
    and r: "if r < 0 then r \<in> {JSMN_ERROR_NOMEM, JSMN_ERROR_INVAL, JSMN_ERROR_PART}
      else r = int (j_toknext p) \<and> j_toknext p \<le> num \<and> tree_ok js (j_toknext p) toks'"
    using jsmn_parse_outcome [OF assms(1,2,3)] by blast
  let ?j = "(json_obj_init toks (int num))\<lparr>a_parser := p, a_tokens := toks'\<rparr>"
  have init: "(if r < 0 then Inr (init_error r, ?j)
      else init_check (?j\<lparr>a_js := Some js, a_num := r, a_cur := Some 0\<rparr>)) = Inr (WM_SUCCESS, j)"
    using assms(4) parse by (cases "r < 0") (simp_all add: json_init_def json_obj_init_def)
  have "\<not> r < 0" using init init_error_nonzero [of r] by auto
  moreover from this have "j = ?j\<lparr>a_js := Some js, a_num := r, a_cur := Some 0\<rparr>"
    using init by (auto simp: init_check_def rmap_eq_Inr WM_SUCCESS_def WM_E_JSON_INVALID_JOBJ_def split: if_splits)
  ultimately show ?thesis using r len assms(1) by (auto simp: opened_def)
qed

lemma json_lookup_value:
  assumes "num \<le> length toks" "length js < 2 ^ 15" "num < 2 ^ 15"
    and "json_init toks num js len = Some (Inr (WM_SUCCESS, j))" "a_num j = int n"
    and "NUL \<notin> set js" "NUL \<notin> set key"
    and "\<forall>i < n. length (children (a_tokens j) n i) < 256"
    and "cur < n" "t_type (a_tokens j ! cur) = JSMN_OBJECT"
  shows "json_get_value (j\<lparr>a_cur := Some cur\<rparr>) key = Inr (
    let cs = children (a_tokens j) n cur
    in if cs = [] \<or> odd (length cs) then (- WM_E_JSON_FAIL, None)
       else lookup js (a_tokens j) key cs)"
proof -
  let ?toks = "a_tokens j" and ?cs = "children (a_tokens j) n cur"
  have tree: "tree_ok js n ?toks" "n \<le> length ?toks" "a_js j = Some js"
    using json_init_opened [OF assms(1,2,3,4)] assms(5) by (auto simp: opened_def)
  have cnt: "counted ?toks n" using tree_counted [OF tree(1) assms(8)] .
  then have size: "unat (t_size (?toks ! cur)) = length ?cs" using assms(9) by (simp add: counted_def)
  have "get_loop js ?toks cur key KEY (length ?cs) cur = Inr (lookup js ?toks key ?cs)"
    using get_loop_spec [OF tree(1) cnt tree(2) assms(2,6,7) subset_refl]
      children_layout [OF tree_linked [OF tree(1)] assms(9)] .
  then show ?thesis
    using tree assms(9,10) size by (simp add: json_get_value_def the_cur_def tok_at_def Let_def odd_iff_mod_2_eq_one)
qed

text \<open>C15. After a text was read successfully, a search for a key inside any of its objects finds the
  value behind the first name that is the key, as long as no container has more than 255
  elements.  The skipping of the values in between never leaves the object.
\<close>

theorem json_lookup:
  assumes "num \<le> length toks" "length js < 2 ^ 15" "num < 2 ^ 15"
    and "json_init toks num js len = Some (Inr (WM_SUCCESS, j))" "a_num j = int n"
    and "NUL \<notin> set js" "NUL \<notin> set key"
    and "\<forall>i < n. length (children (a_tokens j) n i) < 256"
    and "cur < n" "t_type (a_tokens j ! cur) = JSMN_OBJECT"
  shows "json_get_value (j\<lparr>a_cur := Some cur\<rparr>) key = Inr (
    let cs = children (a_tokens j) n cur
    in if cs = [] \<or> odd (length cs) then (- WM_E_JSON_FAIL, None)
       else lookup js (a_tokens j) key cs)"
  by (rule json_lookup_value [OF assms])

text \<open>C40. After a text was read successfully in which no container has more than 255 elements, the
  element of an array under an index is the child of that index, and an index from the number of
  elements on is refused.
\<close>

theorem json_element:
  assumes "num \<le> length toks" "length js < 2 ^ 15" "num < 2 ^ 15"
    and "json_init toks num js len = Some (Inr (WM_SUCCESS, j))" "a_num j = int n"
    and "\<forall>i < n. length (children (a_tokens j) n i) < 256"
    and "cur < n" "t_type (a_tokens j ! cur) = JSMN_ARRAY"
  shows "json_get_array_index (j\<lparr>a_cur := Some cur\<rparr>) k = Inr (
    let cs = children (a_tokens j) n cur
    in if unat k < length cs then (WM_SUCCESS, Some (cs ! unat k)) else (- WM_E_JSON_INVALID_INDEX, None))"
proof -
  let ?toks = "a_tokens j" and ?cs = "children (a_tokens j) n cur"
  have tree: "tree_ok js n ?toks" "n \<le> length ?toks" "a_js j = Some js"
    using json_init_opened [OF assms(1,2,3,4)] assms(5) by (auto simp: opened_def)
  have cnt: "counted ?toks n" using tree_counted [OF tree(1) assms(6)] .
  then have size: "unat (t_size (?toks ! cur)) = length ?cs" using assms(7) by (simp add: counted_def)
  have "index_loop ?toks cur (unat k) (cur + 1) = Inr (WM_SUCCESS, Some (?cs ! unat k))" if "unat k < length ?cs"
    using index_loop_spec [OF tree(1) cnt tree(2) subset_refl] that
      children_layout [OF tree_linked [OF tree(1)] assms(7)] by blast
  then show ?thesis
    using tree assms(7,8) size by (simp add: json_get_array_index_def the_cur_def tok_at_def Let_def)
qed

lemma lookup_child:
  "lookup js toks key cs = (WM_SUCCESS, Some v) \<Longrightarrow> v \<in> set cs"
  by (induction js toks key cs rule: lookup.induct) (auto split: if_splits)

text \<open>C18. Reading a string from an object into a buffer: the text between its quotes and a NUL are
  stored when they fit the length that was passed, and otherwise nothing is; the buffer is never
  overrun when it has that length.
\<close>

theorem json_string_value:
  assumes "num \<le> length toks" "length js < 2 ^ 15" "num < 2 ^ 15"
    and "json_init toks num js len = Some (Inr (WM_SUCCESS, j))" "a_num j = int n"
    and "NUL \<notin> set js" "NUL \<notin> set key"
    and "\<forall>i < n. length (children (a_tokens j) n i) < 256"
    and "cur < n" "t_type (a_tokens j ! cur) = JSMN_OBJECT" "even (length (children (a_tokens j) n cur))"
    and "lookup js (a_tokens j) key (children (a_tokens j) n cur) = (WM_SUCCESS, Some v)"
    and "maxlen \<le> int (length buf)"
  shows "json_get_val_str (j\<lparr>a_cur := Some cur\<rparr>) key buf maxlen = Inr (
    let s = token_text js (a_tokens j ! v)
    in if t_type (a_tokens j ! v) \<noteq> JSMN_STRING then (- WM_E_JSON_INVALID_TYPE, buf)
       else if maxlen \<le> int (length s) then (- WM_E_JSON_NOMEM, buf)
       else (WM_SUCCESS, s @ NUL # drop (length s + 1) buf))"
proof -
  let ?t = "a_tokens j ! v"
  have tree: "tree_ok js n (a_tokens j)" "n \<le> length (a_tokens j)" "a_js j = Some js"
    using json_init_opened [OF assms(1,2,3,4)] assms(5) by (auto simp: opened_def)
  have v: "v \<in> set (children (a_tokens j) n cur)" using lookup_child [OF assms(12)] .
  then have "v < n" using child_props(1) [OF tree(1)] by blast
  note range = tree_token [OF tree(1) this]
  have cs: "children (a_tokens j) n cur \<noteq> []" using v by auto
  have get: "json_get_value (j\<lparr>a_cur := Some cur\<rparr>) key = Inr (WM_SUCCESS, Some v)"
    using json_lookup_value [OF assms(1-10)] cs assms(11,12) by simp
  have s: "length (token_text js ?t) = nat (t_end ?t - t_start ?t)" using range by (simp add: token_text_def)
  have bytes: "strncpy_bytes (drop (nat (t_start ?t)) js) (nat (t_end ?t - t_start ?t)) = token_text js ?t"
    using range by (simp add: strncpy_bytes_def token_text_def)
  show ?thesis
    using get tree(2,3) \<open>v < n\<close> range s bytes assms(13)
    by (auto simp: json_get_val_str_def with_token_def tok_at_def json_str_to_str_def Let_def)
qed

section \<open>Examples\<close>

definition ex_text :: string where
  "ex_text = ''{'' @ [CHR 0x22] @ ''a'' @ [CHR 0x22] @ '':[7,8],'' @ [CHR 0x22] @ ''b'' @ [CHR 0x22] @ '':'' @
     [CHR 0x22] @ ''xy'' @ [CHR 0x22] @ ''}''"

definition ex_tokens :: "jsontok list" where
  "ex_tokens =
    [\<lparr>t_type = 1, t_size = 4, t_start = 0, t_end = 20, t_parent = - 1\<rparr>,
     \<lparr>t_type = 3, t_size = 0, t_start = 2, t_end = 3, t_parent = 0\<rparr>,
     \<lparr>t_type = 2, t_size = 2, t_start = 5, t_end = 10, t_parent = 0\<rparr>,
     \<lparr>t_type = 0, t_size = 0, t_start = 6, t_end = 7, t_parent = 2\<rparr>,
     \<lparr>t_type = 0, t_size = 0, t_start = 8, t_end = 9, t_parent = 2\<rparr>,
     \<lparr>t_type = 3, t_size = 0, t_start = 12, t_end = 13, t_parent = 0\<rparr>,
     \<lparr>t_type = 3, t_size = 0, t_start = 16, t_end = 18, t_parent = 0\<rparr>]"

definition ex_json :: json_parser_t where
  "ex_json = \<lparr>a_parser = \<lparr>j_pos = 20, j_toknext = 7, j_toksuper = - 1\<rparr>, a_js = Some ex_text,
     a_tokens = ex_tokens, a_cur = Some 0, a_num = 7\<rparr>"

lemma ex_init: "json_init (replicate 7 blank_token) 7 ex_text 20 = Some (Inr (WM_SUCCESS, ex_json))"
  by code_simp

lemma length_children: "length (children toks n i) \<le> n"
  unfolding children_def by (rule order.trans [OF length_filter_le]) simp

lemma ex_children:
  "children ex_tokens 7 0 = [1, 2, 5, 6]" "children ex_tokens 7 2 = [3, 4]"
  "lookup ex_text ex_tokens ''b'' [1, 2, 5, 6] = (WM_SUCCESS, Some 6)"
  "token_text ex_text (ex_tokens ! 6) = ''xy''"
  by code_simp+

lemma ex_facts:
  "(7::nat) \<le> length (replicate 7 blank_token)" "length ex_text < 2 ^ 15" "(7::nat) < 2 ^ 15"
  "a_num ex_json = int 7" "NUL \<notin> set ex_text" "NUL \<notin> set ''b''" "a_tokens ex_json = ex_tokens"
  "t_type (ex_tokens ! 0) = JSMN_OBJECT" "t_type (ex_tokens ! 2) = JSMN_ARRAY" "t_type (ex_tokens ! 6) = JSMN_STRING"
  "\<forall>i < 7. length (children (a_tokens ex_json) 7 i) < 256"
  using length_children [of "a_tokens ex_json" 7]
  by (auto simp: ex_text_def ex_json_def ex_tokens_def JSMN_OBJECT_def JSMN_ARRAY_def JSMN_STRING_def
      le_less_trans [where y = 7])

lemma ex_cur: "ex_json\<lparr>a_cur := Some 0\<rparr> = ex_json"
  by (simp add: ex_json_def)

theorem json_lookup_witness:
  "json_get_value ex_json ''b'' = Inr (WM_SUCCESS, Some 6)"
  using json_lookup [OF ex_facts(1,2,3) ex_init ex_facts(4,5,6,11), of 0] ex_facts(7,8) ex_children(1,3)
  by (simp add: ex_cur)

theorem json_element_witness:
  "json_get_array_index (ex_json\<lparr>a_cur := Some 2\<rparr>) 1 = Inr (WM_SUCCESS, Some 4)"
  using json_element [OF ex_facts(1,2,3) ex_init ex_facts(4,11), of 2 1] ex_facts(7,9) ex_children(2) by simp

theorem json_string_value_witness:
  "json_get_val_str ex_json ''b'' ''12345'' 5 = Inr (WM_SUCCESS, ''xy'' @ NUL # ''45'')"
  using json_string_value [OF ex_facts(1,2,3) ex_init ex_facts(4,5,6,11), of 0 6 5 "''12345''"]
    ex_facts(7,8,10) ex_children(1,3,4)
  by (simp add: ex_cur)

section \<open>What is not checked\<close>

text \<open>
  A text without any token is accepted if the array happens to hold a container in its first
  place from an earlier call.
\<close>

lemma json_init_stale:
  assumes "toks \<noteq> []" "t_type (toks ! 0) = JSMN_ARRAY"
  shows "\<exists>j. json_init toks num [] len = Some (Inr (WM_SUCCESS, j)) \<and> a_num j = 0 \<and> a_tokens j = toks"
proof -
  have "parse_loop [] len num (jsmn_init, Some toks, 0) = Some (Inr (None, jsmn_init, Some toks, 0))"
    by (subst parse_loop.simps) (simp add: jsmn_init_def js_at_def)
  then have "jsmn_parse [] len num jsmn_init (Some toks) = Some (Inr (0, jsmn_init, Some toks))"
    by (simp add: jsmn_parse_def) (simp add: jsmn_init_def)
  then show ?thesis
    using assms by (simp add: json_init_def json_obj_init_def init_check_def tok_at_def Let_def
        JSMN_ARRAY_def JSMN_OBJECT_def)
qed

end
