(* ===== verification/Json_Gen.thy ===== *)
theory Json_Gen
  imports Json_Access CLib
begin

text \<open>
  \<open>src/thirdpartylib/JingDong/jsmn/json_generator.c\<close>: texts are built piece by piece in a buffer of
  the caller.  \<open>g_free\<close> is the offset of the terminating NUL.  The buffer is the list of its
  bytes; \<open>len\<close> is the length the caller passed.  Names and values lie outside the buffer.
  \<open>CONFIG_JSON_FLOAT\<close> is not set.
\<close>

section \<open>Data\<close>

definition WM_E_JSON_INVSTART :: int where "WM_E_JSON_INVSTART = 1010"
definition WM_E_JSON_OBUF :: int where "WM_E_JSON_OBUF = 1011"

datatype json_data_types =
    JSON_VAL_STR
  | JSON_VAL_INT
  | JSON_VAL_UINT
  | JSON_VAL_UINT_64
  | JSON_VAL_FLOAT
  | JSON_VAL_BOOL
  | JSON_VAL_OBJ

record json_str_t =
  g_buff :: string
  g_len :: int
  g_free :: int

definition json_str_init :: "string \<Rightarrow> int \<Rightarrow> json_str_t res" where
  "json_str_init buff len =
     (if 0 \<le> len \<and> len \<le> int (length buff)
      then Inr \<lparr>g_buff = replicate (nat len) NUL @ drop (nat len) buff, g_len = len, g_free = 0\<rparr>
      else Inl BufferOverflow)"

section \<open>Reading and writing the buffer\<close>

text \<open>
  Blanks are all characters up to 32, the NUL among them: \<open>skip\<close> does not stop at the end of the
  text, nor \<open>rev_skip\<close> at its start.
\<close>

function gen_skip :: "string \<Rightarrow> nat \<Rightarrow> nat res" where
  "gen_skip b i =
     (if i < length b then (if code (b ! i) \<le> 32 then gen_skip b (i + 1) else Inr i) else Inl OutOfBounds)"
  by pat_completeness auto
termination by (relation "measure (\<lambda>(b, i). length b - i)") auto

declare gen_skip.simps [simp del]

fun rev_skip_from :: "string \<Rightarrow> nat \<Rightarrow> nat res" where
  "rev_skip_from b 0 = (if b = [] \<or> code (b ! 0) \<le> 32 then Inl OutOfBounds else Inr 0)"
| "rev_skip_from b (Suc i) =
     (if length b \<le> Suc i then Inl OutOfBounds
      else if code (b ! Suc i) \<le> 32 then rev_skip_from b i else Inr (Suc i))"

definition rev_skip :: "string \<Rightarrow> int \<Rightarrow> char res" where
  "rev_skip b i = (if i < 0 then Inl OutOfBounds else rmap (\<lambda>k. b ! k) (rev_skip_from b (nat i)))"

definition verify_json_start :: "string \<Rightarrow> bool res" where
  "verify_json_start b = rmap (\<lambda>i. b ! i = CHR ''{'') (gen_skip b 0)"

definition verify_buffer_limit :: "json_str_t \<Rightarrow> bool" where
  "verify_buffer_limit j \<longleftrightarrow> \<not> (g_len j - 1 \<le> g_free j)"

text \<open>\<open>buff[free_ptr++] = c\<close>.\<close>

definition put_char :: "char \<Rightarrow> json_str_t \<Rightarrow> json_str_t res" where
  "put_char c j =
     (if 0 \<le> g_free j \<and> g_free j < int (length (g_buff j))
      then Inr (j\<lparr>g_buff := (g_buff j)[nat (g_free j) := c], g_free := g_free j + 1\<rparr>)
      else Inl BufferOverflow)"

text \<open>
  \<open>snprintf(&buff[free_ptr], len - free_ptr, ...)\<close> with the text it prints, and then
  \<open>free_ptr = strlen(buff)\<close>.
\<close>

definition snprintf_free :: "string \<Rightarrow> json_str_t \<Rightarrow> json_str_t res" where
  "snprintf_free s j =
     (let n = nat ((g_len j - g_free j) mod 2 ^ 32);
          out = (if n = 0 then [] else take (n - 1) s @ [NUL]);
          i = nat (g_free j)
      in if 0 \<le> g_free j \<and> i + length out \<le> length (g_buff j)
         then Inr (j\<lparr>g_buff := take i (g_buff j) @ out @ drop (i + length out) (g_buff j)\<rparr>)
         else Inl BufferOverflow)"

definition set_free :: "json_str_t \<Rightarrow> json_str_t res" where
  "set_free j = rmap (\<lambda>s. j\<lparr>g_free := int (length s)\<rparr>) (buf_str (g_buff j))"

definition print_text :: "string \<Rightarrow> json_str_t \<Rightarrow> json_str_t res" where
  "print_text s j = rbind (snprintf_free s j) set_free"

definition in_quotes :: "string \<Rightarrow> string" where
  "in_quotes s = CHR 0x22 # s @ [CHR 0x22]"

section \<open>Objects and arrays\<close>

type_synonym gen_out = "(int \<times> json_str_t) res"

definition gen_ok :: "json_str_t res \<Rightarrow> gen_out" where
  "gen_ok r = rmap (Pair WM_SUCCESS) r"

definition guarded :: "json_str_t \<Rightarrow> json_str_t res \<Rightarrow> gen_out" where
  "guarded j r = (if verify_buffer_limit j then gen_ok r else Inr (- WM_E_JSON_OBUF, j))"

text \<open>A comma unless the character before is \<open>c\<close>.\<close>

definition comma_unless :: "char \<Rightarrow> json_str_t \<Rightarrow> json_str_t res" where
  "comma_unless c j =
     rbind (rev_skip (g_buff j) (g_free j - 1)) (\<lambda>d. if d \<noteq> c then put_char (CHR '','') j else Inr j)"

text \<open>A comma if the character before is \<open>c\<close>.\<close>

definition comma_after :: "char \<Rightarrow> json_str_t \<Rightarrow> json_str_t res" where
  "comma_after c j =
     rbind (rev_skip (g_buff j) (g_free j - 1)) (\<lambda>d. if d = c then put_char (CHR '','') j else Inr j)"

definition json_push_object :: "json_str_t \<Rightarrow> string \<Rightarrow> gen_out" where
  "json_push_object j name =
     guarded j (rbind (comma_unless (CHR ''{'') j) (print_text (in_quotes name @ '':{'')))"

definition json_push_array_object :: "json_str_t \<Rightarrow> string \<Rightarrow> gen_out" where
  "json_push_array_object j name =
     guarded j (rbind (comma_unless (CHR ''{'') j) (print_text (in_quotes name @ '':['')))"

definition json_start_object :: "json_str_t \<Rightarrow> gen_out" where
  "json_start_object j =
     guarded j (rbind (if g_free j \<noteq> 0 then comma_after (CHR ''}'') j else Inr j) (put_char (CHR ''{'')))"

definition json_close_object :: "json_str_t \<Rightarrow> gen_out" where
  "json_close_object j = guarded j (put_char (CHR ''}'') j)"

definition json_pop_array_object :: "json_str_t \<Rightarrow> gen_out" where
  "json_pop_array_object j = guarded j (put_char (CHR '']'') j)"

definition json_start_array :: "json_str_t \<Rightarrow> gen_out" where
  "json_start_array j = guarded j (rbind (comma_after (CHR '']'') j) (put_char (CHR ''['')))"

definition json_close_array :: "json_str_t \<Rightarrow> gen_out" where
  "json_close_array j = guarded j (put_char (CHR '']'') j)"

section \<open>Values\<close>

text \<open>\<open>%d\<close> of an \<open>int\<close>, \<open>%u\<close> and \<open>%llu\<close>; a \<open>%s\<close> of NULL is a fault.\<close>

definition print_d :: "int \<Rightarrow> string" where
  "print_d v = dec_int (to_signed 32 (nat (v mod 2 ^ 32)))"

definition print_u :: "nat \<Rightarrow> int \<Rightarrow> string" where
  "print_u w v = dec_nat (nat (v mod 2 ^ w))"

definition bool_text :: "int \<Rightarrow> string" where
  "bool_text v = (if v = 1 then ''true'' else ''false'')"

text \<open>The text of \<open>print_float\<close> without floats.\<close>

definition print_float :: string where
  "print_float = in_quotes ''unsupported''"

text \<open>
  What is printed for an element of an array; the other kinds print nothing.  \<open>value\<close> is an
  \<open>int\<close> here.
\<close>

definition element_text :: "string option \<Rightarrow> int \<Rightarrow> json_data_types \<Rightarrow> string option res" where
  "element_text str v data =
     (case data of
        JSON_VAL_STR \<Rightarrow> rmap (\<lambda>s. Some (in_quotes s)) (deref str)
      | JSON_VAL_INT \<Rightarrow> Inr (Some (print_d v))
      | JSON_VAL_FLOAT \<Rightarrow> Inr (Some print_float)
      | JSON_VAL_BOOL \<Rightarrow> Inr (Some (bool_text v))
      | _ \<Rightarrow> Inr None)"

definition json_set_array_value :: "json_str_t \<Rightarrow> string option \<Rightarrow> int \<Rightarrow> json_data_types \<Rightarrow> gen_out" where
  "json_set_array_value j str v data =
     rbind (verify_json_start (g_buff j)) (\<lambda>start.
       if \<not> start then Inr (WM_E_JSON_INVSTART, j)
       else guarded j (rbind (comma_unless (CHR ''['') j) (\<lambda>j1. rbind (element_text str v data) (\<lambda>t.
              (case t of None \<Rightarrow> set_free j1 | Some s \<Rightarrow> print_text s j1)))))"

text \<open>
  The value of a member.  \<open>JSON_VAL_OBJ\<close> cuts the given text at \<open>value\<close> for the time of the
  printing; the text is known up to its NUL, so a cut behind that is a fault.
\<close>

definition value_text :: "string option \<Rightarrow> int \<Rightarrow> json_data_types \<Rightarrow> string res" where
  "value_text str v data =
     (case data of
        JSON_VAL_STR \<Rightarrow> rmap in_quotes (deref str)
      | JSON_VAL_OBJ \<Rightarrow>
          rbind (deref str) (\<lambda>s. if 0 \<le> v \<and> v \<le> int (length s) then Inr (take (nat v) s) else Inl OutOfBounds)
      | JSON_VAL_INT \<Rightarrow> Inr (print_d v)
      | JSON_VAL_UINT \<Rightarrow> Inr (print_u 32 v)
      | JSON_VAL_UINT_64 \<Rightarrow> Inr (print_u 64 v)
      | JSON_VAL_FLOAT \<Rightarrow> Inr print_float
      | JSON_VAL_BOOL \<Rightarrow> Inr (bool_text v))"

text \<open>A float is printed by a second call behind its name.\<close>

definition print_member :: "string \<Rightarrow> string \<Rightarrow> json_data_types \<Rightarrow> json_str_t \<Rightarrow> json_str_t res" where
  "print_member name t data j =
     (if data = JSON_VAL_FLOAT
      then rbind (print_text (in_quotes name @ '':'') j) (print_text t)
      else print_text (in_quotes name @ '':'' @ t) j)"

definition json_set_object_value ::
  "json_str_t \<Rightarrow> string \<Rightarrow> string option \<Rightarrow> int \<Rightarrow> json_data_types \<Rightarrow> gen_out" where
  "json_set_object_value j name str v data =
     rbind (verify_json_start (g_buff j)) (\<lambda>start.
       if \<not> start then Inr (- WM_E_JSON_INVSTART, j)
       else guarded j (rbind (comma_unless (CHR ''{'') j) (\<lambda>j1.
              rbind (value_text str v data) (\<lambda>t. print_member name t data j1))))"

section \<open>The macros of the header\<close>

definition json_pop_object :: "json_str_t \<Rightarrow> gen_out" where
  "json_pop_object j = json_close_object j"

definition json_set_val_str :: "json_str_t \<Rightarrow> string \<Rightarrow> string option \<Rightarrow> gen_out" where
  "json_set_val_str j name v = json_set_object_value j name v 0 JSON_VAL_STR"

definition json_set_val_strobj :: "json_str_t \<Rightarrow> string \<Rightarrow> string option \<Rightarrow> int \<Rightarrow> gen_out" where
  "json_set_val_strobj j name v n = json_set_object_value j name v n JSON_VAL_OBJ"

definition json_set_val_int :: "json_str_t \<Rightarrow> string \<Rightarrow> int \<Rightarrow> gen_out" where
  "json_set_val_int j name v = json_set_object_value j name None v JSON_VAL_INT"

definition json_set_val_uint :: "json_str_t \<Rightarrow> string \<Rightarrow> int \<Rightarrow> gen_out" where
  "json_set_val_uint j name v = json_set_object_value j name None v JSON_VAL_UINT"

definition json_set_val_uint_64 :: "json_str_t \<Rightarrow> string \<Rightarrow> int \<Rightarrow> gen_out" where
  "json_set_val_uint_64 j name v = json_set_object_value j name None v JSON_VAL_UINT_64"

text \<open>The value of a float and its precision are not looked at.\<close>

definition json_set_val_float :: "json_str_t \<Rightarrow> string \<Rightarrow> gen_out" where
  "json_set_val_float j name = json_set_object_value j name None 0 JSON_VAL_FLOAT"

definition json_set_val_float_precision :: "json_str_t \<Rightarrow> string \<Rightarrow> gen_out" where
  "json_set_val_float_precision j name = json_set_object_value j name None 0 JSON_VAL_FLOAT"

definition json_set_val_bool :: "json_str_t \<Rightarrow> string \<Rightarrow> bool \<Rightarrow> gen_out" where
  "json_set_val_bool j name v =
     (if v then json_set_object_value j name None 1 JSON_VAL_BOOL
      else json_set_object_value j name None 0 JSON_VAL_BOOL)"

definition json_set_array_str :: "json_str_t \<Rightarrow> string option \<Rightarrow> gen_out" where
  "json_set_array_str j v = json_set_array_value j v 0 JSON_VAL_STR"

definition json_set_array_int :: "json_str_t \<Rightarrow> int \<Rightarrow> gen_out" where
  "json_set_array_int j v = json_set_array_value j None v JSON_VAL_INT"

definition json_set_array_float :: "json_str_t \<Rightarrow> gen_out" where
  "json_set_array_float j = json_set_array_value j None 0 JSON_VAL_FLOAT"

definition json_set_array_bool :: "json_str_t \<Rightarrow> bool \<Rightarrow> gen_out" where
  "json_set_array_bool j v =
     (if v then json_set_array_value j None 1 JSON_VAL_BOOL else json_set_array_value j None 0 JSON_VAL_BOOL)"

end
