(* ===== verification/Json_Gen_Props.thy ===== *)
theory Json_Gen_Props
  imports Json_Gen Json_Access_Props
begin

text \<open>
  The generator of \<open>json_generator.c\<close> appends to the text in its buffer: the operations on the
  buffer refine an appending of texts.  The texts it writes are read back by the tokenizer and
  the accessors of the same library.
\<close>

section \<open>The buffer as a text\<close>

text \<open>A buffer of \<open>len\<close> bytes that holds \<open>t\<close>, and the memory behind it.\<close>

definition gen_state :: "nat \<Rightarrow> string \<Rightarrow> string \<Rightarrow> json_str_t" where
  "gen_state len rest t =
     \<lparr>g_buff = t @ replicate (len - length t) NUL @ rest, g_len = int len, g_free = int (length t)\<rparr>"

abbreviation visible :: "char \<Rightarrow> bool" where
  "visible c \<equiv> 32 < code c"

definition first_visible :: "string \<Rightarrow> char" where
  "first_visible t = hd (filter visible t)"

definition last_visible :: "string \<Rightarrow> char" where
  "last_visible t = last (filter visible t)"

lemma put_char_state:
  "length t < len \<Longrightarrow> put_char c (gen_state len rest t) = Inr (gen_state len rest (t @ [c]))"
  by (cases "len - length t") (auto simp: put_char_def gen_state_def list_update_append)

lemma cstr_text: "NUL \<notin> set t \<Longrightarrow> 0 < k \<Longrightarrow> buf_str (t @ replicate k NUL @ rest) = Inr t"
  by (cases k) (auto simp: buf_str_def)

lemma set_free_state:
  "NUL \<notin> set t \<Longrightarrow> length t < len \<Longrightarrow>
     set_free \<lparr>g_buff = t @ replicate (len - length t) NUL @ rest, g_len = int len, g_free = f\<rparr> =
     Inr (gen_state len rest t)"
  by (simp add: set_free_def cstr_text gen_state_def)

lemma set_free_same:
  "NUL \<notin> set t \<Longrightarrow> length t < len \<Longrightarrow> set_free (gen_state len rest t) = Inr (gen_state len rest t)"
  unfolding gen_state_def [of len rest t] by (simp add: set_free_state) (simp add: gen_state_def)

lemma print_text_state:
  assumes "NUL \<notin> set t" "NUL \<notin> set s" "length t < len" "len < 2 ^ 31"
  shows "print_text s (gen_state len rest t) = Inr (gen_state len rest (take (len - 1) (t @ s)))"
proof -
  define out where "out = take (len - length t - 1) s"
  have n: "nat ((int len - int (length t)) mod 2 ^ 32) = len - length t"
    using assms(3,4) by (simp add: mod_pos_pos_trivial nat_diff_distrib)
  have cut: "take (len - 1) (t @ s) = t @ out" using assms(3) by (simp add: out_def)
  have short: "length (t @ out) < len" using assms(3) by (auto simp: out_def min_def)
  have tail: "replicate (len - length (t @ out)) NUL @ rest =
      NUL # drop (length out + 1) (replicate (len - length t) NUL @ rest)"
    using short by (cases "len - length (t @ out)") auto
  have "snprintf_free s (gen_state len rest t) =
      Inr \<lparr>g_buff = (t @ out) @ replicate (len - length (t @ out)) NUL @ rest, g_len = int len, g_free = int (length t)\<rparr>"
    unfolding tail snprintf_free_def gen_state_def Let_def json_str_t.select_convs nat_int n out_def [symmetric]
    using assms(3) short by simp
  moreover have "NUL \<notin> set (t @ out)" using assms(1,2) by (auto simp: out_def dest: in_set_takeD)
  ultimately show ?thesis
    unfolding print_text_def cut using set_free_state [of "t @ out" len rest "int (length t)"] short by simp
qed

lemma rev_skip_from_text:
  "filter visible t \<noteq> [] \<Longrightarrow> \<exists>k. rev_skip_from (t @ x) (length t - 1) = Inr k \<and> (t @ x) ! k = last_visible t"
proof (induction t arbitrary: x rule: rev_induct)
  case (snoc c t)
  show ?case
  proof (cases "visible c")
    case True
    then show ?thesis by (cases t) (auto simp: last_visible_def nth_append intro!: exI [of _ "length t"])
  next
    case False
    then have t: "filter visible t \<noteq> []" "last_visible (t @ [c]) = last_visible t"
      using snoc.prems by (simp_all add: last_visible_def)
    then obtain n where n: "length t = Suc n" by (cases t) auto
    show ?thesis using snoc.IH [OF t(1), of "c # x"] False n t(2) by (simp add: nth_append)
  qed
qed simp

lemma rev_skip_text:
  assumes "filter visible t \<noteq> []"
  shows "rev_skip (t @ x) (int (length t) - 1) = Inr (last_visible t)"
proof -
  obtain n where "length t = Suc n" using assms by (cases t) auto
  then show ?thesis using rev_skip_from_text [OF assms, of x] by (auto simp: rev_skip_def)
qed

lemma gen_skip_text:
  "filter visible t \<noteq> [] \<Longrightarrow>
     \<exists>k. gen_skip (y @ t @ x) (length y) = Inr k \<and> (y @ t @ x) ! k = first_visible t"
proof (induction t arbitrary: y)
  case (Cons c t)
  show ?case
  proof (cases "visible c")
    case True
    then show ?thesis
      by (subst gen_skip.simps) (auto simp: first_visible_def nth_append)
  next
    case False
    then have t: "filter visible t \<noteq> []" "first_visible (c # t) = first_visible t"
      using Cons.prems by (simp_all add: first_visible_def)
    show ?thesis using Cons.IH [OF t(1), of "y @ [c]"] False t(2)
      by (subst gen_skip.simps) (simp add: nth_append)
  qed
qed simp

lemma verify_start_text:
  "filter visible t \<noteq> [] \<Longrightarrow> verify_json_start (t @ x) = Inr (first_visible t = CHR ''{'')"
  using gen_skip_text [of t "[]" x] by (auto simp: verify_json_start_def)


section \<open>Operations\<close>

datatype gen_op =
    Start_object
  | Close_object
  | Push_object string
  | Push_array string
  | Pop_array
  | Start_array
  | Close_array
  | Element "string option" int json_data_types
  | Member string "string option" int json_data_types

fun gen_step :: "gen_op \<Rightarrow> json_str_t \<Rightarrow> gen_out" where
  "gen_step Start_object j = json_start_object j"
| "gen_step Close_object j = json_close_object j"
| "gen_step (Push_object name) j = json_push_object j name"
| "gen_step (Push_array name) j = json_push_array_object j name"
| "gen_step Pop_array j = json_pop_array_object j"
| "gen_step Start_array j = json_start_array j"
| "gen_step Close_array j = json_close_array j"
| "gen_step (Element str v data) j = json_set_array_value j str v data"
| "gen_step (Member name str v data) j = json_set_object_value j name str v data"

text \<open>
  The specification: what an operation prints, the comma before it, and the cut at the end of the
  buffer, which the two starting operations do not have.
\<close>

definition plain_value :: "string option \<Rightarrow> int \<Rightarrow> json_data_types \<Rightarrow> bool" where
  "plain_value str v data \<longleftrightarrow>
     (data \<in> {JSON_VAL_STR, JSON_VAL_OBJ} \<longrightarrow> (\<exists>s. str = Some s \<and> NUL \<notin> set s)) \<and>
     (data = JSON_VAL_OBJ \<longrightarrow> 0 \<le> v \<and> v \<le> int (length (the str)))"

fun good_op :: "gen_op \<Rightarrow> bool" where
  "good_op (Push_object name) = (NUL \<notin> set name)"
| "good_op (Push_array name) = (NUL \<notin> set name)"
| "good_op (Element str v data) = (data = JSON_VAL_STR \<longrightarrow> plain_value str v data)"
| "good_op (Member name str v data) = (NUL \<notin> set name \<and> plain_value str v data)"
| "good_op _ = True"

fun scalar_text :: "string option \<Rightarrow> int \<Rightarrow> json_data_types \<Rightarrow> string" where
  "scalar_text str v JSON_VAL_STR = in_quotes (the str)"
| "scalar_text str v JSON_VAL_OBJ = take (nat v) (the str)"
| "scalar_text str v JSON_VAL_INT = print_d v"
| "scalar_text str v JSON_VAL_UINT = print_u 32 v"
| "scalar_text str v JSON_VAL_UINT_64 = print_u 64 v"
| "scalar_text str v JSON_VAL_FLOAT = print_float"
| "scalar_text str v JSON_VAL_BOOL = bool_text v"

fun piece :: "gen_op \<Rightarrow> string" where
  "piece Start_object = ''{''"
| "piece Close_object = ''}''"
| "piece (Push_object name) = in_quotes name @ '':{''"
| "piece (Push_array name) = in_quotes name @ '':[''"
| "piece Pop_array = '']''"
| "piece Start_array = ''[''"
| "piece Close_array = '']''"
| "piece (Element str v data) =
     (if data \<in> {JSON_VAL_UINT, JSON_VAL_UINT_64, JSON_VAL_OBJ} then [] else scalar_text str v data)"
| "piece (Member name str v data) = in_quotes name @ '':'' @ scalar_text str v data"

fun comma :: "gen_op \<Rightarrow> string \<Rightarrow> string" where
  "comma Start_object t = (if t \<noteq> [] \<and> last_visible t = CHR ''}'' then '','' else [])"
| "comma Start_array t = (if last_visible t = CHR '']'' then '','' else [])"
| "comma (Push_object name) t = (if last_visible t = CHR ''{'' then [] else '','')"
| "comma (Push_array name) t = (if last_visible t = CHR ''{'' then [] else '','')"
| "comma (Member name str v data) t = (if last_visible t = CHR ''{'' then [] else '','')"
| "comma (Element str v data) t = (if last_visible t = CHR ''['' then [] else '','')"
| "comma _ t = []"

fun start_error :: "gen_op \<Rightarrow> int option" where
  "start_error (Element str v data) = Some WM_E_JSON_INVSTART"
| "start_error (Member name str v data) = Some (- WM_E_JSON_INVSTART)"
| "start_error _ = None"

definition text_step :: "nat \<Rightarrow> gen_op \<Rightarrow> string \<Rightarrow> int \<times> string" where
  "text_step len op t =
     (if start_error op \<noteq> None \<and> first_visible t \<noteq> CHR ''{'' then (the (start_error op), t)
      else if len \<le> length t + 1 then (- WM_E_JSON_OBUF, t)
      else (WM_SUCCESS,
            let u = t @ comma op t @ piece op
            in if op \<in> {Start_object, Start_array} then u else take (len - 1) u))"

section \<open>Every operation appends\<close>

lemma limit_state: "verify_buffer_limit (gen_state len rest t) \<longleftrightarrow> length t + 1 < len"
  by (auto simp: verify_buffer_limit_def gen_state_def)

lemma guarded_state:
  "guarded (gen_state len rest t) r =
     (if length t + 1 < len then gen_ok r else Inr (- WM_E_JSON_OBUF, gen_state len rest t))"
  by (simp add: guarded_def limit_state)

lemma comma_unless_state:
  "filter visible t \<noteq> [] \<Longrightarrow> length t < len \<Longrightarrow>
     comma_unless c (gen_state len rest t) =
     Inr (gen_state len rest (t @ (if last_visible t = c then [] else '','')))"
  using put_char_state [of t len "CHR '',''" rest] rev_skip_text [of t]
  by (simp add: comma_unless_def gen_state_def)

lemma comma_after_state:
  "filter visible t \<noteq> [] \<Longrightarrow> length t < len \<Longrightarrow>
     comma_after c (gen_state len rest t) =
     Inr (gen_state len rest (t @ (if last_visible t = c then '','' else [])))"
  using put_char_state [of t len "CHR '',''" rest] rev_skip_text [of t]
  by (simp add: comma_after_def gen_state_def)

lemma start_state:
  "filter visible t \<noteq> [] \<Longrightarrow>
     verify_json_start (g_buff (gen_state len rest t)) = Inr (first_visible t = CHR ''{'')"
  by (simp add: gen_state_def verify_start_text)

lemma in_quotes_NUL [simp]: "NUL \<in> set (in_quotes s) \<longleftrightarrow> NUL \<in> set s"
  by (simp add: in_quotes_def)

lemma numbers_NUL [simp]: "NUL \<notin> set (print_d v)" "NUL \<notin> set (print_u w v)" "NUL \<notin> set print_float" "NUL \<notin> set (bool_text v)"
  by (simp_all add: print_d_def print_u_def print_float_def bool_text_def)

lemma scalar_NUL: "plain_value str v data \<Longrightarrow> NUL \<notin> set (scalar_text str v data)"
  by (cases data) (auto simp: plain_value_def dest: in_set_takeD)

lemma value_text_scalar: "plain_value str v data \<Longrightarrow> value_text str v data = Inr (scalar_text str v data)"
  by (cases data) (auto simp: plain_value_def value_text_def)

lemma take_take_append: "take n (take n a @ b) = take n (a @ b)"
  by (cases "length a \<le> n") auto

lemma print_member_state:
  assumes "NUL \<notin> set t" "NUL \<notin> set name" "NUL \<notin> set s" "length t < len" "len < 2 ^ 31"
  shows "print_member name s data (gen_state len rest t) =
     Inr (gen_state len rest (take (len - 1) (t @ in_quotes name @ '':'' @ s)))"
proof (cases "data = JSON_VAL_FLOAT")
  case True
  let ?u = "take (len - 1) (t @ in_quotes name @ '':'')"
  have u: "NUL \<notin> set ?u" "length ?u < len" using assms by (auto dest: in_set_takeD)
  show ?thesis
    unfolding print_member_def if_P [OF True]
    using assms print_text_state [OF assms(1) _ assms(4,5), of "in_quotes name @ '':''" rest]
      print_text_state [OF u(1) assms(3) u(2) assms(5), of rest]
      take_take_append [of "len - 1" "t @ in_quotes name @ '':''" s]
    by simp
next
  case False
  then show ?thesis
    using assms print_text_state [OF assms(1) _ assms(4,5), of "in_quotes name @ '':'' @ s" rest]
    by (simp add: print_member_def)
qed

lemma gen_ok_Inr [simp]: "gen_ok (Inr j) = Inr (WM_SUCCESS, j)"
  by (simp add: gen_ok_def)

lemma text_step_full: "len \<le> length t + 1 \<Longrightarrow> start_error op = None \<Longrightarrow> text_step len op t = (- WM_E_JSON_OBUF, t)"
  by (simp add: text_step_def)

lemma text_step_room:
  assumes "length t + 1 < len" "start_error op = None \<or> first_visible t = CHR ''{''"
  shows "text_step len op t =
    (WM_SUCCESS, if op \<in> {Start_object, Start_array} then t @ comma op t @ piece op
                 else take (len - 1) (t @ comma op t @ piece op))"
  using assms by (auto simp: text_step_def)

text \<open>Opening a member, after the comma.\<close>

lemma push_state:
  assumes "filter visible t \<noteq> []" "NUL \<notin> set t" "NUL \<notin> set s" "length t + 1 < len" "len < 2 ^ 31"
  shows "rbind (comma_unless c (gen_state len rest t)) (print_text s) =
    Inr (gen_state len rest (take (len - 1) (t @ (if last_visible t = c then [] else '','') @ s)))"
  using assms print_text_state [of "t @ (if last_visible t = c then [] else '','')" s len rest]
  by (simp add: comma_unless_state)

lemma member_state:
  assumes "filter visible t \<noteq> []" "NUL \<notin> set t" "NUL \<notin> set name" "plain_value str v data"
    and "length t + 1 < len" "len < 2 ^ 31"
  shows "rbind (comma_unless c (gen_state len rest t)) (\<lambda>j1.
           rbind (value_text str v data) (\<lambda>s. print_member name s data j1)) =
    Inr (gen_state len rest (take (len - 1)
           (t @ (if last_visible t = c then [] else '','') @ in_quotes name @ '':'' @ scalar_text str v data)))"
  using assms print_member_state [of "t @ (if last_visible t = c then [] else '','')" name "scalar_text str v data" len data rest]
  by (simp add: comma_unless_state value_text_scalar scalar_NUL)

lemma element_text_piece:
  "good_op (Element str v data) \<Longrightarrow>
     element_text str v data =
     Inr (if data \<in> {JSON_VAL_UINT, JSON_VAL_UINT_64, JSON_VAL_OBJ} then None else Some (scalar_text str v data))"
  by (cases data) (auto simp: plain_value_def element_text_def)

lemma piece_NUL: "good_op op \<Longrightarrow> NUL \<notin> set (piece op)"
proof (cases op)
  case (Element str v data)
  then show "good_op op \<Longrightarrow> NUL \<notin> set (piece op)" by (cases data) (auto simp: plain_value_def)
qed (simp_all add: scalar_NUL)

lemma element_state:
  assumes "filter visible t \<noteq> []" "NUL \<notin> set t" "good_op (Element str v data)"
    and "length t + 1 < len" "len < 2 ^ 31"
  shows "rbind (comma_unless (CHR ''['') (gen_state len rest t)) (\<lambda>j1.
           rbind (element_text str v data) (\<lambda>s. case s of None \<Rightarrow> set_free j1 | Some s \<Rightarrow> print_text s j1)) =
    Inr (gen_state len rest (take (len - 1) (t @ comma (Element str v data) t @ piece (Element str v data))))"
proof -
  define u where "u = t @ comma (Element str v data) t"
  have u: "NUL \<notin> set u" "length u < len" using assms by (auto simp: u_def)
  have start: "comma_unless (CHR ''['') (gen_state len rest t) = Inr (gen_state len rest u)"
    using assms by (simp add: comma_unless_state u_def)
  have "take (len - 1) u = u" using u(2) by simp
  then have "rbind (element_text str v data) (\<lambda>s. case s of None \<Rightarrow> set_free (gen_state len rest u) | Some s \<Rightarrow> print_text s (gen_state len rest u)) =
      Inr (gen_state len rest (take (len - 1) (u @ piece (Element str v data))))"
    using print_text_state [OF u(1) piece_NUL [OF assms(3)] u(2) assms(5), of rest] set_free_same [OF u, of rest]
    unfolding element_text_piece [OF assms(3)] by (auto split: if_split_asm)
  then show ?thesis by (simp only: start rbind_Inr u_def append_assoc)
qed

lemma close_state:
  "length t + 1 < len \<Longrightarrow> put_char c (gen_state len rest t) = Inr (gen_state len rest (take (len - 1) (t @ [c])))"
  by (simp add: put_char_state)

lemma start_object_state:
  assumes "t = [] \<or> filter visible t \<noteq> []" "length t + 1 < len"
  shows "rbind (if g_free (gen_state len rest t) \<noteq> 0 then comma_after (CHR ''}'') (gen_state len rest t)
                else Inr (gen_state len rest t)) (put_char (CHR ''{'')) =
    Inr (gen_state len rest (t @ comma Start_object t @ piece Start_object))"
  using assms put_char_state [of t len _ rest] put_char_state [of "t @ '',''" len _ rest]
  by (auto simp: comma_after_state) (auto simp: gen_state_def)

lemma start_array_state:
  assumes "filter visible t \<noteq> []" "length t + 1 < len"
  shows "rbind (comma_after (CHR '']'') (gen_state len rest t)) (put_char (CHR ''['')) =
    Inr (gen_state len rest (t @ comma Start_array t @ piece Start_array))"
  using assms put_char_state [of t len _ rest] put_char_state [of "t @ '',''" len _ rest]
  by (auto simp: comma_after_state)

lemmas gen_defs = json_start_object_def json_close_object_def json_push_object_def
  json_push_array_object_def json_pop_array_object_def json_start_array_def json_close_array_def

lemma gen_step_text:
  assumes "good_op op" "NUL \<notin> set t" "length t \<le> len" "len < 2 ^ 31"
    and "filter visible t \<noteq> [] \<or> op = Start_object \<and> t = []"
  shows "gen_step op (gen_state len rest t) =
    Inr (fst (text_step len op t), gen_state len rest (snd (text_step len op t)))"
proof (cases "length t + 1 < len")
  case True
  note room = text_step_room [OF True, of op]
  note steps = gen_defs guarded_state push_state start_array_state close_state
  show ?thesis
  proof (cases op)
    case (Element str v data)
    then show ?thesis using assms room True element_state [of t str v data len rest]
      by (simp add: json_set_array_value_def start_state guarded_state text_step_def)
  next
    case (Member name str v data)
    then show ?thesis using assms room True member_state [of t name str v data len "CHR ''{''" rest]
      by (simp add: json_set_object_value_def start_state guarded_state text_step_def)
  next
    case Start_object
    then have shape: "t = [] \<or> filter visible t \<noteq> []" using assms(5) by blast
    then show ?thesis
      unfolding Start_object gen_step.simps json_start_object_def guarded_state if_P [OF True]
        start_object_state [OF shape True]
      using room Start_object by simp
  next
    case Close_object
    then show ?thesis using assms room True by (simp add: steps)
  next
    case (Push_object name)
    then show ?thesis using assms room True by (simp add: steps)
  next
    case (Push_array name)
    then show ?thesis using assms room True by (simp add: steps)
  next
    case Pop_array
    then show ?thesis using assms room True by (simp add: steps)
  next
    case Start_array
    then show ?thesis using assms room True by (simp add: steps)
  next
    case Close_array
    then show ?thesis using assms room True by (simp add: steps)
  qed
next
  case False
  then show ?thesis
    using assms by (cases op)
      (simp_all add: gen_defs guarded_state text_step_def start_state json_set_array_value_def json_set_object_value_def)
qed


section \<open>A sequence of operations\<close>

fun gen_run :: "gen_op list \<Rightarrow> json_str_t \<Rightarrow> (int list \<times> json_str_t) res" where
  "gen_run [] j = Inr ([], j)"
| "gen_run (op # ops) j =
     rbind (gen_step op j) (\<lambda>(r, j1). rmap (\<lambda>(rs, j2). (r # rs, j2)) (gen_run ops j1))"

fun text_run :: "nat \<Rightarrow> gen_op list \<Rightarrow> string \<Rightarrow> int list \<times> string" where
  "text_run len [] t = ([], t)"
| "text_run len (op # ops) t =
     (let (r, t1) = text_step len op t; (rs, t2) = text_run len ops t1 in (r # rs, t2))"

text \<open>What stays true of the text: it starts with the bracket, holds no NUL and fits the buffer.\<close>

definition document :: "nat \<Rightarrow> string \<Rightarrow> bool" where
  "document len t \<longleftrightarrow> NUL \<notin> set t \<and> length t \<le> len \<and> (\<exists>u. t = CHR ''{'' # u)"

lemma document_visible: "document len t \<Longrightarrow> filter visible t \<noteq> []"
  by (auto simp: document_def)

lemma comma_NUL [simp]: "NUL \<notin> set (comma op t)" and length_comma: "length (comma op t) \<le> 1"
  by (cases op; simp)+

lemma document_step:
  assumes "document len t" "good_op op"
  shows "document len (snd (text_step len op t))"
proof -
  note NULs = piece_NUL [OF assms(2)]
  obtain u where t: "t = CHR ''{'' # u" "NUL \<notin> set u" "length t \<le> len" using assms(1) by (auto simp: document_def)
  show ?thesis
  proof (cases "snd (text_step len op t) = t")
    case False
    then have room: "length t + 1 < len" by (auto simp: text_step_def split: if_splits)
    have "snd (text_step len op t) =
        (let u = t @ comma op t @ piece op in if op \<in> {Start_object, Start_array} then u else take (len - 1) u)"
      using False by (auto simp: text_step_def Let_def split: if_splits)
    moreover have "op \<in> {Start_object, Start_array} \<Longrightarrow> length (piece op) = 1" by auto
    ultimately show ?thesis
      using room t NULs length_comma [of op t]
      by (cases "len - 1") (auto simp: document_def Let_def dest: in_set_takeD)
  qed (use assms in simp)
qed

lemma gen_run_document:
  assumes "document len t" "list_all good_op ops" "len < 2 ^ 31"
  shows "gen_run ops (gen_state len rest t) =
      Inr (fst (text_run len ops t), gen_state len rest (snd (text_run len ops t))) \<and>
    document len (snd (text_run len ops t))"
  using assms
proof (induction ops arbitrary: t)
  case (Cons op ops)
  have op: "gen_step op (gen_state len rest t) =
      Inr (fst (text_step len op t), gen_state len rest (snd (text_step len op t)))"
    using Cons.prems document_visible [OF Cons.prems(1)] by (intro gen_step_text) (auto simp: document_def)
  show ?case
    using Cons.IH [OF document_step [OF Cons.prems(1), of op]] Cons.prems op
    by (simp add: case_prod_beta)
qed simp

lemma gen_run_from_start:
  assumes "2 \<le> len" "len \<le> length buff" "len < 2 ^ 31" "list_all good_op ops"
  defines "out \<equiv> text_run len (Start_object # ops) []"
  shows "rbind (json_str_init buff (int len)) (gen_run (Start_object # ops)) =
      Inr (fst out, gen_state len (drop len buff) (snd out))"
    and "document len (snd out)"
proof -
  have init: "json_str_init buff (int len) = Inr (gen_state len (drop len buff) [])"
    using assms(2) by (simp add: json_str_init_def gen_state_def)
  have first: "text_step len Start_object [] = (WM_SUCCESS, ''{'')" using assms(1) by (simp add: text_step_def)
  have step: "gen_step Start_object (gen_state len (drop len buff) []) =
      Inr (WM_SUCCESS, gen_state len (drop len buff) ''{'')"
    using gen_step_text [of Start_object "[]" len "drop len buff"] first assms(3) by simp
  have "document len ''{''" using assms(1) by (simp add: document_def)
  from gen_run_document [OF this assms(4,3), of "drop len buff"]
  show "rbind (json_str_init buff (int len)) (gen_run (Start_object # ops)) =
      Inr (fst out, gen_state len (drop len buff) (snd out))" and "document len (snd out)"
    unfolding out_def using init step first by (simp_all add: case_prod_beta)
qed

text \<open>
  C17. A sequence of calls of the JSON generator that starts with \<open>json_start_object\<close> appends to a
  text: every call returns what the specification says, the buffer holds the text of the
  specification followed by NULs, with nothing behind the given length changed, and that text
  starts with the opening bracket and is no longer than the buffer.
\<close>

theorem generator_refines:
  assumes "2 \<le> len" "len \<le> length buff" "len < 2 ^ 31" "list_all good_op ops"
  shows "rbind (json_str_init buff (int len)) (gen_run (Start_object # ops)) =
      (case text_run len (Start_object # ops) [] of (rs, t) \<Rightarrow> Inr (rs, gen_state len (drop len buff) t)) \<and>
    document len (snd (text_run len (Start_object # ops) []))"
  using gen_run_from_start [OF assms] by (simp add: case_prod_beta)

definition ex_ops :: "gen_op list" where
  "ex_ops = [Member ''a'' None 1 JSON_VAL_BOOL, Push_array ''b'', Element (Some ''long'') 0 JSON_VAL_STR, Close_array]"

theorem generator_refines_witness:
  "rbind (json_str_init (replicate 20 (CHR ''x'')) 18) (gen_run (Start_object # ex_ops)) =
     Inr ([0, 0, 0, 0, - 1011],
       gen_state 18 ''xx'' (''{'' @ in_quotes ''a'' @ '':true,'' @ in_quotes ''b'' @ '':['' @ CHR 0x22 # ''l''))"
proof -
  have "list_all good_op ex_ops" by (simp add: ex_ops_def plain_value_def)
  moreover have "text_run 18 (Start_object # ex_ops) [] =
      ([0, 0, 0, 0, - 1011], ''{'' @ in_quotes ''a'' @ '':true,'' @ in_quotes ''b'' @ '':['' @ CHR 0x22 # ''l'')"
    by (simp add: ex_ops_def text_step_def in_quotes_def first_visible_def last_visible_def bool_text_def
        WM_SUCCESS_def WM_E_JSON_OBUF_def)
  moreover have "drop 18 (replicate 20 (CHR ''x'')) = ''xx''" by code_simp
  ultimately show ?thesis
    using generator_refines [of 18 "replicate 20 (CHR ''x'')" ex_ops] by (simp only: length_replicate) simp
qed

text \<open>
  The two starting operations check for one free byte and may write two: behind a closing bracket
  they fill the last byte of the buffer too, and the text has no end.
\<close>

lemma start_unterminated:
  "rbind (json_str_init (replicate 4 (CHR ''x'')) 4) (gen_run [Start_object, Close_object, Start_object]) =
     Inr ([0, 0, 0], \<lparr>g_buff = ''{},{'', g_len = 4, g_free = 4\<rparr>)"
  "buf_str ''{},{'' = Inl OutOfBounds"
  by code_simp+

text \<open>The first call has to be \<open>json_start_object\<close>: \<open>json_start_array\<close> looks at the byte before the buffer.\<close>

lemma array_first: "rbind (json_str_init (replicate 4 NUL) 4) json_start_array = Inl OutOfBounds"
  by code_simp

text \<open>A value set before the document is started makes the check run through the NULs and out of the buffer.\<close>

lemma value_first:
  "rbind (json_str_init (replicate 4 NUL) 4) (\<lambda>j. json_set_val_int j ''a'' 1) = Inl OutOfBounds"
  by code_simp

text \<open>Outside a document a member and an element are refused with codes of different sign.\<close>

lemma refused_signs:
  "rbind (json_str_init (replicate 4 NUL) 4) (\<lambda>j. rbind (put_char (CHR ''['') j) (\<lambda>j. rmap fst (json_set_val_int j ''a'' 1))) =
     Inr (- WM_E_JSON_INVSTART)"
  "rbind (json_str_init (replicate 4 NUL) 4) (\<lambda>j. rbind (put_char (CHR ''['') j) (\<lambda>j. rmap fst (json_set_array_int j 1))) =
     Inr WM_E_JSON_INVSTART"
  by code_simp+

end
