(* ===== verification/Json_Gen_Roundtrip.thy ===== *)
theory Json_Gen_Roundtrip
  imports Json_Gen_Props
begin

text \<open>
  The round trip of the library: an object of strings, numbers and truth values that the generator
  writes is taken apart by the tokenizer into the expected tokens, and the accessors read back every
  value.
\<close>

section \<open>Objects\<close>

datatype gval = GStr string | GInt int | GBool bool

type_synonym members = "(string \<times> gval) list"

fun member_op :: "string \<times> gval \<Rightarrow> gen_op" where
  "member_op (k, GStr s) = Member k (Some s) 0 JSON_VAL_STR"
| "member_op (k, GInt i) = Member k None i JSON_VAL_INT"
| "member_op (k, GBool b) = Member k None (if b then 1 else 0) JSON_VAL_BOOL"

fun val_text :: "gval \<Rightarrow> string" where
  "val_text (GStr s) = in_quotes s"
| "val_text (GInt i) = dec_int i"
| "val_text (GBool b) = (if b then ''true'' else ''false'')"

definition entry_text :: "string \<times> gval \<Rightarrow> string" where
  "entry_text m = in_quotes (fst m) @ CHR '':'' # val_text (snd m)"

fun members_text :: "members \<Rightarrow> string" where
  "members_text [] = []"
| "members_text [m] = entry_text m"
| "members_text (m # ms) = entry_text m @ CHR '','' # members_text ms"

definition doc_text :: "members \<Rightarrow> string" where
  "doc_text ms = CHR ''{'' # members_text ms @ ''}''"

definition plain_text :: "string \<Rightarrow> bool" where
  "plain_text s \<longleftrightarrow> NUL \<notin> set s \<and> CHR 0x22 \<notin> set s \<and> CHR 0x5C \<notin> set s"

fun plain_val :: "gval \<Rightarrow> bool" where
  "plain_val (GStr s) = plain_text s"
| "plain_val (GInt i) = (- (2 ^ 31) \<le> i \<and> i < 2 ^ 31)"
| "plain_val (GBool b) = True"

definition plain_member :: "string \<times> gval \<Rightarrow> bool" where
  "plain_member m \<longleftrightarrow> plain_text (fst m) \<and> plain_val (snd m)"

section \<open>The text written\<close>

lemma print_d_int: "- (2 ^ 31) \<le> i \<Longrightarrow> i < 2 ^ 31 \<Longrightarrow> print_d i = dec_int i"
proof -
  assume i: "- (2 ^ 31) \<le> i" "i < 2 ^ 31"
  show "print_d i = dec_int i"
  proof (cases "0 \<le> i")
    case True
    then show ?thesis using i by (simp add: print_d_def to_signed_def mod_pos_pos_trivial nat_less_iff)
  next
    case False
    then have "i mod 2 ^ 32 = i + 2 ^ 32" using i by (intro int_mod_pos_eq [where q = "- 1"]) auto
    then show ?thesis using False i by (simp add: print_d_def to_signed_def nat_less_iff)
  qed
qed

lemma piece_member: "plain_val (snd m) \<Longrightarrow> piece (member_op m) = entry_text m"
  by (cases m; cases "snd m") (auto simp: entry_text_def print_d_int bool_text_def)

lemma good_member: "plain_member m \<Longrightarrow> good_op (member_op m)"
  by (cases m; cases "snd m") (auto simp: plain_member_def plain_text_def plain_value_def)

lemma comma_member: "comma (member_op m) t = (if last_visible t = CHR ''{'' then [] else '','')"
  by (cases m; cases "snd m") auto

lemma member_op_shape [simp]:
  "member_op m \<noteq> Start_object" "member_op m \<noteq> Start_array" "start_error (member_op m) = Some (- WM_E_JSON_INVSTART)"
  by (cases m; cases "snd m"; simp)+

lemma last_visible_append: "visible (last s) \<Longrightarrow> s \<noteq> [] \<Longrightarrow> last_visible (t @ s) = last s"
  by (cases s rule: rev_cases) (simp_all add: last_visible_def)

lemma last_dec_nat: "is_digit (last (dec_nat n))"
  using dec_nat_digits [of "last (dec_nat n)" n] by simp

lemma last_member: "last (entry_text m) \<noteq> CHR ''{'' \<and> visible (last (entry_text m))"
proof (cases "snd m")
  case (GInt i)
  have "is_digit (last (dec_int i))" using last_dec_nat by (simp add: dec_int_def)
  then show ?thesis using GInt by (auto simp: entry_text_def dec_int_def is_digit_def last_append)
qed (auto simp: entry_text_def in_quotes_def)

lemma entry_text_nonempty [simp]: "entry_text m \<noteq> []"
  by (simp add: entry_text_def in_quotes_def)

lemma last_visible_member: "last_visible (t @ entry_text m) \<noteq> CHR ''{''"
  using last_member [of m] by (simp add: last_visible_append)

lemma member_step:
  assumes "plain_member m" "first_visible t = CHR ''{''"
    and "length (t @ comma (member_op m) t @ entry_text m) < len"
  shows "text_step len (member_op m) t = (WM_SUCCESS, t @ comma (member_op m) t @ entry_text m)"
proof -
  have "length (entry_text m) \<noteq> 0" by simp
  then have "length t + 1 < len" using assms(3) by (cases "entry_text m") auto
  then show ?thesis
    using assms text_step_room [of t len "member_op m"] piece_member [of m] by (simp add: plain_member_def)
qed

lemma first_visible_append [simp]: "filter visible t \<noteq> [] \<Longrightarrow> first_visible (t @ u) = first_visible t"
  by (simp add: first_visible_def)

lemma first_visible_brace [simp]: "first_visible (CHR ''{'' # u) = CHR ''{''"
  by (simp add: first_visible_def)

text \<open>All members but the first come with a comma.\<close>

definition rest_text :: "members \<Rightarrow> string" where
  "rest_text ms = concat (map (\<lambda>m. CHR '','' # entry_text m) ms)"

lemma members_text_Cons: "members_text (m # ms) = entry_text m @ rest_text ms"
  by (induction ms arbitrary: m) (simp_all add: rest_text_def)

lemma rest_run:
  assumes "list_all plain_member ms" "filter visible t \<noteq> []" "first_visible t = CHR ''{''"
    and "last_visible t \<noteq> CHR ''{''" "length (t @ rest_text ms @ ''}'') < len"
  shows "text_run len (map member_op ms @ [Close_object]) t =
    (replicate (length ms + 1) WM_SUCCESS, t @ rest_text ms @ ''}'')"
  using assms
proof (induction ms arbitrary: t)
  case Nil
  then show ?case by (simp add: rest_text_def text_step_def)
next
  case (Cons m ms)
  let ?t = "t @ CHR '','' # entry_text m"
  have shape: "rest_text (m # ms) = CHR '','' # entry_text m @ rest_text ms" by (simp add: rest_text_def)
  have "text_step len (member_op m) t = (WM_SUCCESS, ?t)"
    using Cons.prems member_step [of m t len] shape by (simp add: comma_member)
  moreover have "text_run len (map member_op ms @ [Close_object]) ?t =
      (replicate (length ms + 1) WM_SUCCESS, ?t @ rest_text ms @ ''}'')"
    using Cons.prems shape last_visible_member [of "t @ '',''" m] by (intro Cons.IH) simp_all
  ultimately show ?case using shape by simp
qed

lemma object_run:
  assumes "list_all plain_member ms" "length (doc_text ms) < len"
  shows "text_run len (Start_object # map member_op ms @ [Close_object]) [] =
    (replicate (length ms + 2) WM_SUCCESS, doc_text ms)"
proof -
  have start: "text_step len Start_object [] = (WM_SUCCESS, ''{'')"
    using assms(2) by (simp add: text_step_def doc_text_def)
  have brace: "filter visible ''{'' \<noteq> []" "first_visible ''{'' = CHR ''{''" "last_visible ''{'' = CHR ''{''"
    by (simp_all add: first_visible_def last_visible_def)
  show ?thesis
  proof (cases ms)
    case Nil
    then show ?thesis using start brace assms(2) by (simp add: text_step_def doc_text_def)
  next
    case (Cons m ns)
    have shape: "doc_text ms = ''{'' @ entry_text m @ rest_text ns @ ''}''"
      by (simp add: doc_text_def Cons members_text_Cons)
    have "text_step len (member_op m) ''{'' = (WM_SUCCESS, ''{'' @ entry_text m)"
      using assms Cons shape brace member_step [of m "''{''" len] by (simp add: comma_member)
    moreover have "text_run len (map member_op ns @ [Close_object]) (''{'' @ entry_text m) =
        (replicate (length ns + 1) WM_SUCCESS, (''{'' @ entry_text m) @ rest_text ns @ ''}'')"
      using assms Cons shape brace last_visible_member [of "''{''" m] by (intro rest_run) simp_all
    ultimately show ?thesis using Cons shape start by simp
  qed
qed

section \<open>The tokens\<close>

definition leaf :: "u8 \<Rightarrow> nat \<Rightarrow> nat \<Rightarrow> jsontok" where
  "leaf ty s e = \<lparr>t_type = ty, t_size = 0, t_start = int s, t_end = int e, t_parent = 0\<rparr>"

definition root_token :: "nat \<Rightarrow> int \<Rightarrow> int \<Rightarrow> jsontok" where
  "root_token n e par = \<lparr>t_type = JSMN_OBJECT, t_size = of_nat n, t_start = 0, t_end = e, t_parent = par\<rparr>"

text \<open>The tokenizer at position \<open>q\<close> inside the object, behind the leaves \<open>ds\<close>.\<close>

definition inside :: "nat \<Rightarrow> jsontok list \<Rightarrow> jsontok list \<Rightarrow> jstate" where
  "inside q ds rest =
     (\<lparr>j_pos = q, j_toknext = Suc (length ds), j_toksuper = 0\<rparr>,
      Some (root_token (length ds) (- 1) (- 1) # ds @ rest), int (Suc (length ds)))"

fun val_token :: "nat \<Rightarrow> gval \<Rightarrow> jsontok" where
  "val_token q (GStr s) = leaf JSMN_STRING (q + 1) (q + 1 + length s)"
| "val_token q v = leaf JSMN_PRIMITIVE q (q + length (val_text v))"

definition member_tokens :: "nat \<Rightarrow> string \<times> gval \<Rightarrow> jsontok list" where
  "member_tokens q m =
     [leaf JSMN_STRING (q + 1) (q + 1 + length (fst m)), val_token (q + length (fst m) + 3) (snd m)]"

fun members_tokens :: "nat \<Rightarrow> members \<Rightarrow> jsontok list" where
  "members_tokens q [] = []"
| "members_tokens q (m # ms) = member_tokens q m @ members_tokens (q + length (entry_text m) + 1) ms"

lemma leaf_inside:
  assumes "Suc (length ds) < num" "inside q ds (r # rest) = (p, tokens, count)"
  shows "rbind (leaf_finish ty s e pos num p tokens) (\<lambda>(ret, p, tokens).
           if ret < 0 then Inr (Some ret, p, tokens, count)
           else rmap (\<lambda>tokens'. (None, p, tokens', count + 1)) (bump_tokens (j_toksuper p) tokens)) =
    Inr (None, inside pos (ds @ [leaf ty s e]) rest)"
  using assms
  by (auto simp: inside_def leaf_finish_def jsmn_alloc_token_def jsmn_fill_token_def bump_tokens_def bump_size_def
      root_token_def leaf_def nth_append list_update_append)

section \<open>The turns of the tokenizer\<close>

lemma js_at_text: "js = pre @ c # post \<Longrightarrow> js_at js (length pre) = Inr c"
  by (simp add: js_at_def)

lemma plain_char: "c \<in> set s \<Longrightarrow> plain_text s \<Longrightarrow> c \<noteq> NUL \<and> c \<noteq> CHR 0x22 \<and> c \<noteq> CHR 0x5C"
  by (auto simp: plain_text_def)

lemma string_end_plain:
  "js = pre @ s @ CHR 0x22 # post \<Longrightarrow> plain_text s \<Longrightarrow>
     string_end js (length js) (length pre) = Inr (Inr (length pre + length s))"
proof (induction s arbitrary: pre)
  case Nil
  then show ?case by (subst string_end.simps) (simp add: js_at_text [of js pre _ post])
next
  case (Cons c s)
  have c: "c \<noteq> NUL" "c \<noteq> CHR 0x22" "c \<noteq> CHR 0x5C" using plain_char [of c "c # s"] Cons.prems(2) by auto
  have "string_end js (length js) (length (pre @ [c])) = Inr (Inr (length (pre @ [c]) + length s))"
    using Cons.prems by (intro Cons.IH) (auto simp: plain_text_def)
  then show ?case
    using Cons.prems(1) c by (subst string_end.simps) (simp add: js_at_text [of js pre c])
qed

lemma primitive_end_plain:
  "js = pre @ s @ c # post \<Longrightarrow> prim_stop c \<Longrightarrow> \<forall>d \<in> set s. \<not> prim_stop d \<and> \<not> prim_bad d \<Longrightarrow>
     primitive_end js (length js) (length pre) = Inr (Inr (length pre + length s))"
proof (induction s arbitrary: pre)
  case Nil
  have "c \<noteq> NUL" using Nil(2) by (auto simp: prim_stop_def)
  then show ?case using Nil by (subst primitive_end.simps) (simp add: js_at_text [of js pre _ post])
next
  case (Cons d s)
  have d: "d \<noteq> NUL" "\<not> prim_stop d" "\<not> prim_bad d" using Cons.prems(3) by (auto simp: prim_bad_def)
  have "primitive_end js (length js) (length (pre @ [d])) = Inr (Inr (length (pre @ [d]) + length s))"
    using Cons.prems by (intro Cons.IH) auto
  then show ?case
    using Cons.prems(1) d by (subst primitive_end.simps) (simp add: js_at_text [of js pre d])
qed

lemma inside_step:
  assumes "js = pre @ c # post" "c \<noteq> NUL"
    and "parse_turn js (length js) num c (inside (length pre) ds rest) = Some (Inr (None, inside q ds' rest'))"
  shows "parse_loop js (length js) num (inside (length pre) ds rest) =
    parse_loop js (length js) num (inside (Suc q) ds' rest')"
  using assms(3) js_at_text [OF assms(1)] assms(1,2)
  unfolding inside_def by (subst parse_loop.simps) simp

lemma inside_blank:
  assumes "js = pre @ c # post" "c \<in> {CHR '':'', CHR '',''}"
  shows "parse_loop js (length js) num (inside (length pre) ds rest) =
    parse_loop js (length js) num (inside (Suc (length pre)) ds rest)"
  using assms by (intro inside_step) (auto simp: parse_turn_def inside_def)

lemma inside_string:
  assumes "js = pre @ in_quotes s @ post" "plain_text s" "Suc (length ds) < num"
  shows "parse_loop js (length js) num (inside (length pre) ds (r # rest)) =
    parse_loop js (length js) num (inside (length pre + length s + 2)
      (ds @ [leaf JSMN_STRING (length pre + 1) (length pre + 1 + length s)]) rest)"
proof -
  obtain p tokens count where state: "inside (length pre) ds (r # rest) = (p, tokens, count)" by (cases "inside (length pre) ds (r # rest)")
  then have pos: "j_pos p = length pre" by (auto simp: inside_def)
  have js: "js = (pre @ [CHR 0x22]) @ s @ CHR 0x22 # post" using assms(1) by (simp add: in_quotes_def)
  have "string_end js (length js) (length pre + 1) = Inr (Inr (length pre + 1 + length s))"
    using string_end_plain [OF js assms(2)] by simp
  then have turn: "parse_turn js (length js) num (CHR 0x22) (p, tokens, count) =
      Some (Inr (None, inside (length pre + 1 + length s) (ds @ [leaf JSMN_STRING (length pre + 1) (length pre + 1 + length s)]) rest))"
    using leaf_inside [OF assms(3) state] pos
    by (simp add: parse_turn_def leaf_turn_def jsmn_parse_string_def Let_def)
  have "js = pre @ CHR 0x22 # s @ CHR 0x22 # post" using js by simp
  from inside_step [OF this _ turn [folded state]] show ?thesis by simp
qed

lemma inside_primitive:
  assumes "js = pre @ s @ c # post" "prim_stop c" "\<forall>d \<in> set s. \<not> prim_stop d \<and> \<not> prim_bad d"
    and "s \<noteq> []" "prim_first (hd s)" "Suc (length ds) < num"
  shows "parse_loop js (length js) num (inside (length pre) ds (r # rest)) =
    parse_loop js (length js) num (inside (length pre + length s)
      (ds @ [leaf JSMN_PRIMITIVE (length pre) (length pre + length s)]) rest)"
proof -
  obtain p tokens count where state: "inside (length pre) ds (r # rest) = (p, tokens, count)" by (cases "inside (length pre) ds (r # rest)")
  then have pos: "j_pos p = length pre" by (auto simp: inside_def)
  obtain d s' where s: "s = d # s'" using assms(4) by (cases s) auto
  have d: "d \<noteq> NUL" "d \<notin> {CHR ''{'', CHR ''['', CHR ''}'', CHR '']'', CHR 0x22, CHR 0x09, CHR 0x0D, CHR 0x0A, CHR '':'', CHR '','', CHR '' ''}"
    using assms(5) s by (auto simp: prim_first_def)
  have turn: "parse_turn js (length js) num d (p, tokens, count) =
      Some (Inr (None, inside (length pre + length s - 1) (ds @ [leaf JSMN_PRIMITIVE (length pre) (length pre + length s)]) rest))"
    using leaf_inside [OF assms(6) state] pos primitive_end_plain [OF assms(1-3)] d assms(5) s
    by (simp add: parse_turn_def leaf_turn_def jsmn_parse_primitive_def Let_def)
  have "js = pre @ d # s' @ c # post" using assms(1) s by simp
  from inside_step [OF this d(1) turn [folded state]] show ?thesis using s by simp
qed

lemma dec_nat_chars: "c \<in> set (dec_nat n) \<Longrightarrow> \<not> prim_stop c \<and> \<not> prim_bad c \<and> prim_first c"
  using dec_nat_digits [of c n] by (auto simp: is_digit_def prim_stop_def prim_bad_def prim_first_def)

lemma primitive_chars:
  assumes "\<And>s. v \<noteq> GStr s"
  shows "\<forall>d \<in> set (val_text v). \<not> prim_stop d \<and> \<not> prim_bad d" "prim_first (hd (val_text v))" "val_text v \<noteq> []"
proof -
  have hd_nat: "prim_first (hd (dec_nat n))" for n using dec_nat_chars [of "hd (dec_nat n)" n] by simp
  show "\<forall>d \<in> set (val_text v). \<not> prim_stop d \<and> \<not> prim_bad d" "prim_first (hd (val_text v))" "val_text v \<noteq> []"
    using assms hd_nat
    by (cases v; auto simp: dec_int_def prim_stop_def prim_bad_def prim_first_def dest!: dec_nat_chars)+
qed

lemma inside_value:
  assumes "js = pre @ val_text v @ c # post" "plain_val v" "prim_stop c" "Suc (length ds) < num"
  shows "parse_loop js (length js) num (inside (length pre) ds (r # rest)) =
    parse_loop js (length js) num (inside (length pre + length (val_text v)) (ds @ [val_token (length pre) v]) rest)"
proof (cases "\<exists>s. v = GStr s")
  case True
  then show ?thesis using assms inside_string [of js pre _ "c # post" ds num r rest] by (auto simp: in_quotes_def)
next
  case False
  then have "val_token (length pre) v = leaf JSMN_PRIMITIVE (length pre) (length pre + length (val_text v))"
    by (cases v) auto
  then show ?thesis
    using inside_primitive [OF assms(1,3) primitive_chars(1) primitive_chars(3,2) assms(4)] False by auto
qed

lemma inside_member:
  assumes "js = pre @ entry_text m @ c # post" "plain_member m" "prim_stop c" "Suc (length ds) + 1 < num"
  shows "parse_loop js (length js) num (inside (length pre) ds (r1 # r2 # rest)) =
    parse_loop js (length js) num
      (inside (length pre + length (entry_text m)) (ds @ member_tokens (length pre) m) rest)"
proof -
  obtain k v where m: "m = (k, v)" by (cases m)
  let ?key = "leaf JSMN_STRING (length pre + 1) (length pre + 1 + length k)"
  have js: "js = pre @ in_quotes k @ CHR '':'' # val_text v @ c # post" using assms(1) m by (simp add: entry_text_def)
  have plain: "plain_text k" "plain_val v" using assms(2) m by (auto simp: plain_member_def)
  have key: "parse_loop js (length js) num (inside (length pre) ds (r1 # r2 # rest)) =
      parse_loop js (length js) num (inside (length (pre @ in_quotes k)) (ds @ [?key]) (r2 # rest))"
    using inside_string [OF js plain(1), of ds num r1 "r2 # rest"] assms(4) by (simp add: in_quotes_def)
  have colon: "parse_loop js (length js) num (inside (length (pre @ in_quotes k)) (ds @ [?key]) (r2 # rest)) =
      parse_loop js (length js) num (inside (length (pre @ in_quotes k @ '':'')) (ds @ [?key]) (r2 # rest))"
    using inside_blank [of js "pre @ in_quotes k" "CHR '':''" "val_text v @ c # post" num "ds @ [?key]" "r2 # rest"] js by simp
  have "js = (pre @ in_quotes k @ '':'') @ val_text v @ c # post" using js by simp
  from inside_value [OF this plain(2) assms(3), of "ds @ [?key]" num r2 rest] show ?thesis
    using assms(4) key colon by (simp add: m entry_text_def member_tokens_def in_quotes_def add.commute add.left_commute numeral_3_eq_3)
qed

lemma inside_members:
  assumes "js = pre @ members_text ms @ ''}''" "list_all plain_member ms" "length ds + 2 * length ms < num"
    and "length old = 2 * length ms"
  shows "parse_loop js (length js) num (inside (length pre) ds (old @ rest)) =
    parse_loop js (length js) num
      (inside (length pre + length (members_text ms)) (ds @ members_tokens (length pre) ms) rest)"
  using assms
proof (induction ms arbitrary: pre ds old rule: members_text.induct)
  case (2 m)
  then obtain r1 r2 where "old = [r1, r2]" by (auto simp: length_Suc_conv numeral_2_eq_2)
  then show ?case using 2 inside_member [of js pre m "CHR ''}''" "[]" ds num r1 r2 rest]
    by (simp add: prim_stop_def)
next
  case (3 m m2 ms)
  let ?ms = "m2 # ms" and ?pre = "pre @ entry_text m"
  obtain r1 r2 old' where old: "old = r1 # r2 # old'" "length old' = 2 * length ?ms"
    using "3.prems"(4) by (cases old; cases "tl old") auto
  have js: "js = pre @ entry_text m @ CHR '','' # members_text ?ms @ ''}''" using "3.prems"(1) by simp
  have "parse_loop js (length js) num (inside (length pre) ds (old @ rest)) =
      parse_loop js (length js) num (inside (length ?pre) (ds @ member_tokens (length pre) m) (old' @ rest))"
    using inside_member [OF js, of ds num r1 r2 "old' @ rest"] "3.prems" old by (simp add: prim_stop_def)
  also have "\<dots> = parse_loop js (length js) num
      (inside (length (?pre @ '','')) (ds @ member_tokens (length pre) m) (old' @ rest))"
    using inside_blank [of js ?pre "CHR '',''" "members_text ?ms @ ''}''"] js by simp
  also have "\<dots> = parse_loop js (length js) num
      (inside (length (?pre @ '','') + length (members_text ?ms))
        ((ds @ member_tokens (length pre) m) @ members_tokens (length (?pre @ '','')) ?ms) rest)"
    using "3.prems" old js by (intro "3.IH") (simp_all add: member_tokens_def)
  finally show ?case by (simp add: add.assoc)
qed simp

section \<open>Opening and closing the object\<close>

definition object_tokens :: "members \<Rightarrow> jsontok list" where
  "object_tokens ms = root_token (2 * length ms) (int (length (doc_text ms))) (- 1) # members_tokens 1 ms"

lemma length_members_tokens [simp]: "length (members_tokens q ms) = 2 * length ms"
  by (induction ms arbitrary: q) (simp_all add: member_tokens_def)

lemma val_token_closed: "t_end (val_token q v) \<noteq> - 1 \<and> t_parent (val_token q v) = 0"
  by (cases v) (simp_all add: leaf_def)

lemma members_tokens_closed:
  "t \<in> set (members_tokens q ms) \<Longrightarrow> \<not> is_open t \<and> t_parent t = 0"
  by (induction ms arbitrary: q)
    (auto simp: member_tokens_def is_open_def val_token_closed, auto simp: leaf_def)

lemma open_object:
  assumes "js = CHR ''{'' # post" "0 < num"
  shows "parse_loop js (length js) num (jsmn_init, Some (r # rest), 0) =
    parse_loop js (length js) num (inside 1 [] rest)"
proof -
  have "parse_turn js (length js) num (CHR ''{'') (jsmn_init, Some (r # rest), 0) =
      Some (Inr (None, inside 0 [] rest))"
    using assms by (simp add: parse_turn_def open_turn_def jsmn_init_def jsmn_alloc_token_def bump_size_def inside_def root_token_def)
  then show ?thesis using js_at_text [of js "[]" "CHR ''{''" post] assms(1)
    unfolding inside_def by (subst parse_loop.simps) (simp add: jsmn_init_def)
qed

lemma close_chain:
  assumes "\<forall>t \<in> set ds. \<not> is_open t \<and> t_parent t = 0" "is_open r" "t_type r = ty" "2 \<le> k"
    and "ds \<noteq> []"
  shows "close_loop k ty p (r # ds @ rest) (length ds) =
    Some (Inr (Some (p\<lparr>j_toksuper := t_parent r\<rparr>, r\<lparr>t_end := int (j_pos p) + 1\<rparr> # ds @ rest)))"
proof -
  obtain k' where k: "k = Suc (Suc k')" using assms(4) by (metis Suc_le_D numeral_2_eq_2 Suc_le_mono)
  show ?thesis
  proof (cases ds rule: rev_cases)
    case (snoc ds' d)
    then have "(r # ds @ rest) ! length ds = d" by (simp add: nth_append)
    then show ?thesis using assms k snoc by (simp add: Let_def)
  qed (use assms k in \<open>simp add: Let_def\<close>)
qed

lemma close_object:
  assumes "js = pre @ ''}''" "\<forall>t \<in> set ds. \<not> is_open t \<and> t_parent t = 0"
  shows "parse_loop js (length js) num (inside (length pre) ds rest) =
    Some (Inr (None, \<lparr>j_pos = length js, j_toknext = Suc (length ds), j_toksuper = - 1\<rparr>,
      Some (root_token (length ds) (int (length js)) (- 1) # ds @ rest), int (Suc (length ds))))"
proof -
  let ?p = "\<lparr>j_pos = length pre, j_toknext = Suc (length ds), j_toksuper = 0\<rparr>"
  let ?r = "root_token (length ds) (- 1) (- 1)"
  have r: "is_open ?r" "t_type ?r = JSMN_OBJECT" by (simp_all add: is_open_def root_token_def)
  have "close_loop (Suc (length ds)) JSMN_OBJECT ?p (?r # ds @ rest) (length ds) =
      Some (Inr (Some (?p\<lparr>j_toksuper := - 1\<rparr>, root_token (length ds) (int (length js)) (- 1) # ds @ rest)))"
  proof (cases "ds = []")
    case False
    then have "2 \<le> Suc (length ds)" by (cases ds) auto
    from close_chain [OF assms(2) r this False, of ?p rest] show ?thesis using assms(1) by (simp add: root_token_def)
  qed (use r assms(1) in \<open>simp add: Let_def root_token_def\<close>)
  then have turn: "parse_turn js (length js) num (CHR ''}'') (inside (length pre) ds rest) =
      Some (Inr (None, ?p\<lparr>j_toksuper := - 1\<rparr>, Some (root_token (length ds) (int (length js)) (- 1) # ds @ rest), int (Suc (length ds))))"
    by (simp add: parse_turn_def close_turn_def inside_def)
  have at: "js_at js (length pre) = Inr (CHR ''}'')" using js_at_text [of js pre "CHR ''}''" "[]"] assms(1) by simp
  have stop: "parse_loop js (length js) num (\<lparr>j_pos = length js, j_toknext = n, j_toksuper = s\<rparr>, toks, c) =
      Some (Inr (None, \<lparr>j_pos = length js, j_toknext = n, j_toksuper = s\<rparr>, toks, c))" for n s toks c
    by (subst parse_loop.simps) simp
  show ?thesis
    using turn at assms(1) stop unfolding inside_def by (subst parse_loop.simps) simp
qed

lemma jsmn_parse_object:
  assumes "list_all plain_member ms" "2 * length ms < num" "num \<le> length toks"
  shows "jsmn_parse (doc_text ms) (length (doc_text ms)) num jsmn_init (Some toks) =
    Some (Inr (int (2 * length ms + 1),
      \<lparr>j_pos = length (doc_text ms), j_toknext = 2 * length ms + 1, j_toksuper = - 1\<rparr>,
      Some (object_tokens ms @ drop (2 * length ms + 1) toks)))"
proof -
  let ?js = "doc_text ms" and ?ds = "members_tokens 1 ms"
  obtain r old rest where toks: "toks = r # old @ rest" "length old = 2 * length ms"
    using assms(2,3) by (cases toks) (auto intro!: that [of _ "take (2 * length ms) (tl toks)" "drop (2 * length ms) (tl toks)"])
  have "parse_loop ?js (length ?js) num (jsmn_init, Some toks, 0) =
      parse_loop ?js (length ?js) num (inside (length ''{'') [] (old @ rest))"
    using open_object [of ?js _ num r "old @ rest"] assms(2) toks by (simp add: doc_text_def)
  also have "\<dots> = parse_loop ?js (length ?js) num (inside (length (CHR ''{'' # members_text ms)) ?ds rest)"
    using inside_members [of ?js "''{''" ms "[]" num old rest] assms toks by (simp add: doc_text_def)
  also have "\<dots> = Some (Inr (None, \<lparr>j_pos = length ?js, j_toknext = Suc (length ?ds), j_toksuper = - 1\<rparr>,
      Some (root_token (length ?ds) (int (length ?js)) (- 1) # ?ds @ rest), int (Suc (length ?ds))))"
    using members_tokens_closed [of _ 1 ms] by (intro close_object) (auto simp: doc_text_def)
  finally have run: "parse_loop ?js (length ?js) num (jsmn_init, Some toks, 0) = \<dots>" .
  have closed: "\<not> (\<exists>t \<in> set (root_token n (int (length ?js)) (- 1) # ?ds). is_open t)" for n
    using members_tokens_closed [of _ 1 ms] by (auto simp: is_open_def root_token_def)
  have "drop (2 * length ms + 1) toks = rest" using toks by simp
  then show ?thesis using run closed by (simp add: jsmn_parse_def object_tokens_def)
qed

section \<open>Reading a member back\<close>

text \<open>A value at position \<open>q\<close> of the text, with what ends it.\<close>

definition value_at :: "string \<Rightarrow> nat \<Rightarrow> gval \<Rightarrow> bool" where
  "value_at js q v \<longleftrightarrow> (\<exists>c post. drop q js = val_text v @ c # post \<and> c \<in> {CHR '','', CHR ''}''} \<and> q \<le> length js)"

lemma streq_leaf:
  assumes "js = pre @ s @ x" "NUL \<notin> set s" "NUL \<notin> set key" "length js < 2 ^ 15"
  shows "json_token_streq js (leaf ty (length pre) (length pre + length s)) key = Inr (s = key)"
proof -
  have n: "nat (int (length s) mod 2 ^ 32) = length s" using assms(1,4) by (simp add: mod_pos_pos_trivial)
  have "strncmp_eq (s @ x) key (length s) \<and> length key = length s \<longleftrightarrow> s = key"
    using assms(2,3)
  proof (induction s arbitrary: key)
    case (Cons c s)
    then show ?case by (cases key) (auto simp: peek_def)
  qed auto
  then show ?thesis using n assms(1) by (simp add: json_token_streq_def leaf_def Let_def)
qed

lemma leaf_kinds: "JSMN_STRING \<noteq> JSMN_ARRAY" "JSMN_STRING \<noteq> JSMN_OBJECT" "JSMN_PRIMITIVE \<noteq> JSMN_ARRAY"
  "JSMN_PRIMITIVE \<noteq> JSMN_OBJECT" "JSMN_STRING \<noteq> JSMN_PRIMITIVE"
  by (simp_all add: JSMN_STRING_def JSMN_ARRAY_def JSMN_OBJECT_def JSMN_PRIMITIVE_def)

lemma val_token_end: "t_end (val_token q v) \<le> int (q + length (val_text v))"
  by (cases v) (simp_all add: leaf_def in_quotes_def)

lemma val_token_skip: "skip_element toks (val_token q v) i = Inr i"
  by (cases v) (simp_all add: leaf_def skip_element_def leaf_kinds)

lemma value_at_end: "value_at js q v \<Longrightarrow> q + length (val_text v) \<le> length js"
proof -
  assume "value_at js q v"
  then obtain c post where "drop q js = val_text v @ c # post" "q \<le> length js" by (auto simp: value_at_def)
  then have "length (drop q js) = length (val_text v) + 1 + length post" "q \<le> length js" by simp_all
  then show ?thesis by simp
qed

lemma get_member:
  fixes pre m ds
  defines "q \<equiv> length pre + length (fst m) + 3"
  assumes js: "js = pre @ entry_text m @ c # post" "c \<in> {CHR '','', CHR ''}''}" "length js < 2 ^ 15"
    and toks: "toks = r # ds @ member_tokens (length pre) m @ rest" "t_end r = int (length js)"
    and plain: "plain_member m" "NUL \<notin> set key"
  shows "get_loop js toks 0 key KEY (Suc (Suc n)) (length ds) =
      (if fst m = key then Inr (WM_SUCCESS, Some (length ds + 2)) else get_loop js toks 0 key KEY n (length ds + 2))"
    and "tok_at toks (length ds + 2) = Inr (val_token q (snd m))"
    and "value_at js q (snd m)"
proof -
  let ?k = "leaf JSMN_STRING (length pre + 1) (length pre + 1 + length (fst m))"
  have key: "tok_at toks (length ds + 1) = Inr ?k" using toks(1) by (simp add: tok_at_def nth_append member_tokens_def)
  show val: "tok_at toks (length ds + 2) = Inr (val_token q (snd m))"
    using toks(1) by (simp add: tok_at_def nth_append member_tokens_def q_def)
  show at: "value_at js q (snd m)"
  proof -
    let ?front = "pre @ in_quotes (fst m) @ '':''"
    have "js = ?front @ val_text (snd m) @ c # post" "q = length ?front"
      using js(1) by (simp_all add: entry_text_def q_def in_quotes_def)
    then show ?thesis using js(2) by (auto simp: value_at_def)
  qed
  have parts: "js = (pre @ [CHR 0x22]) @ fst m @ (CHR 0x22 # CHR '':'' # val_text (snd m) @ c # post)"
    using js(1) by (simp add: entry_text_def in_quotes_def)
  have "json_token_streq js ?k key = Inr (fst m = key)"
    using streq_leaf [OF parts _ plain(2) js(3), of JSMN_STRING] plain(1) by (simp add: plain_member_def plain_text_def)
  moreover have "length pre + 1 + length (fst m) \<le> length js" using parts by simp
  then have "\<not> int (length js) < t_end ?k" "t_type ?k = JSMN_STRING" "toks ! 0 = r"
    using toks(1) by (simp_all add: leaf_def)
  moreover have "\<not> int (length js) < t_end (val_token q (snd m))"
    using val_token_end [of q "snd m"] value_at_end [OF at] by simp
  ultimately show "get_loop js toks 0 key KEY (Suc (Suc n)) (length ds) =
      (if fst m = key then Inr (WM_SUCCESS, Some (length ds + 2)) else get_loop js toks 0 key KEY n (length ds + 2))"
    using key val toks(2) by (simp add: val_token_skip)
qed

lemma get_loop_members:
  assumes "js = pre @ members_text ms @ ''}''" "list_all plain_member ms" "NUL \<notin> set key"
    and "length js < 2 ^ 15" "toks = r # ds @ members_tokens (length pre) ms @ rest" "t_end r = int (length js)"
  shows "case map_of ms key of
      None \<Rightarrow> get_loop js toks 0 key KEY (2 * length ms) (length ds) = Inr (- WM_E_JSON_NOT_FOUND, None)
    | Some v \<Rightarrow> \<exists>i q. get_loop js toks 0 key KEY (2 * length ms) (length ds) = Inr (WM_SUCCESS, Some i) \<and>
        tok_at toks i = Inr (val_token q v) \<and> value_at js q v"
  using assms
proof (induction ms arbitrary: pre ds rule: members_text.induct)
  case (2 m)
  note member = get_member [where c = "CHR ''}''" and post = "[]" and js = js and pre = pre and m = m
        and toks = toks and r = r and ds = ds and rest = rest and key = key]
  show ?case
    using 2 member(1) [of 0] member(2,3) by (cases m) (auto simp: numeral_2_eq_2)
next
  case (3 m m2 ms)
  let ?ms = "m2 # ms" and ?pre = "pre @ entry_text m @ '',''"
  have js: "js = pre @ entry_text m @ CHR '','' # members_text ?ms @ ''}''" using "3.prems"(1) by simp
  have len: "length (ds @ member_tokens (length pre) m) = length ds + 2" by (simp add: member_tokens_def)
  have "js = ?pre @ members_text ?ms @ ''}''" "list_all plain_member ?ms"
    "toks = r # (ds @ member_tokens (length pre) m) @ members_tokens (length ?pre) ?ms @ rest"
    using js "3.prems" by simp_all
  note IH = "3.IH" [OF this(1,2) "3.prems"(3,4) this(3) "3.prems"(6)]
  note member = get_member [where toks = toks and r = r and ds = ds and rest = "members_tokens (length ?pre) ?ms @ rest"
    and key = key, OF js _ "3.prems"(4)]
  show ?case
  proof (cases "fst m = key")
    case True
    then show ?thesis using member(1) [of "2 * length ?ms"] member(2,3) "3.prems" by (cases m) auto
  next
    case False
    then have e1: "map_of (m # ?ms) key = map_of ?ms key" by (cases m) simp
    have e2: "get_loop js toks 0 key KEY (2 * length (m # ?ms)) (length ds) =
        get_loop js toks 0 key KEY (2 * length ?ms) (length ds + 2)"
      using member(1) [of "2 * length ?ms"] "3.prems" False by simp
    show ?thesis unfolding e1 e2 using IH unfolding len .
  qed
qed simp

section \<open>Reading the values\<close>

lemma plain_take: "plain_text s \<Longrightarrow> NUL \<notin> set s" by (simp add: plain_text_def)

lemma strncpy_exact: "strncpy_bytes (s @ x) (length s) = s"
  by (simp add: strncpy_bytes_def)

lemma read_string:
  assumes "value_at js q (GStr s)" "int (length s) < maxlen" "maxlen \<le> int (length buf)"
  shows "json_str_to_str js (val_token q (GStr s)) buf maxlen =
    Inr (WM_SUCCESS, s @ NUL # drop (length s + 1) buf)"
proof -
  obtain c post where at: "drop q js = CHR 0x22 # s @ CHR 0x22 # c # post" "q \<le> length js"
    using assms(1) by (auto simp: value_at_def in_quotes_def)
  then have "q < length js" by (cases "q = length js") auto
  moreover have "drop (Suc q) js = s @ CHR 0x22 # c # post" using at by (simp add: drop_Suc drop_tl)
  moreover have "nat (1 + int q) = Suc q" by simp
  ultimately show ?thesis using assms(2,3)
    by (simp add: json_str_to_str_def leaf_def strncpy_exact Let_def)
qed

lemma read_bool:
  assumes "value_at js q (GBool b)" "length js < 2 ^ 15"
  shows "json_str_to_bool js (val_token q (GBool b)) = Inr (WM_SUCCESS, Some (if b then 1 else 0))"
proof -
  let ?s = "val_text (GBool b)"
  obtain c post where at: "drop q js = ?s @ c # post" "q \<le> length js"
    using assms(1) by (auto simp: value_at_def)
  have js: "js = take q js @ ?s @ c # post" using at(1) append_take_drop_id [of q js] by simp
  have "length (take q js) = q" using at(2) by simp
  then have "json_token_streq js (leaf ty q (q + length ?s)) key = Inr (?s = key)" if "NUL \<notin> set key" for ty key
    using streq_leaf [OF js _ that assms(2), of ty] by simp
  then show ?thesis by (simp add: json_str_to_bool_def leaf_kinds leaf_def)
qed

lemma alnum_digit: "is_digit c \<Longrightarrow> alnum_value c = Some (code c - 48)"
  by (auto simp: alnum_value_def is_digit_def)

lemma digits_value_append: "digits_value b (ds @ [c]) = digits_value b ds * b + the (alnum_value c)"
  by (simp add: digits_value_def)

lemma digit_char_value: "d < 10 \<Longrightarrow> the (alnum_value (digit_char d)) = d"
  by (auto simp: alnum_value_def digit_char_def)

lemma digits_value_dec: "digits_value 10 (dec_nat n) = n"
proof (induction n rule: dec_nat.induct)
  case (1 n)
  show ?case
  proof (cases "n < 10")
    case True
    then show ?thesis using digit_char_value [of n] by (simp add: dec_nat_small digits_value_def)
  next
    case False
    then show ?thesis using 1 digit_char_value [of "n mod 10"]
      by (subst dec_nat.simps) (simp add: digits_value_append)
  qed
qed

lemma dec_nat_lead: "0 < n \<Longrightarrow> hd (dec_nat n) \<noteq> CHR ''0''"
proof (induction n rule: dec_nat.induct)
  case (1 n)
  show ?case
  proof (cases "n < 10")
    case True
    moreover have "the (alnum_value (CHR ''0'')) = 0" by (simp add: alnum_value_def)
    ultimately show ?thesis using 1 digit_char_value [of n] by (auto simp: dec_nat_small)
  next
    case False
    then show ?thesis using 1 by (subst dec_nat.simps) simp
  qed
qed

lemma base_digits_dec:
  assumes "c \<in> {CHR '','', CHR ''}''}" "8 \<le> b" "n = 0 \<or> b = 10"
  shows "takeWhile (base_digit b) (dec_nat n @ c # post) = dec_nat n"
proof -
  have "\<not> base_digit b c" using assms(1) by (auto simp: base_digit_def alnum_value_def)
  moreover have "base_digit b d" if "d \<in> set (dec_nat n)" for d
    using assms(2,3) dec_nat_digits [OF that] that
    by (auto simp: base_digit_def alnum_digit is_digit_def dec_nat_small digit_char_def)
  ultimately show ?thesis by (simp add: takeWhile_append2)
qed

lemma dec_nat_0: "dec_nat 0 = ''0''"
  by code_simp

lemma strtoul_dec_int:
  assumes "c \<in> {CHR '','', CHR ''}''}" "- (2 ^ 31) \<le> i" "i < 2 ^ 31"
  shows "strtoul 32 (dec_int i @ c # post) = (nat (i mod 2 ^ 32), length (dec_int i))"
proof -
  define n where "n = nat (abs i)"
  define b where "b = (if n = 0 then 8 else 10 :: nat)"
  have n: "n \<le> 2 ^ 31" using assms(2,3) by (simp add: n_def nat_le_iff)
  let ?q = "dec_nat n @ c # post"
  have first: "is_digit (hd (dec_nat n))" using dec_nat_digits [of "hd (dec_nat n)" n] by simp
  then have head: "peek ?q = hd (dec_nat n)" "\<not> is_space (hd (dec_nat n))"
    "hd (dec_nat n) \<notin> {CHR ''-'', CHR ''+''}"
    by (cases "dec_nat n"; auto simp: peek_def is_digit_def is_space_def)+
  have base: "base_and_prefix ?q = (b, 0)"
    using dec_nat_lead [of n] head(1) assms(1)
    by (cases "n = 0") (auto simp: base_and_prefix_def b_def dec_nat_0 peek_def)
  have digits: "takeWhile (base_digit b) ?q = dec_nat n"
    using base_digits_dec [OF assms(1), of b n post] by (auto simp: b_def)
  have v: "digits_value b (dec_nat n) = n"
    using digits_value_dec [of n] by (auto simp: b_def dec_nat_small digits_value_def)
  show ?thesis
  proof (cases "i < 0")
    case True
    have "i mod 2 ^ 32 = i + 2 ^ 32" using True assms(2) by (intro int_mod_pos_eq [where q = "- 1"]) auto
    then show ?thesis using True base digits v n head
      by (simp add: strtoul_def dec_int_def n_def is_space_def peek_def Let_def nat_add_distrib)
  next
    case False
    have "i mod 2 ^ 32 = i" using False assms(3) by (simp add: mod_pos_pos_trivial)
    then show ?thesis using False base digits v n head
      by (cases "dec_nat n") (simp_all add: strtoul_def dec_int_def n_def peek_def Let_def)
  qed
qed

lemma read_int:
  assumes "value_at js q (GInt i)" "plain_val (GInt i)"
  shows "json_str_to_int js (val_token q (GInt i)) = Inr (WM_SUCCESS, Some i)"
proof -
  obtain c post where at: "drop q js = dec_int i @ c # post" "q \<le> length js" "c \<in> {CHR '','', CHR ''}''}"
    using assms(1) by (auto simp: value_at_def)
  have i: "- (2 ^ 31) \<le> i" "i < 2 ^ 31" using assms(2) by simp_all
  have "to_signed 32 (nat (i mod 2 ^ 32) mod 2 ^ 32) = i"
  proof (cases "0 \<le> i")
    case True
    then show ?thesis using i by (simp add: to_signed_def mod_pos_pos_trivial nat_less_iff)
  next
    case False
    then have "i mod 2 ^ 32 = i + 2 ^ 32" using i by (intro int_mod_pos_eq [where q = "- 1"]) auto
    then show ?thesis using False i by (simp add: to_signed_def nat_less_iff)
  qed
  then show ?thesis using strtoul_dec_int [OF at(3) i, of post] at(1,2)
    by (simp add: json_str_to_int_def number_of_def leaf_def leaf_kinds)
qed

section \<open>The round trip\<close>

fun set_member :: "string \<times> gval \<Rightarrow> json_str_t \<Rightarrow> gen_out" where
  "set_member (k, GStr s) j = json_set_val_str j k (Some s)"
| "set_member (k, GInt i) j = json_set_val_int j k i"
| "set_member (k, GBool b) j = json_set_val_bool j k b"

text \<open>The calls for an object, with what each returned.\<close>

fun gen_members :: "members \<Rightarrow> json_str_t \<Rightarrow> (int list \<times> json_str_t) res" where
  "gen_members [] j = rmap (\<lambda>(r, j1). ([r], j1)) (json_close_object j)"
| "gen_members (m # ms) j =
     rbind (set_member m j) (\<lambda>(r, j1). rmap (\<lambda>(rs, j2). (r # rs, j2)) (gen_members ms j1))"

definition gen_object :: "members \<Rightarrow> string \<Rightarrow> int \<Rightarrow> (int list \<times> json_str_t) res" where
  "gen_object ms buff len =
     rbind (json_str_init buff len) (\<lambda>j. rbind (json_start_object j) (\<lambda>(r, j1).
       rmap (\<lambda>(rs, j2). (r # rs, j2)) (gen_members ms j1)))"

lemma set_member_step: "set_member m j = gen_step (member_op m) j"
  by (cases m; cases "snd m")
    (auto simp: json_set_val_str_def json_set_val_int_def json_set_val_bool_def)

lemma gen_members_run: "gen_members ms j = gen_run (map member_op ms @ [Close_object]) j"
  by (induction ms arbitrary: j) (simp_all add: set_member_step rmap_def rbind_assoc case_prod_unfold)

lemma gen_object_run:
  "gen_object ms buff len = rbind (json_str_init buff len) (gen_run (Start_object # map member_op ms @ [Close_object]))"
  unfolding gen_object_def by (rule rbind_cong [OF refl]) (simp add: gen_members_run)

lemma gen_object_text:
  assumes "list_all plain_member ms" "length (doc_text ms) < len" "len \<le> length buff" "len < 2 ^ 31"
  shows "gen_object ms buff (int len) =
    Inr (replicate (length ms + 2) WM_SUCCESS, gen_state len (drop len buff) (doc_text ms))"
proof -
  have "list_all good_op (map member_op ms @ [Close_object])"
    using assms(1) by (induction ms) (simp_all add: good_member)
  moreover have "2 \<le> len" using assms(2) by (simp add: doc_text_def)
  ultimately show ?thesis
    using gen_run_from_start(1) [of len buff "map member_op ms @ [Close_object]"] assms object_run [of ms len]
    by (simp add: gen_object_run)
qed

fun reads :: "json_parser_t \<Rightarrow> string \<Rightarrow> string \<Rightarrow> int \<Rightarrow> gval \<Rightarrow> bool" where
  "reads a key buf maxlen (GStr s) =
     (json_get_val_str a key buf maxlen =
        Inr (if maxlen \<le> int (length s) then (- WM_E_JSON_NOMEM, buf)
             else (WM_SUCCESS, s @ NUL # drop (length s + 1) buf)))"
| "reads a key buf maxlen (GInt i) = (json_get_val_int a key = Inr (WM_SUCCESS, Some i))"
| "reads a key buf maxlen (GBool b) = (json_get_val_bool a key = Inr (WM_SUCCESS, Some (if b then 1 else 0)))"

definition object_parser :: "members \<Rightarrow> jsontok list \<Rightarrow> json_parser_t" where
  "object_parser ms rest =
     \<lparr>a_parser = \<lparr>j_pos = length (doc_text ms), j_toknext = 2 * length ms + 1, j_toksuper = - 1\<rparr>,
      a_js = Some (doc_text ms), a_tokens = object_tokens ms @ rest, a_cur = Some 0,
      a_num = int (2 * length ms + 1)\<rparr>"

lemma json_init_object:
  assumes "list_all plain_member ms" "2 * length ms < num" "num \<le> length toks"
  shows "json_init toks num (doc_text ms) (length (doc_text ms)) =
    Some (Inr (WM_SUCCESS, object_parser ms (drop (2 * length ms + 1) toks)))"
proof -
  have "unat (of_nat (2 * length ms) :: u8) mod 2 = 0" unfolding unat_of_nat by (simp add: mod_mod_cancel)
  then show ?thesis
    using jsmn_parse_object [OF assms]
    by (simp add: json_init_def json_obj_init_def init_check_def tok_at_def object_tokens_def root_token_def object_parser_def)
qed

lemma object_get_value:
  fixes ms rest
  defines "a \<equiv> object_parser ms rest"
  assumes "list_all plain_member ms" "0 < length ms" "length ms < 128" "length (doc_text ms) < 2 ^ 15" "NUL \<notin> set key"
  shows "case map_of ms key of
      None \<Rightarrow> json_get_value a key = Inr (- WM_E_JSON_NOT_FOUND, None)
    | Some v \<Rightarrow> \<exists>i q. json_get_value a key = Inr (WM_SUCCESS, Some i) \<and>
        tok_at (a_tokens a) i = Inr (val_token q v) \<and> value_at (doc_text ms) q v"
proof -
  let ?js = "doc_text ms"
  let ?r = "root_token (2 * length ms) (int (length ?js)) (- 1)"
  have size: "unat (of_nat (2 * length ms) :: u8) = 2 * length ms" unfolding unat_of_nat using assms(4) by simp
  have get: "json_get_value a key = get_loop ?js (a_tokens a) 0 key KEY (2 * length ms) 0"
    using size assms(3)
    by (simp add: json_get_value_def the_cur_def a_def object_parser_def object_tokens_def tok_at_def root_token_def)
  have toks: "a_tokens a = ?r # [] @ members_tokens (length ''{'') ms @ rest"
    by (simp add: a_def object_parser_def object_tokens_def)
  have js: "?js = ''{'' @ members_text ms @ ''}''" by (simp add: doc_text_def)
  have r: "t_end ?r = int (length ?js)" by (simp add: root_token_def)
  show ?thesis
    using get_loop_members [OF js assms(2,6,5) toks r] unfolding get list.size .
qed

lemma object_reads:
  assumes "list_all plain_member ms" "length ms < 128" "length (doc_text ms) < 2 ^ 15" "NUL \<notin> set key"
    and "maxlen \<le> int (length buf)" "map_of ms key = Some v"
  shows "reads (object_parser ms rest) key buf maxlen v"
proof -
  let ?a = "object_parser ms rest" and ?js = "doc_text ms"
  have "ms \<noteq> []" using assms(6) by auto
  then obtain i q where get: "json_get_value ?a key = Inr (WM_SUCCESS, Some i)"
      "tok_at (a_tokens ?a) i = Inr (val_token q v)" "value_at ?js q v"
    using object_get_value [OF assms(1) _ assms(2,3,4), of rest] assms(6) by auto
  have js: "a_js ?a = Some ?js" by (simp add: object_parser_def)
  have plain: "plain_val v" using assms(1) map_of_SomeD [OF assms(6)] by (auto simp: list_all_iff plain_member_def)
  show ?thesis
  proof (cases v)
    case (GStr s)
    then show ?thesis using get js assms(5) read_string [of ?js q s maxlen buf]
      by (auto simp: json_get_val_str_def with_token_def json_str_to_str_def leaf_def)
  next
    case (GInt i)
    then show ?thesis using get js plain read_int by (simp add: json_get_val_int_def with_token_def)
  next
    case (GBool b)
    then show ?thesis using get js assms(3) read_bool by (simp add: json_get_val_bool_def with_token_def)
  qed
qed

text \<open>
  C16. The round trip of the JSON library.  An object of up to 127 members, strings without quotes
  and backslashes, numbers of 32 bits and truth values, is written by the calls of the generator,
  every one of which succeeds, into a buffer it fits; the text is parsed by the tokenizer into a
  large enough array; and the reader for the kind of a member returns its value for every name, that
  of the first member of that name, a string that does not fit its buffer excepted.  A name
  that was not set is not found.
\<close>

theorem generator_roundtrip:
  assumes "list_all plain_member ms" "0 < length ms" "length ms < 128"
    and "length (doc_text ms) < len" "len \<le> length buff" "len \<le> 2 ^ 15"
    and "2 * length ms < num" "num \<le> length toks"
    and "NUL \<notin> set key" "maxlen \<le> int (length buf)"
  shows "\<exists>j a. gen_object ms buff (int len) = Inr (replicate (length ms + 2) WM_SUCCESS, j) \<and>
    buf_str (g_buff j) = Inr (doc_text ms) \<and>
    json_init toks num (doc_text ms) (length (doc_text ms)) = Some (Inr (WM_SUCCESS, a)) \<and>
    (case map_of ms key of
       None \<Rightarrow> json_get_value a key = Inr (- WM_E_JSON_NOT_FOUND, None)
     | Some v \<Rightarrow> reads a key buf maxlen v)"
proof (intro exI conjI)
  show "gen_object ms buff (int len) =
      Inr (replicate (length ms + 2) WM_SUCCESS, gen_state len (drop len buff) (doc_text ms))"
    using assms by (intro gen_object_text) auto
  have "NUL \<notin> set (doc_text ms)"
  proof -
    have "NUL \<notin> set (entry_text m)" if "m \<in> set ms" for m
      using piece_NUL [OF good_member, of m] piece_member [of m] assms(1) that
      by (auto simp: list_all_iff plain_member_def)
    then show ?thesis
      by (cases ms) (auto simp: doc_text_def members_text_Cons rest_text_def)
  qed
  then show "buf_str (g_buff (gen_state len (drop len buff) (doc_text ms))) = Inr (doc_text ms)"
    using assms(4) by (simp add: gen_state_def cstr_text)
  show "json_init toks num (doc_text ms) (length (doc_text ms)) =
      Some (Inr (WM_SUCCESS, object_parser ms (drop (2 * length ms + 1) toks)))"
    using assms by (intro json_init_object)
  show "case map_of ms key of
       None \<Rightarrow> json_get_value (object_parser ms (drop (2 * length ms + 1) toks)) key = Inr (- WM_E_JSON_NOT_FOUND, None)
     | Some v \<Rightarrow> reads (object_parser ms (drop (2 * length ms + 1) toks)) key buf maxlen v"
    using object_get_value [of ms key "drop (2 * length ms + 1) toks"] object_reads [of ms key maxlen buf] assms
    by (auto split: option.splits)
qed

definition ex_members :: members where
  "ex_members = [(''name'', GStr ''Foo Bar''), (''roll'', GInt (- 112)), (''on'', GBool True)]"

theorem generator_roundtrip_witness:
  "\<exists>j a. gen_object ex_members (replicate 50 NUL) 50 = Inr ([0, 0, 0, 0, 0], j) \<and>
    buf_str (g_buff j) = Inr (doc_text ex_members) \<and>
    json_init (replicate 8 blank_token) 8 (doc_text ex_members) (length (doc_text ex_members)) = Some (Inr (WM_SUCCESS, a)) \<and>
    json_get_val_int a ''roll'' = Inr (WM_SUCCESS, Some (- 112))"
proof -
  have plain: "list_all plain_member ex_members" and fits: "length (doc_text ex_members) < 50"
    and found: "map_of ex_members ''roll'' = Some (GInt (- 112))" and n: "length ex_members = 3"
    by code_simp+
  have "replicate (length ex_members + 2) WM_SUCCESS = [0, 0, 0, 0, 0]" by code_simp
  with generator_roundtrip [OF plain _ _ fits, of "replicate 50 NUL" 8 "replicate 8 blank_token" "''roll''" 0 "[]"]
  show ?thesis unfolding found option.case reads.simps using n by simp
qed

text \<open>
  The example of the header for an array of numbers; the text has one pair of brackets, not the
  two its comment shows.
\<close>

lemma doc_array:
  "text_run 40 [Start_object, Push_array ''roll'', Element None 10 JSON_VAL_INT, Element None 20 JSON_VAL_INT,
     Element None 30 JSON_VAL_INT, Pop_array, Close_object] [] =
   (replicate 7 0, ''{'' @ in_quotes ''roll'' @ '':[10,20,30]}'')"
proof -
  have "print_d 10 = ''10''" "print_d 20 = ''20''" "print_d 30 = ''30''"
    unfolding print_d_int [of 10, simplified] print_d_int [of 20, simplified] print_d_int [of 30, simplified]
    by code_simp+
  then show ?thesis
    by (simp add: text_step_def in_quotes_def first_visible_def last_visible_def WM_SUCCESS_def eval_nat_numeral)
qed

end
