(* ===== verification/Base64.thy ===== *)
theory Base64
  imports CLib
begin

text \<open>
  \<open>src/thirdpartylib/Linkkit/src/infra/utils/digest/utils_base64.c\<close>: the encoder and the decoder.

  Buffers are lists of bytes of their exact size.  The input and output indices are natural
  numbers: an index that would wrap around 32 bits has left its buffer before.
\<close>

section \<open>Tables\<close>

definition SUCCESS_RETURN :: int where "SUCCESS_RETURN = 0"
definition FAIL_RETURN :: int where "FAIL_RETURN = - 1"

definition g_encodingTable :: "u8 list" where
  "g_encodingTable =
     map char_u8 (''ABCDEFGHIJKLMNOPQRSTUVWXYZ'' @ ''abcdefghijklmnopqrstuvwxyz'' @ ''0123456789+/'')"

definition g_modTable :: "nat list" where "g_modTable = [0, 2, 1]"

definition equals_sign :: u8 where "equals_sign = char_u8 (CHR ''='')"

text \<open>The entries of other characters are 0, as the static array starts.\<close>

definition build_decoding_table :: "u8 list" where
  "build_decoding_table =
     fold (\<lambda>i table. table[unat (g_encodingTable ! i) := of_nat i]) [0 ..< 64] (replicate 256 0)"

section \<open>Encoding\<close>

definition put_at :: "u8 list \<Rightarrow> nat \<Rightarrow> u8 \<Rightarrow> u8 list res" where
  "put_at buf j b = (if j < length buf then Inr (buf[j := b]) else Inl BufferOverflow)"

fun put_all :: "u8 list \<Rightarrow> nat \<Rightarrow> u8 list \<Rightarrow> u8 list res" where
  "put_all buf j [] = Inr buf"
| "put_all buf j (b # bs) = rbind (put_at buf j b) (\<lambda>buf'. put_all buf' (j + 1) bs)"

definition byte_at :: "u8 list \<Rightarrow> nat \<Rightarrow> u8 res" where
  "byte_at data i = (if i < length data then Inr (data ! i) else Inl OutOfBounds)"

definition octet :: "u8 list \<Rightarrow> nat \<Rightarrow> nat \<Rightarrow> u8 res" where
  "octet data len i = (if i < len then byte_at data i else Inr 0)"

definition octets_triple :: "u8 \<Rightarrow> u8 \<Rightarrow> u8 \<Rightarrow> u32" where
  "octets_triple a b c = push_bit 0x10 (ucast a) + push_bit 0x08 (ucast b) + ucast c"

definition sextet_char :: "u32 \<Rightarrow> nat \<Rightarrow> u8" where
  "sextet_char t k = g_encodingTable ! unat (drop_bit (k * 6) t AND 0x3F)"

definition quad :: "u8 \<Rightarrow> u8 \<Rightarrow> u8 \<Rightarrow> u8 list" where
  "quad a b c = map (sextet_char (octets_triple a b c)) [3, 2, 1, 0]"

function b64_encode_loop :: "u8 list \<Rightarrow> nat \<Rightarrow> nat \<Rightarrow> u8 list \<Rightarrow> nat \<Rightarrow> u8 list res" where
  "b64_encode_loop data len i buf j =
     (if i < len
      then rbind (octet data len i) (\<lambda>a.
           rbind (octet data len (i + 1)) (\<lambda>b.
           rbind (octet data len (i + 2)) (\<lambda>c.
           rbind (put_all buf j (quad a b c)) (\<lambda>buf'. b64_encode_loop data len (min (i + 3) len) buf' (j + 4)))))
      else Inr buf)"
  by pat_completeness auto
termination by (relation "measure (\<lambda>(data, len, i, buf, j). len - i)") auto

declare b64_encode_loop.simps [simp del]

fun pad_loop :: "nat \<Rightarrow> u32 \<Rightarrow> u32 \<Rightarrow> u8 list \<Rightarrow> u8 list res" where
  "pad_loop 0 i n buf = Inr buf"
| "pad_loop (Suc k) i n buf = rbind (put_at buf (unat (n - 1 - i)) equals_sign) (pad_loop k (i + 1) n)"

text \<open>The return value, the buffer and \<open>*outputLength\<close>, \<open>None\<close> while it is not set.\<close>

definition utils_base64encode ::
  "u8 list \<Rightarrow> u32 \<Rightarrow> u32 \<Rightarrow> u8 list option \<Rightarrow> (int \<times> u8 list option \<times> u32 option) res" where
  "utils_base64encode data inputLength outputLenMax encodedData =
     (case encodedData of
        None \<Rightarrow> Inr (FAIL_RETURN, None, None)
      | Some buf \<Rightarrow>
          let n = 4 * ((inputLength + 2) div 3)
          in if outputLenMax < n then Inr (FAIL_RETURN, encodedData, Some n)
             else rmap (\<lambda>buf'. (SUCCESS_RETURN, Some buf', Some n))
               (rbind (b64_encode_loop data (unat inputLength) 0 buf 0)
                 (pad_loop (g_modTable ! unat (inputLength mod 3)) 0 n)))"

section \<open>Decoding\<close>

definition sextet :: "u8 list \<Rightarrow> nat \<Rightarrow> u32 res" where
  "sextet data i =
     rmap (\<lambda>b. if b = equals_sign then 0 else scast (build_decoding_table ! unat b)) (byte_at data i)"

definition sextets_triple :: "u32 \<Rightarrow> u32 \<Rightarrow> u32 \<Rightarrow> u32 \<Rightarrow> u32" where
  "sextets_triple a b c d = push_bit 18 a + push_bit 12 b + push_bit 6 c + push_bit 0 d"

definition triple_byte :: "u32 \<Rightarrow> nat \<Rightarrow> u8" where
  "triple_byte t k = ucast (drop_bit (k * 8) t AND 0xFF)"

text \<open>\<open>if (j < *outputLength) decodedData[j++] = ...\<close> for each byte of a triple.\<close>

fun put_below :: "nat \<Rightarrow> u8 list \<Rightarrow> nat \<Rightarrow> u8 list \<Rightarrow> (u8 list \<times> nat) res" where
  "put_below n buf j [] = Inr (buf, j)"
| "put_below n buf j (b # bs) =
     (if j < n then rbind (put_at buf j b) (\<lambda>buf'. put_below n buf' (j + 1) bs) else put_below n buf j bs)"

function b64_decode_loop :: "u8 list \<Rightarrow> nat \<Rightarrow> nat \<Rightarrow> nat \<Rightarrow> u8 list \<Rightarrow> nat \<Rightarrow> u8 list res" where
  "b64_decode_loop data len n i buf j =
     (if i < len
      then rbind (sextet data i) (\<lambda>a. rbind (sextet data (i + 1)) (\<lambda>b.
           rbind (sextet data (i + 2)) (\<lambda>c. rbind (sextet data (i + 3)) (\<lambda>d.
           rbind (put_below n buf j (map (triple_byte (sextets_triple a b c d)) [2, 1, 0])) (\<lambda>(buf', j').
             b64_decode_loop data len n (i + 4) buf' j')))))
      else Inr buf)"
  by pat_completeness auto
termination by (relation "measure (\<lambda>(data, len, n, i, buf, j). len - i)") auto

declare b64_decode_loop.simps [simp del]

text \<open>The last two characters are read at \<open>inputLength - 1\<close> and \<open>- 2\<close> in 32 bits.\<close>

definition decoded_length :: "u8 list \<Rightarrow> u32 \<Rightarrow> u32 res" where
  "decoded_length data inputLength =
     rbind (byte_at data (unat (inputLength - 1))) (\<lambda>y.
     rbind (byte_at data (unat (inputLength - 2))) (\<lambda>x.
       Inr (inputLength div 4 * 3 - (if y = equals_sign then 1 else 0) - (if x = equals_sign then 1 else 0))))"

definition utils_base64decode ::
  "u8 list \<Rightarrow> u32 \<Rightarrow> u32 \<Rightarrow> u8 list \<Rightarrow> (int \<times> u8 list \<times> u32 option) res" where
  "utils_base64decode data inputLength outputLenMax buf =
     (if inputLength mod 4 \<noteq> 0 then Inr (FAIL_RETURN, buf, None)
      else rbind (decoded_length data inputLength) (\<lambda>n.
           if outputLenMax < n then Inr (FAIL_RETURN, buf, Some n)
           else rmap (\<lambda>buf'. (SUCCESS_RETURN, buf', Some n))
             (b64_decode_loop data (unat inputLength) (unat n) 0 buf 0)))"

end
