(* ===== verification/Base64_Props.thy ===== *)
theory Base64_Props
  imports Base64
begin

text \<open>
  The encoder writes the Base64 text of its input, and the decoder takes it back.  Words are
  first read as numbers; one group of three bytes is a number with four digits to the base 64.
\<close>

section \<open>Words as numbers\<close>

lemma unat_push:
  fixes a :: u8
  assumes "k \<le> 16"
  shows "unat (push_bit k (ucast a :: u32)) = unat a * 2 ^ k"
proof -
  have "(2::nat) ^ k \<le> 2 ^ 16" using assms by (intro power_increasing) simp_all
  then have "unat a * 2 ^ k < 2 ^ 8 * 2 ^ 16"
    using unsigned_less [of a, where ?'a = nat] by (intro mult_less_le_imp_less) simp_all
  moreover have "unat (push_bit k (ucast a :: u32)) = take_bit 32 (push_bit k (unat (ucast a :: u32)))"
    by (simp add: unsigned_push_bit_eq)
  moreover have "unat (ucast a :: u32) = unat a" 
    using unsigned_less [of a, where ?'a = nat] by (simp add: unsigned_ucast_eq take_bit_eq_mod)
  ultimately show ?thesis by (simp add: push_bit_eq_mult take_bit_eq_mod)
qed

lemma unat_octets_triple: "unat (octets_triple a b c) = unat a * 65536 + unat b * 256 + unat c"
proof -
  have "unat a < 256" "unat b < 256" "unat c < 256" 
    using unsigned_less [of a, where ?'a = nat] unsigned_less [of b, where ?'a = nat] unsigned_less [of c, where ?'a = nat]
    by simp_all
  then show ?thesis
    using unat_push [of 16 a] unat_push [of 8 b] unat_push [of 0 c]
    by (simp add: octets_triple_def unat_word_ariths)
qed

lemma unat_and_63: "unat (drop_bit k (w :: u32) AND 0x3F) = unat w div 2 ^ k mod 64"
proof -
  have "drop_bit k w AND 0x3F = take_bit 6 (drop_bit k w)" by (simp add: take_bit_eq_mask mask_eq_exp_minus_1)
  then have "unat (drop_bit k w AND 0x3F) = take_bit 6 (drop_bit k (unat w))"
    by (simp only: unsigned_take_bit_eq unat_drop_bit_eq)
  then show ?thesis by (simp add: drop_bit_eq_div take_bit_eq_mod)
qed

lemma unat_and_255: "unat (drop_bit k (w :: u32) AND 0xFF) = unat w div 2 ^ k mod 256"
proof -
  have "drop_bit k w AND 0xFF = take_bit 8 (drop_bit k w)" by (simp add: take_bit_eq_mask mask_eq_exp_minus_1)
  then have "unat (drop_bit k w AND 0xFF) = take_bit 8 (drop_bit k (unat w))"
    by (simp only: unsigned_take_bit_eq unat_drop_bit_eq)
  then show ?thesis by (simp add: drop_bit_eq_div take_bit_eq_mod)
qed

section \<open>One group\<close>

text \<open>The six-bit digits of a group, the most significant first.\<close>

definition digits :: "nat \<Rightarrow> nat list" where
  "digits n = [n div 262144 mod 64, n div 4096 mod 64, n div 64 mod 64, n mod 64]"

definition symbol :: "nat \<Rightarrow> u8" where
  "symbol d = g_encodingTable ! d"

definition value_of :: "u8 \<Rightarrow> u32" where
  "value_of b = (if b = equals_sign then 0 else scast (build_decoding_table ! unat b))"

lemma unat_digit: "unat (drop_bit k (w :: u32)) mod 64 = unat w div 2 ^ k mod 64"
  unfolding drop_bit_eq_div [where ?'a = nat, symmetric] unat_drop_bit_eq ..

lemma quad_digits: "quad a b c = map symbol (digits (unat a * 65536 + unat b * 256 + unat c))"
  by (simp add: quad_def sextet_char_def unat_and_63 unat_and_63 [of 0, simplified] unat_digit unat_octets_triple digits_def symbol_def)

lemma fold_updates:
  assumes "inj_on f {0 ..< n}" "\<forall>i < n. f i < length t" "d < n"
  shows "fold (\<lambda>i t. t[f i := g i]) [0 ..< n] t ! f d = g d"
  using assms
proof (induction n)
  case (Suc n)
  let ?t = "fold (\<lambda>i t. t[f i := g i]) [0 ..< n] t"
  have len: "length (fold (\<lambda>i t. t[f i := g i]) xs t) = length t" for xs
    by (induction xs arbitrary: t) simp_all
  show ?case
  proof (cases "d = n")
    case True
    then show ?thesis using Suc.prems len by simp
  next
    case False
    then have "f n \<noteq> f d" using Suc.prems by (auto dest: inj_onD)
    moreover have "?t ! f d = g d"
      using Suc.IH Suc.prems False by (simp add: inj_on_subset [of f "{0..<Suc n}"] subset_iff)
    ultimately show ?thesis by simp
  qed
qed simp

lemma codes: "map unat g_encodingTable = [65 ..< 91] @ [97 ..< 123] @ [48 ..< 58] @ [43, 47]"
  by code_simp

lemma symbol_check:
  "distinct (map unat g_encodingTable)" "length g_encodingTable = 64"
proof -
  show "distinct (map unat g_encodingTable)" unfolding codes by auto
  show "length g_encodingTable = 64" using arg_cong [OF codes, of length] by simp
qed

lemma symbol_not_equals: "d < 64 \<Longrightarrow> symbol d \<noteq> equals_sign"
proof
  assume "d < 64" "symbol d = equals_sign"
  then have "unat equals_sign \<in> set (map unat g_encodingTable)"
    using symbol_check(2) unfolding symbol_def by (metis nth_mem image_eqI set_map)
  moreover have "unat equals_sign = 61" by code_simp
  ultimately show False unfolding codes by auto
qed

lemma small_signed: "list_all (\<lambda>d. scast (of_nat d :: u8) = (of_nat d :: u32)) [0 ..< 64]"
  by code_simp

lemma value_of_symbol:
  assumes "d < 64"
  shows "value_of (symbol d) = of_nat d" "symbol d \<noteq> equals_sign"
proof -
  have d: "scast (of_nat d :: u8) = (of_nat d :: u32)" "symbol d \<noteq> equals_sign"
    using small_signed assms symbol_not_equals by (simp_all add: list_all_iff)
  have "inj_on (\<lambda>i. unat (g_encodingTable ! i)) {0 ..< 64}"
    using symbol_check(1,2) by (simp add: inj_on_def distinct_conv_nth) (metis atLeastLessThan_iff)
  then have "build_decoding_table ! unat (g_encodingTable ! d) = of_nat d"
    unfolding build_decoding_table_def
    by (rule fold_updates) (use assms unsigned_less [where 'b = 8 and ?'a = nat] in simp_all)
  then show "value_of (symbol d) = of_nat d" using d by (simp add: value_of_def symbol_def)
  show "symbol d \<noteq> equals_sign" using d(2) .
qed

lemma value_of_equals: "value_of equals_sign = 0"
  by (simp add: value_of_def)

lemma sextets_triple_nat:
  assumes "a < 64" "b < 64" "c < 64" "d < 64"
  shows "unat (sextets_triple (of_nat a) (of_nat b) (of_nat c) (of_nat d)) = a * 262144 + b * 4096 + c * 64 + d"
proof -
  have "sextets_triple (of_nat a) (of_nat b) (of_nat c) (of_nat d) = of_nat (a * 262144 + b * 4096 + c * 64 + d)"
    by (simp add: sextets_triple_def push_bit_eq_mult)
  then show ?thesis unfolding \<open>sextets_triple _ _ _ _ = _\<close> unat_of_nat using assms by simp
qed

lemma triple_byte_nat:
  "triple_byte t k = of_nat (unat t div 2 ^ (k * 8) mod 256)"
  unfolding triple_byte_def unat_and_255 [symmetric] by simp

lemma byte_split:
  assumes "c < (256::nat)"
  shows "(x * 256 + c) div 256 = x" "(x * 256 + c) mod 256 = c"
  using assms by simp_all

lemma group_back:
  assumes "a < 256" "b < 256" "c < 256" "n = a * 65536 + b * 256 + c"
  shows "digits n = [d1, d2, d3, d4] \<Longrightarrow>
    map (triple_byte (sextets_triple (of_nat d1) (of_nat d2) (of_nat d3) (of_nat d4))) [2, 1, 0] =
      [of_nat a, of_nat b, of_nat c]"
proof -
  assume d: "digits n = [d1, d2, d3, d4]"
  then have lt: "d1 < 64" "d2 < 64" "d3 < 64" "d4 < 64" by (auto simp: digits_def)
  have "n < 16777216" using assms by simp
  then have "d1 * 262144 + d2 * 4096 + d3 * 64 + d4 = n"
    using d div_mult_mod_eq [of n 64] div_mult_mod_eq [of "n div 64" 64] div_mult_mod_eq [of "n div 64 div 64" 64]
    by (auto simp: digits_def div_mult2_eq [symmetric])
  then have "unat (sextets_triple (of_nat d1) (of_nat d2) (of_nat d3) (of_nat d4)) = n"
    using sextets_triple_nat [OF lt] by simp
  moreover have n: "n = (a * 256 + b) * 256 + c" using assms(4) by simp
  have low: "n mod 256 = c" and d: "n div 256 = a * 256 + b" unfolding n by (rule byte_split [OF assms(3)])+
  have mid: "n div 256 mod 256 = b" unfolding d by (rule byte_split(2) [OF assms(2)])
  have "n div 65536 = n div 256 div 256" by (simp add: div_mult2_eq [symmetric])
  then have "n div 65536 mod 256 = a" unfolding d byte_split(1) [OF assms(2)] using assms(1) by simp
  ultimately show ?thesis using low mid by (simp add: triple_byte_nat)
qed

section \<open>The encoding\<close>

text \<open>
  The reference: three bytes are a number of 24 bits and become its four digits to the base 64;
  a shorter last group is filled up with zeros, and the digits without any bits of it are
  replaced by equals signs.
\<close>

fun b64 :: "u8 list \<Rightarrow> u8 list" where
  "b64 [] = []"
| "b64 [a] = map symbol (take 2 (digits (unat a * 65536))) @ [equals_sign, equals_sign]"
| "b64 [a, b] = map symbol (take 3 (digits (unat a * 65536 + unat b * 256))) @ [equals_sign]"
| "b64 (a # b # c # xs) = map symbol (digits (unat a * 65536 + unat b * 256 + unat c)) @ b64 xs"

fun quads :: "u8 list \<Rightarrow> u8 list" where
  "quads [] = []"
| "quads [a] = quad a 0 0"
| "quads [a, b] = quad a b 0"
| "quads (a # b # c # xs) = quad a b c @ quads xs"

definition pads :: "nat \<Rightarrow> nat" where
  "pads n = (if n mod 3 = 0 then 0 else 3 - n mod 3)"

lemma length_digits [simp]: "length (digits n) = 4"
  by (simp add: digits_def)

lemma length_quad [simp]: "length (quad a b c) = 4"
  by (simp add: quad_def)

lemma group_step: "(Suc (Suc (Suc n)) + 2) div 3 = (n + 2) div 3 + 1"
  by presburger

lemma pads_step: "pads (Suc (Suc (Suc n))) = pads n"
  by (simp add: pads_def)

lemma length_b64: "length (b64 xs) = 4 * ((length xs + 2) div 3)"
proof (induction xs rule: b64.induct)
  case (4 a b c xs)
  then show ?case using group_step [of "length xs"] by simp
qed simp_all

lemma length_quads: "length (quads xs) = 4 * ((length xs + 2) div 3)"
proof (induction xs rule: quads.induct)
  case (4 a b c xs)
  then show ?case using group_step [of "length xs"] by simp
qed simp_all

lemma pads_le: "pads (length xs) \<le> length (quads xs)"
  unfolding length_quads pads_def by (cases "length xs") auto

lemma b64_quads: "b64 xs = take (length (quads xs) - pads (length xs)) (quads xs) @ replicate (pads (length xs)) equals_sign"
proof (induction xs rule: b64.induct)
  case (2 a)
  have "quads [a] = map symbol (digits (unat a * 65536))" by (simp add: quad_digits)
  then show ?case by (simp add: pads_def take_map numeral_2_eq_2 del: quads.simps)
next
  case (3 a b)
  have "quads [a, b] = map symbol (digits (unat a * 65536 + unat b * 256))" by (simp add: quad_digits)
  then show ?case by (simp add: pads_def take_map del: quads.simps)
next
  case (4 a b c xs)
  let ?q = "quad a b c"
  have "b64 (a # b # c # xs) = ?q @ b64 xs" by (simp add: quad_digits)
  moreover have "pads (length (a # b # c # xs)) = pads (length xs)" using pads_step by simp
  ultimately show ?case using 4 pads_le [of xs] by simp
qed (simp add: pads_def)

lemma put_all_fits:
  "j + length bs \<le> length buf \<Longrightarrow> put_all buf j bs = Inr (take j buf @ bs @ drop (j + length bs) buf)"
proof (induction bs arbitrary: buf j)
  case (Cons b bs)
  have "put_all (buf[j := b]) (j + 1) bs = Inr (take (j + 1) (buf[j := b]) @ bs @ drop (j + 1 + length bs) (buf[j := b]))"
    using Cons by simp
  then show ?case using Cons.prems by (simp add: put_at_def take_Suc_conv_app_nth)
qed simp

lemma put_all_append: "put_all buf j (xs @ ys) = rbind (put_all buf j xs) (\<lambda>buf'. put_all buf' (j + length xs) ys)"
  by (induction xs arbitrary: buf j) (simp_all add: rbind_assoc)

lemma rbind_Inr_id: "rbind m Inr = m"
  by (cases m) simp_all

lemma encode_loop_quads:
  "b64_encode_loop (pre @ xs) (length pre + length xs) (length pre) buf j = put_all buf j (quads xs)"
proof (induction xs arbitrary: pre buf j rule: quads.induct)
  case 1
  then show ?case by (simp add: b64_encode_loop.simps)
next
  case (2 a)
  then show ?case
    by (simp add: b64_encode_loop.simps [of _ _ "length pre"] b64_encode_loop.simps [of _ _ "Suc (length pre)"]
        octet_def byte_at_def rbind_Inr_id)
next
  case (3 a b)
  then show ?case
    by (simp add: b64_encode_loop.simps [of _ _ "length pre"] b64_encode_loop.simps [of _ _ "Suc (Suc (length pre))"]
        octet_def byte_at_def rbind_Inr_id nth_append)
next
  case (4 a b c xs)
  show ?case
    using "4.IH" [of "pre @ [a, b, c]"]
    by (simp add: b64_encode_loop.simps [of _ _ "length pre"] octet_def byte_at_def nth_append put_all_append
        numeral_3_eq_3 add.commute add.left_commute)
qed

text \<open>The padding loop overwrites the end of the last group.\<close>

lemma unat_minus:
  assumes "m \<le> n" "n < 2 ^ 32"
  shows "unat (of_nat n - of_nat m :: u32) = n - m"
proof -
  have "(of_nat n - of_nat m :: u32) = of_nat (n - m)" using assms(1) by (simp add: of_nat_diff)
  then show ?thesis using assms(2) by (simp add: unat_of_nat)
qed

lemma pad_loop_end:
  assumes "length w = n" "n < 2 ^ 32"
  shows "i + k \<le> n \<Longrightarrow> pad_loop k (of_nat i) (of_nat n) (take (n - i) w @ replicate i equals_sign @ rest) =
    Inr (take (n - (i + k)) w @ replicate (i + k) equals_sign @ rest)"
proof (induction k arbitrary: i)
  case (Suc k)
  have index: "(of_nat n - 1 - of_nat i :: u32) = of_nat n - of_nat (i + 1)" by simp
  have at: "unat (of_nat n - 1 - of_nat i :: u32) = n - (i + 1)"
    unfolding index by (rule unat_minus) (use Suc.prems assms(2) in simp_all)
  have "take (n - i) w = take (n - (i + 1)) w @ [w ! (n - (i + 1))]"
    using Suc.prems assms(1) take_Suc_conv_app_nth [of "n - (i + 1)" w] by (simp add: Suc_diff_Suc)
  then have "put_at (take (n - i) w @ replicate i equals_sign @ rest) (n - (i + 1)) equals_sign =
      Inr (take (n - (i + 1)) w @ replicate (i + 1) equals_sign @ rest)"
    using Suc.prems assms(1) by (simp add: put_at_def list_update_append)
  then show ?case using Suc.IH [of "i + 1"] Suc.prems at by (simp add: add.commute)
qed simp

section \<open>What the encoder returns\<close>

definition code_length :: "nat \<Rightarrow> nat" where
  "code_length n = 4 * ((n + 2) div 3)"

lemma unat_code_length:
  assumes "n \<le> 3 * 2 ^ 30 - 3"
  shows "unat (4 * ((of_nat n + 2) div 3) :: u32) = code_length n" "code_length n < 2 ^ 32"
    "(4 * ((of_nat n + 2) div 3) :: u32) = of_nat (code_length n)"
proof -
  have two: "(of_nat n + 2 :: u32) = of_nat (n + 2)" by simp
  have "unat (of_nat n + 2 :: u32) = n + 2" unfolding two unat_of_nat using assms by simp
  then have d: "unat ((of_nat n + 2) div 3 :: u32) = (n + 2) div 3" by (simp add: unat_div_distrib)
  show lt: "code_length n < 2 ^ 32" using assms by (simp add: code_length_def)
  show u: "unat (4 * ((of_nat n + 2) div 3) :: u32) = code_length n"
    using lt d by (simp add: code_length_def unat_word_ariths)
  show "(4 * ((of_nat n + 2) div 3) :: u32) = of_nat (code_length n)" unfolding u [symmetric] by simp
qed

lemma mod_table:
  assumes "n < 2 ^ 32"
  shows "g_modTable ! unat (of_nat n mod 3 :: u32) = pads n"
proof -
  have "unat (of_nat n mod 3 :: u32) = n mod 3" using assms by (simp add: unat_mod_distrib unat_of_nat)
  moreover have "n mod 3 < 3" by simp
  then consider "n mod 3 = 0" | "n mod 3 = 1" | "n mod 3 = 2" by linarith
  then have "g_modTable ! (n mod 3) = pads n" by cases (simp_all add: g_modTable_def pads_def)
  ultimately show ?thesis by simp
qed

text \<open>The encoder refuses a buffer that is said to be shorter than the text needs; otherwise it
  writes the Base64 text of its input and leaves the rest of the buffer alone.
\<close>

theorem base64_encodes:
  assumes "length data \<le> 3 * 2 ^ 30 - 3" "unat maxlen \<le> length buf"
  shows "utils_base64encode data (of_nat (length data)) maxlen (Some buf) = Inr (
    if unat maxlen < length (b64 data) then (FAIL_RETURN, Some buf, Some (of_nat (length (b64 data))))
    else (SUCCESS_RETURN, Some (b64 data @ drop (length (b64 data)) buf), Some (of_nat (length (b64 data)))))"
proof -
  let ?n = "length data" and ?L = "code_length (length data)"
  note u = unat_code_length [OF assms(1)]
  have L: "length (b64 data) = ?L" "length (quads data) = ?L" by (simp_all add: length_b64 length_quads code_length_def)
  have n: "unat (of_nat ?n :: u32) = ?n" using assms(1) by (simp add: unat_of_nat)
  show ?thesis
  proof (cases "unat maxlen < ?L")
    case True
    then show ?thesis using u L by (simp add: utils_base64encode_def word_less_nat_alt Let_def)
  next
    case False
    then have room: "?L \<le> length buf" using assms(2) by simp
    have "b64_encode_loop data ?n 0 buf 0 = Inr (quads data @ drop ?L buf)"
      using encode_loop_quads [of "[]" data buf 0] put_all_fits [of 0 "quads data" buf] room L by simp
    moreover have "pad_loop (pads ?n) 0 (of_nat ?L) (quads data @ drop ?L buf) = Inr (b64 data @ drop ?L buf)"
      using pad_loop_end [OF L(2) u(2), of 0 "pads ?n" "drop ?L buf"] pads_le [of data] L b64_quads [of data] by simp
    moreover have "g_modTable ! unat (of_nat ?n mod 3 :: u32) = pads ?n" using assms(1) by (intro mod_table) simp
    ultimately show ?thesis
      using False u L n by (simp add: utils_base64encode_def word_less_nat_alt Let_def)
  qed
qed

section \<open>The decoder\<close>

lemma sextet_value: "sextet data i = rmap value_of (byte_at data i)"
  by (cases "byte_at data i") (simp_all add: sextet_def value_of_def)

lemma put_below_fits:
  assumes "j \<le> n" "n \<le> length buf"
  shows "put_below n buf j bs =
    Inr (take j buf @ take (n - j) bs @ drop (j + min (n - j) (length bs)) buf, j + min (n - j) (length bs))"
  using assms
proof (induction bs arbitrary: buf j)
  case (Cons b bs)
  show ?case
  proof (cases "j < n")
    case True
    have "put_below n (buf[j := b]) (j + 1) bs =
        Inr (take (j + 1) (buf[j := b]) @ take (n - (j + 1)) bs @
             drop (j + 1 + min (n - (j + 1)) (length bs)) (buf[j := b]), j + 1 + min (n - (j + 1)) (length bs))"
      using Cons True by simp
    moreover have "min (n - j) (length (b # bs)) = 1 + min (n - (j + 1)) (length bs)" using True by auto
    moreover have "take (n - j) (b # bs) = b # take (n - (j + 1)) bs" using True by (simp add: take_Cons' )
    ultimately show ?thesis using Cons.prems True by (simp add: put_at_def take_Suc_conv_app_nth)
  next
    case False
    then show ?thesis using Cons by simp
  qed
qed simp

text \<open>Each group of the text gives its digits back, and equals signs count as zeros.\<close>

lemma byte_less: "unat (a :: u8) < 256"
  using unsigned_less [of a, where ?'a = nat] by simp

lemma digits_less: "d \<in> set (digits n) \<Longrightarrow> d < 64"
  by (auto simp: digits_def)

lemma group_values:
  assumes "xs \<noteq> []"
  obtains a b c g rest where "b64 xs = g @ rest" "length g = 4"
    "map value_of g = map of_nat (digits (unat a * 65536 + unat b * 256 + unat c))"
    "take 3 xs = take (length xs) [a, b, c]" "rest = b64 (drop 3 xs)" "length (take 3 xs) = min 3 (length xs)"
proof -
  have vals: "map value_of (map symbol ds) = map of_nat ds" if "set ds \<subseteq> set (digits n)" for ds n
  proof -
    have "value_of (symbol d) = of_nat d" if "d \<in> set ds" for d
      using that \<open>set ds \<subseteq> set (digits n)\<close> by (intro value_of_symbol(1) digits_less [of d n]) blast
    then show ?thesis by simp
  qed
  show thesis
  proof (cases xs rule: b64.cases)
    case (2 a)
    let ?n = "unat a * 65536 + unat (0 :: u8) * 256 + unat (0 :: u8)"
    have "map value_of (map symbol (take 2 (digits ?n)) @ [equals_sign, equals_sign]) = map of_nat (digits ?n)"
      using vals [of "take 2 (digits ?n)" ?n] by (simp add: value_of_equals digits_def)
    then show thesis using 2 that [of "b64 xs" "[]" a 0 0] by simp
  next
    case (3 a b)
    let ?n = "unat a * 65536 + unat b * 256 + unat (0 :: u8)"
    have "map value_of (map symbol (take 3 (digits ?n)) @ [equals_sign]) = map of_nat (digits ?n)"
      using vals [of "take 3 (digits ?n)" ?n] set_take_subset [of 3 "digits ?n"] by (simp add: value_of_equals digits_def)
    then show thesis using 3 that [of "b64 xs" "[]" a b 0] by simp
  next
    case (4 a b c ys)
    let ?n = "unat a * 65536 + unat b * 256 + unat c"
    have "map value_of (map symbol (digits ?n)) = map of_nat (digits ?n)" by (rule vals [OF subset_refl])
    then show thesis by (intro that [of "map symbol (digits ?n)" "b64 ys" a b c]) (simp_all add: 4)
  qed (use assms in simp)
qed

lemma decode_loop_text:
  assumes "n \<le> length buf" "j + length xs = n"
  shows "b64_decode_loop (pre @ b64 xs) (length pre + length (b64 xs)) n (length pre) buf j =
    Inr (take j buf @ xs @ drop n buf)"
  using assms
proof (induction "length xs" arbitrary: xs pre buf j rule: less_induct)
  case less
  show ?case
  proof (cases "xs = []")
    case True
    then show ?thesis using less.prems by (simp add: b64_decode_loop.simps)
  next
    case False
    then obtain a b c g rest where g: "b64 xs = g @ rest" "length g = 4"
        "map value_of g = map of_nat (digits (unat a * 65536 + unat b * 256 + unat c))"
        "take 3 xs = take (length xs) [a, b, c]" and rest: "rest = b64 (drop 3 xs)"
      by (rule group_values)
    let ?data = "pre @ g @ rest" and ?i = "length pre" and ?len = "length pre + length (g @ rest)"
    obtain g1 g2 g3 g4 where g4: "g = [g1, g2, g3, g4]" using g(2) by (auto simp: numeral_eq_Suc length_Suc_conv)
    obtain d1 d2 d3 d4 where d: "digits (unat a * 65536 + unat b * 256 + unat c) = [d1, d2, d3, d4]"
      by (simp add: digits_def)
    have sext: "sextet ?data ?i = Inr (of_nat d1)" "sextet ?data (?i + 1) = Inr (of_nat d2)"
        "sextet ?data (?i + 2) = Inr (of_nat d3)" "sextet ?data (?i + 3) = Inr (of_nat d4)"
      using g(3) g4 d by (simp_all add: sextet_value byte_at_def nth_append)
    have bytes: "map (triple_byte (sextets_triple (of_nat d1) (of_nat d2) (of_nat d3) (of_nat d4))) [2, 1, 0] = [a, b, c]"
      using group_back [OF byte_less byte_less byte_less refl d] by simp
    let ?k = "min (length xs) 3"
    have k: "min (n - j) (length [a, b, c]) = ?k" "take (n - j) [a, b, c] = take 3 xs"
      using less.prems(2) g(4) by auto
    have put: "put_below n buf j [a, b, c] = Inr (take j buf @ take 3 xs @ drop (j + ?k) buf, j + ?k)"
      using put_below_fits [of j n buf "[a, b, c]"] less.prems k by simp
    let ?buf = "take j buf @ take 3 xs @ drop (j + ?k) buf"
    have "b64_decode_loop ((pre @ g) @ b64 (drop 3 xs)) (length (pre @ g) + length (b64 (drop 3 xs))) n (length (pre @ g)) ?buf (j + ?k) =
        Inr (take (j + ?k) ?buf @ drop 3 xs @ drop n ?buf)"
      using False less.prems by (intro less.hyps) auto
    moreover have "take (j + ?k) ?buf @ drop 3 xs @ drop n ?buf = take j buf @ xs @ drop n buf"
    proof -
      have "take (j + ?k) ?buf = take j buf @ take 3 xs" using less.prems by (cases "length xs \<le> 3") simp_all
      moreover have "drop n ?buf = drop n buf" using less.prems by auto
      ultimately show ?thesis by simp
    qed
    moreover have "b64_decode_loop ?data ?len n ?i buf j = b64_decode_loop ?data ?len n (?i + 4) ?buf (j + ?k)"
      unfolding b64_decode_loop.simps [of ?data ?len n ?i buf j] sext rbind_Inr bytes put prod.case using g(2) by simp
    moreover have "b64 xs = g @ b64 (drop 3 xs)" using g(1) rest by simp
    ultimately show ?thesis using g(2) rest by (simp add: add.assoc)
  qed
qed

lemma b64_end:
  assumes "xs \<noteq> []"
  shows "b64 xs ! (length (b64 xs) - 1) = equals_sign \<longleftrightarrow> length xs mod 3 \<noteq> 0"
    and "b64 xs ! (length (b64 xs) - 2) = equals_sign \<longleftrightarrow> length xs mod 3 = 1"
  using assms
proof (induction xs rule: b64.induct)
  case (4 a b c xs)
  let ?n = "unat a * 65536 + unat b * 256 + unat c"
  let ?q = "map symbol (digits ?n)"
  have q: "?q ! k \<noteq> equals_sign" if "k < 4" for k
  proof -
    have "digits ?n ! k < 64" using that by (intro digits_less [of _ ?n] nth_mem) simp
    then show ?thesis using that symbol_not_equals by simp
  qed
  {
    case 1
    then show ?case
    proof (cases "xs = []")
      case False
      then have "4 \<le> length (b64 xs)" using length_b64 [of xs] by (cases xs) auto
      moreover from this have "b64 xs \<noteq> []" by auto
      ultimately show ?thesis using "4.IH"(1) [OF False] by (simp add: nth_append)
    qed (use q [of 3] in simp)
  next
    case 2
    then show ?case
    proof (cases "xs = []")
      case False
      then have "4 \<le> length (b64 xs)" using length_b64 [of xs] by (cases xs) auto
      moreover from this have "b64 xs \<noteq> []" by auto
      ultimately show ?thesis using "4.IH"(2) [OF False] by (simp add: nth_append numeral_2_eq_2)
    qed (use q [of 2] in simp)
  }
qed (auto simp: digits_def symbol_not_equals)

lemma eq_of_unat: "unat (w :: u32) = m \<Longrightarrow> w = of_nat m"
  by auto

lemma decoded_length_b64:
  assumes "xs \<noteq> []" "length xs \<le> 3 * 2 ^ 30 - 3"
  shows "decoded_length (b64 xs) (of_nat (length (b64 xs))) = Inr (of_nat (length xs))"
proof -
  let ?L = "length (b64 xs)"
  have L: "?L = code_length (length xs)" by (simp add: length_b64 code_length_def)
  have big: "4 \<le> ?L" using assms(1) by (cases xs) (auto simp: length_b64)
  then have "b64 xs \<noteq> []" by auto
  have lt: "?L < 2 ^ 32" using unat_code_length(2) [OF assms(2)] L by simp
  have "(of_nat ?L - 1 :: u32) = of_nat ?L - of_nat 1" "(of_nat ?L - 2 :: u32) = of_nat ?L - of_nat 2" by simp_all
  then have at: "unat (of_nat ?L - 1 :: u32) = ?L - 1" "unat (of_nat ?L - 2 :: u32) = ?L - 2"
    using unat_minus [of 1 ?L] unat_minus [of 2 ?L] big lt by simp_all
  have four: "?L div 4 * 3 = (length xs + 2) div 3 * 3" by (simp add: length_b64)
  have "unat (of_nat ?L div 4 * 3 :: u32) = ?L div 4 * 3"
    using lt by (simp add: unat_word_ariths(2) unat_div_distrib unat_of_nat)
  then have "(of_nat ?L div 4 * 3 :: u32) = of_nat ((length xs + 2) div 3 * 3)" unfolding four by (rule eq_of_unat)
  moreover have "(of_nat ((length xs + 2) div 3 * 3) - (if length xs mod 3 \<noteq> 0 then 1 else 0) -
      (if length xs mod 3 = 1 then 1 else 0) :: u32) = of_nat (length xs)"
  proof -
    have "length xs mod 3 < 3" by simp
    then consider "length xs mod 3 = 0" | "length xs mod 3 = 1" | "length xs mod 3 = 2" by linarith
    then show ?thesis
    proof cases
      case 1
      then have "(length xs + 2) div 3 * 3 = length xs" by presburger
      then show ?thesis using 1 by simp
    next
      case 2
      then have "(length xs + 2) div 3 * 3 = length xs + 2" by presburger
      then show ?thesis using 2 by simp
    next
      case 3
      then have "(length xs + 2) div 3 * 3 = length xs + 1" by presburger
      then show ?thesis using 3 by simp
    qed
  qed
  ultimately show ?thesis
    using at big b64_end [OF assms(1)] \<open>b64 xs \<noteq> []\<close> by (simp add: decoded_length_def byte_at_def)
qed

text \<open>C19. Decoding what the encoder wrote gives the bytes back, for every input that is not empty, if
  both buffers are large enough.
\<close>

theorem base64_roundtrip:
  assumes "data \<noteq> []" "length data \<le> 3 * 2 ^ 30 - 3"
    and "length (b64 data) \<le> unat maxlen" "unat maxlen \<le> length buf"
    and "length data \<le> unat maxlen'" "length data \<le> length buf'"
    and "utils_base64encode data (of_nat (length data)) maxlen (Some buf) = Inr (r, Some out, Some n)"
  shows "utils_base64decode (take (unat n) out) n maxlen' buf' =
    Inr (SUCCESS_RETURN, data @ drop (length data) buf', Some (of_nat (length data)))"
proof -
  let ?L = "length (b64 data)"
  have L: "?L = code_length (length data)" by (simp add: length_b64 code_length_def)
  have lt: "?L < 2 ^ 32" using unat_code_length(2) [OF assms(2)] L by simp
  have n: "n = of_nat ?L" and out: "out = b64 data @ drop ?L buf"
    using assms(3,7) base64_encodes [OF assms(2,4)] by simp_all
  then have un: "unat n = ?L" using lt by (simp add: unat_of_nat)
  have "unat (n mod 4) = 0" using un by (simp add: unat_mod_distrib length_b64)
  then have mod: "n mod 4 = 0" by (simp add: unat_eq_0)
  have data: "unat (of_nat (length data) :: u32) = length data" using assms(2) by (simp add: unat_of_nat)
  have "b64_decode_loop (b64 data) ?L (length data) 0 buf' 0 = Inr (data @ drop (length data) buf')"
    using decode_loop_text [of "length data" buf' 0 data "[]"] assms(6) by simp
  then show ?thesis
    using mod un n out data decoded_length_b64 [OF assms(1,2)] assms(5)
    by (simp add: utils_base64decode_def word_less_nat_alt)
qed

text \<open>There is no text for which an empty input is decoded: the look at its end is outside.\<close>

lemma decode_empty: "length data < 2 ^ 32 - 1 \<Longrightarrow> utils_base64decode data 0 maxlen buf = Inl OutOfBounds"
  by (simp add: utils_base64decode_def decoded_length_def byte_at_def)

lemma ex_b64: "b64 [77, 97] = map char_u8 ''TWE=''"
proof -
  have "symbol 19 = char_u8 (CHR ''T'')" "symbol 22 = char_u8 (CHR ''W'')" "symbol 4 = char_u8 (CHR ''E'')"
    by (simp_all add: symbol_def g_encodingTable_def)
  then show ?thesis by (simp add: digits_def equals_sign_def)
qed

lemma ex_encode:
  "utils_base64encode [77, 97] 2 8 (Some (replicate 9 0)) =
     Inr (SUCCESS_RETURN, Some (map char_u8 ''TWE='' @ replicate 5 0), Some 4)"
  by code_simp

theorem base64_encodes_witness:
  "utils_base64encode [77, 97] 2 3 (Some (replicate 9 0)) = Inr (FAIL_RETURN, Some (replicate 9 0), Some 4)"
  using base64_encodes [of "[77, 97]" 3 "replicate 9 0"] unfolding ex_b64 by simp

theorem base64_roundtrip_witness:
  "utils_base64decode (map char_u8 ''TWE='') 4 2 [0, 0, 0] = Inr (SUCCESS_RETURN, [77, 97, 0], Some 2)"
  using base64_roundtrip [of "[77, 97]" 8 "replicate 9 0" 2 "[0, 0, 0]" SUCCESS_RETURN
      "map char_u8 ''TWE='' @ replicate 5 0" 4] ex_encode
  unfolding ex_b64 by simp

end
